(* ===== verification/Prelude.thy ===== *)
theory Prelude
  imports Main "HOL-Library.Word"
begin

text \<open>
  Vocabulary shared by every component: octets and octet strings, the 32-bit view that
  JavaScript's bitwise operators take of a number, the result monad of code that may throw,
  the state-and-error monad of code that reads from a stream, and the generic list and word
  lemmas the component proofs use.
\<close>

unbundle bit_operations_syntax

type_synonym byte = "8 word"
type_synonym bytes = "byte list"
type_synonym i32 = "32 word"

text \<open>A JavaScript string is a sequence of UTF-16 code units.\<close>

type_synonym jsstr = "nat list"

text \<open>A string literal.\<close>

definition js :: "string \<Rightarrow> jsstr" where
  "js s = map of_char s"

lemma js_simps [simp]: "js [] = []" "js (c # s) = of_char c # js s" "length (js s) = length s"
  by (simp_all add: js_def)

lemma js_inj [simp]: "js a = js b \<longleftrightarrow> a = b"
proof
  have inj: "inj (of_char :: char \<Rightarrow> nat)" by (rule inj_of_char)
  assume "js a = js b"
  then show "a = b" unfolding js_def using inj by (simp add: inj_map_eq_map)
qed simp

named_theorems wire_simps \<open>arithmetic reading of the big-endian readers and writers\<close>
named_theorems refine_intros \<open>introduction rules of the reader simulation\<close>

subsection \<open>Numbers seen by bitwise operators\<close>

text \<open>
  A bitwise operator first converts its operands to 32 bits (ToInt32), and \<open>>>> 0\<close> reads the
  result as unsigned. Storing a number in a \<open>Uint8Array\<close> keeps its low eight bits.
\<close>

definition to_i32 :: "nat \<Rightarrow> i32" where
  "to_i32 n = word_of_nat n"

definition to_byte :: "i32 \<Rightarrow> byte" where
  "to_byte w = ucast w"

text \<open>
  Indexing a typed array out of range yields \<open>undefined\<close>, which a bitwise operator reads as 0.
\<close>

definition octet_at :: "bytes \<Rightarrow> nat \<Rightarrow> i32" where
  "octet_at b i = (if i < length b then ucast (b ! i) else 0)"

lemma unat_byte_less: "unat (b :: byte) < 256"
  using unsigned_less [where ?'a = nat, of b] by simp

lemma unat_byte_mod [simp]: "unat (b :: byte) mod 256 = unat b"
  using unat_byte_less [of b] by simp

lemma nat_fields_16: "m div 256 mod 256 * 256 + m mod 256 = m mod (65536 :: nat)"
  using mod_mult2_eq [of m 256 256] by (simp add: mult.commute)

lemma nat_fields_24: "m div 65536 mod 256 * 65536 + m mod 65536 = m mod (16777216 :: nat)"
  using mod_mult2_eq [of m 65536 256] by (simp add: mult.commute)

lemma nat_fields_32: "m div 16777216 mod 256 * 16777216 + m mod 16777216 = m mod (4294967296 :: nat)"
  using mod_mult2_eq [of m 16777216 256] by (simp add: mult.commute)

lemma unat_byte_less_ge: "256 \<le> n \<Longrightarrow> unat (b :: byte) < n"
  by (rule less_le_trans [OF unat_byte_less])

lemma byte_pair_less: "unat (a :: byte) * 256 + unat (b :: byte) < 65536"
  using unat_byte_less [of a] unat_byte_less [of b] by linarith

lemma byte_triple_less: "unat (a :: byte) * 65536 + (unat (b :: byte) * 256 + unat (c :: byte)) < 16777216"
  using unat_byte_less [of a] unat_byte_less [of b] unat_byte_less [of c] by linarith

lemma unat_octet_at: "i < length b \<Longrightarrow> unat (octet_at b i) = unat (b ! i)"
  by (simp add: octet_at_def unsigned_ucast_eq take_bit_nat_eq_self_iff
      unat_byte_less_ge)

lemma octet_at_drop: "octet_at b (k + i) = octet_at (drop k b) i"
  by (auto simp: octet_at_def)

text \<open>An \<open>OR\<close> of fields that do not overlap is a sum.\<close>

lemma push_bit_or_nat: "b < 2 ^ n \<Longrightarrow> push_bit n a OR b = a * 2 ^ n + (b :: nat)"
proof -
  assume b: "b < 2 ^ n"
  then have "take_bit n b = b" by (simp add: take_bit_nat_eq_self)
  then have "push_bit n a AND b = push_bit n a AND take_bit n b" by simp
  also have "\<dots> = 0" by (rule bit_eqI) (auto simp: bit_simps)
  finally have "push_bit n a + b = push_bit n a OR b" by (rule disjunctive_add_eq_or)
  then show ?thesis by (simp add: push_bit_eq_mult)
qed

lemma shifted_or_nat: "b < 2 ^ n \<Longrightarrow> a * 2 ^ n OR b = a * 2 ^ n + (b :: nat)"
  using push_bit_or_nat [of b n a] by (simp add: push_bit_eq_mult)

lemma unat_push_bit_small: "unat w * 2 ^ n < 2 ^ 32 \<Longrightarrow> unat (push_bit n (w :: i32)) = unat w * 2 ^ n"
  by (simp only: unsigned_push_bit_eq) (simp add: push_bit_eq_mult take_bit_nat_eq_self)

lemma unat_inject [simp]: "unat (x :: 'a::len word) = unat y \<longleftrightarrow> x = y"
  by (simp add: word_eq_iff_unsigned [where ?'a = nat])

lemma unat_i32_less [simp]: "unat (w :: i32) < 4294967296"
  using unsigned_less [where ?'a = nat, of w] by simp

lemma unat_drop_bit_div: "unat (drop_bit n (w :: i32)) = unat w div 2 ^ n"
  by (simp only: unsigned_drop_bit_eq) (simp add: drop_bit_eq_div take_bit_nat_eq_self)

lemma unat_to_byte: "unat (to_byte w) = unat w mod 256"
  by (simp add: to_byte_def unsigned_ucast_eq take_bit_eq_mod)

lemma unat_to_i32: "unat (to_i32 n) = n mod 2 ^ 32"
  by (simp add: to_i32_def unsigned_of_nat take_bit_eq_mod)

lemma to_byte_eqI: "unat w mod 256 = unat v mod 256 \<Longrightarrow> to_byte w = to_byte v"
  by (simp add: word_eq_iff_unsigned [where ?'a = nat] unat_to_byte)

subsection \<open>Results that may be errors\<close>

definition bindE :: "'e + 'a \<Rightarrow> ('a \<Rightarrow> 'e + 'b) \<Rightarrow> 'e + 'b" where
  "bindE r f = (case r of Inl e \<Rightarrow> Inl e | Inr x \<Rightarrow> f x)"

lemma bindE_simps [simp]:
  "bindE (Inl e) f = Inl e"
  "bindE (Inr x) f = f x"
  by (simp_all add: bindE_def)

lemma bindE_Inr_conv: "bindE r f = Inr y \<longleftrightarrow> (\<exists>x. r = Inr x \<and> f x = Inr y)"
  by (cases r) auto

lemma bindE_Inl_conv: "bindE r f = Inl e \<longleftrightarrow> r = Inl e \<or> (\<exists>x. r = Inr x \<and> f x = Inl e)"
  by (cases r) auto

lemma bindE_assoc: "bindE (bindE r f) g = bindE r (\<lambda>x. bindE (f x) g)"
  by (cases r) auto

lemma bindE_cong [fundef_cong]:
  "r = r' \<Longrightarrow> (\<And>x. r' = Inr x \<Longrightarrow> f x = f' x) \<Longrightarrow> bindE r f = bindE r' f'"
  by (cases r') auto

definition guardE :: "bool \<Rightarrow> 'e \<Rightarrow> 'e + unit" where
  "guardE b e = (if b then Inr () else Inl e)"

lemma guardE_simps [simp]:
  "guardE True e = Inr ()"
  "guardE False e = Inl e"
  by (simp_all add: guardE_def)

lemma guardE_Inr_conv [simp]: "guardE b e = Inr u \<longleftrightarrow> b"
  by (simp add: guardE_def)

lemma guardE_Inl_conv [simp]: "guardE b e = Inl e' \<longleftrightarrow> \<not> b \<and> e' = e"
  by (auto simp: guardE_def)

text \<open>An operation on a state that may throw: the state survives the throw.\<close>

type_synonym ('s, 'e, 'a) action = "'s \<Rightarrow> ('e + 'a) \<times> 's"

definition returnA :: "'a \<Rightarrow> ('s, 'e, 'a) action" where
  "returnA x s = (Inr x, s)"

definition throwA :: "'e \<Rightarrow> ('s, 'e, 'a) action" where
  "throwA e s = (Inl e, s)"

definition bindA :: "('s, 'e, 'a) action \<Rightarrow> ('a \<Rightarrow> ('s, 'e, 'b) action) \<Rightarrow> ('s, 'e, 'b) action" where
  "bindA m f s = (case m s of (Inl e, s') \<Rightarrow> (Inl e, s') | (Inr x, s') \<Rightarrow> f x s')"

text \<open>\<open>try { m } catch (e) { h(e) }\<close>.\<close>

definition catchA :: "('s, 'e, 'a) action \<Rightarrow> ('e \<Rightarrow> ('s, 'e, 'a) action) \<Rightarrow> ('s, 'e, 'a) action" where
  "catchA m h s = (case m s of (Inl e, s') \<Rightarrow> h e s' | (Inr x, s') \<Rightarrow> (Inr x, s'))"

definition liftA :: "'e + 'a \<Rightarrow> ('s, 'e, 'a) action" where
  "liftA r s = (r, s)"

lemma returnA_simp [simp]: "returnA x s = (Inr x, s)"
  by (simp add: returnA_def)

lemma throwA_simp [simp]: "throwA e s = (Inl e, s)"
  by (simp add: throwA_def)

lemma liftA_simp [simp]: "liftA r s = (r, s)"
  by (simp add: liftA_def)

lemma bindA_simps [simp]:
  "m s = (Inl e, s') \<Longrightarrow> bindA m f s = (Inl e, s')"
  "m s = (Inr x, s') \<Longrightarrow> bindA m f s = f x s'"
  by (simp_all add: bindA_def)

lemma catchA_simps [simp]:
  "m s = (Inl e, s') \<Longrightarrow> catchA m h s = h e s'"
  "m s = (Inr x, s') \<Longrightarrow> catchA m h s = (Inr x, s')"
  by (simp_all add: catchA_def)

lemma bindA_Inr_conv:
  "bindA m f s = (Inr y, t) \<longleftrightarrow> (\<exists>x s'. m s = (Inr x, s') \<and> f x s' = (Inr y, t))"
  by (auto simp: bindA_def split: sum.splits prod.splits)

subsection \<open>Lists\<close>

lemma take_append_exact [simp]: "n = length xs \<Longrightarrow> take n (xs @ ys) = xs"
  by simp

lemma drop_append_exact [simp]: "n = length xs \<Longrightarrow> drop n (xs @ ys) = ys"
  by simp

text \<open>Number of leading elements satisfying a predicate is bounded by the length.\<close>

lemma length_takeWhile_dropWhile: "length (takeWhile P xs) + length (dropWhile P xs) = length xs"
  by (metis length_append takeWhile_dropWhile_id)

end
