(* ===== verification/Errors.thy ===== *)
theory Errors
  imports Prelude
begin

text \<open>
  \<open>src/errors.js\<close>: the error classes and the table of stable error codes. A code is one
  constructor per entry of the table, grouped as the table's comments group them. Messages and
  the free-form \<open>detail\<close> record are not modelled, except the byte count that
  \<open>UnexpectedEofError\<close> carries and that \<open>readFrame\<close> inspects.
\<close>

datatype proxy_code =
    PROXY_CONNECT_REFUSED | PROXY_AUTH_REQUIRED | PROXY_AUTH_FAILED | PROXY_PROTOCOL
  | PROXY_UNREACHABLE | SOCKS5_NO_ACCEPTABLE_AUTH | SOCKS5_REPLY | SOCKS5_ADDR_TYPE

datatype http_code =
    HTTP_REQUEST_LINE | HTTP_STATUS_LINE | HTTP_HEADER | HTTP_FRAMING_AMBIGUOUS | HTTP_CHUNK
  | HTTP_BODY_TRUNCATED | HTTP_TRAILER | HTTP_UPGRADE_UNEXPECTED

datatype tls_code =
    TLS_RECORD | TLS_ALERT | TLS_HANDSHAKE | TLS_TRUNCATED | TLS_VERSION_UNSUPPORTED
  | TLS_CIPHER_UNSUPPORTED | TLS_GROUP_UNSUPPORTED | TLS_SIGALG_UNSUPPORTED
  | TLS_EXTENSION_UNSUPPORTED | TLS_ALPN | TLS_PSK | TLS_TICKET

datatype http2_code =
    HTTP2_PROTOCOL | HTTP2_FRAME_SIZE | HTTP2_SETTINGS | HTTP2_FLOW_CONTROL | HTTP2_STREAM_STATE
  | HTTP2_STREAM_CLOSED | HTTP2_GOAWAY | HTTP2_COMPRESSION | HTTP2_HEADER
  | HTTP2_PUSH_UNEXPECTED | HTTP2_TRAILER

datatype cert_code =
    CERT_PARSE | CERT_CHAIN_INCOMPLETE | CERT_UNTRUSTED_ROOT | CERT_SIGNATURE_INVALID
  | CERT_SIGNATURE_WEAK | CERT_SIGNATURE_UNSUPPORTED | CERT_EXPIRED | CERT_NOT_YET_VALID
  | CERT_NAME_MISMATCH | CERT_CONSTRAINT | CERT_PIN_MISMATCH

datatype ocsp_code =
    OCSP_PARSE | OCSP_UNVERIFIED | OCSP_MISMATCH | OCSP_STALE | OCSP_REVOKED | OCSP_UNKNOWN
  | OCSP_REQUIRED

datatype client_code =
    HTTP_CONTENT_ENCODING | HTTP_CHARSET | REDIRECT_INVALID_LOCATION | REDIRECT_LOOP
  | REDIRECT_SCHEME | COOKIE_INVALID | POOL_CLOSED | CONNECTION_CLOSED

datatype limit_code =
    TIMEOUT_CONNECT | TIMEOUT_HANDSHAKE | TIMEOUT_HEADERS | TIMEOUT_IDLE | TIMEOUT_TOTAL
  | LIMIT_BODY | LIMIT_HEADER | LIMIT_REDIRECTS

datatype config_code = CONFIG_UNSATISFIABLE | CONFIG_INVALID

datatype error_code =
    Proxy proxy_code | Http http_code | Tls tls_code | Http2 http2_code | Cert cert_code
  | Ocsp ocsp_code | Client client_code | Limit limit_code | Config config_code
  | UNEXPECTED_EOF

text \<open>
  The classes. \<open>Http2Retryable\<close> is declared in \<open>http2/connection.js\<close>; \<open>TypeError\<close> is the
  platform's.
\<close>

datatype error_class =
    TunnelFetchError | ProxyError | HttpError | TlsError | Http2Error | TlsUnsupportedError
  | CertificateError | TimeoutError | LimitError | ConfigError | Http2Retryable
  | UnexpectedEofError

fun superclass :: "error_class \<Rightarrow> error_class option" where
  "superclass TunnelFetchError = None"
| "superclass TlsUnsupportedError = Some TlsError"
| "superclass Http2Retryable = Some Http2Error"
| "superclass _ = Some TunnelFetchError"

text \<open>
  What a call can throw: an error of this package, an \<open>UnexpectedEofError\<close> with the number of
  octets wanted (\<open>-1\<close> for a delimiter scan) and got, the platform's \<open>TypeError\<close>, or the
  rejection of the underlying transport, which the package passes on unread.
\<close>

datatype tf_error =
    Thrown error_class error_code
  | UnexpectedEof int nat
  | PlatformTypeError
  | TransportFailure nat

fun class_of :: "tf_error \<Rightarrow> error_class option" where
  "class_of (Thrown c _) = Some c"
| "class_of (UnexpectedEof _ _) = Some UnexpectedEofError"
| "class_of _ = None"

fun code_of :: "tf_error \<Rightarrow> error_code option" where
  "code_of (Thrown _ k) = Some k"
| "code_of (UnexpectedEof _ _) = Some UNEXPECTED_EOF"
| "code_of _ = None"

definition instanceof :: "tf_error \<Rightarrow> error_class \<Rightarrow> bool" where
  "instanceof e c =
     (case class_of e of
        None \<Rightarrow> False
      | Some d \<Rightarrow> d = c \<or> superclass d = Some c
          \<or> (case superclass d of None \<Rightarrow> False | Some d' \<Rightarrow> superclass d' = Some c))"

lemma instanceof_simps [simp]:
  "instanceof (UnexpectedEof w g) UnexpectedEofError"
  "\<not> instanceof (UnexpectedEof w g) LimitError"
  "\<not> instanceof PlatformTypeError c"
  "\<not> instanceof (TransportFailure n) c"
  "instanceof (Thrown c k) c"
  "instanceof (Thrown LimitError k) UnexpectedEofError = False"
  by (simp_all add: instanceof_def)

lemma package_errors_share_a_base:
  "class_of e = Some c \<Longrightarrow> instanceof e TunnelFetchError"
  by (cases c) (auto simp: instanceof_def)

end
