(* ===== verification/Bytes.thy ===== *)
theory Bytes
  imports Errors
begin

text \<open>
  \<open>src/util/bytes.js\<close>: the buffered reader every protocol parser pulls from, and the pure
  helpers on octet strings. The underlying \<open>ReadableStream\<close> is the list of chunks it will still
  deliver and how it ends: cleanly, or with a rejection. How the stream cuts its data into chunks
  (and whether a BYOB view was used for the cut) is arbitrary, so every statement that does not
  mention \<open>source\<close> holds for all fragmentations.
\<close>

subsection \<open>Pure helpers\<close>

definition concat_bytes :: "bytes list \<Rightarrow> bytes" where
  "concat_bytes parts = List.concat parts"

text \<open>
  \<open>indexOf\<close>: the scan from position \<open>i\<close>. An empty needle has no first octet, so it never
  matches. The result \<open>-1\<close> is \<open>None\<close>.
\<close>

function index_scan :: "bytes \<Rightarrow> bytes \<Rightarrow> nat \<Rightarrow> nat option" where
  "index_scan h needle i =
     (if i + length needle \<le> length h \<and> i < length h
      then (if needle \<noteq> [] \<and> h ! i = needle ! 0
               \<and> list_all (\<lambda>j. h ! (i + j) = needle ! j) [1..<length needle]
            then Some i else index_scan h needle (Suc i))
      else None)"
  by pat_completeness auto
termination
  by (relation "measure (\<lambda>(h, needle, i). length h - i)") auto

declare index_scan.simps [simp del]

definition indexOf :: "bytes \<Rightarrow> bytes \<Rightarrow> nat \<Rightarrow> nat option" where
  "indexOf haystack needle from = index_scan haystack needle from"

fun equal_from :: "bytes \<Rightarrow> bytes \<Rightarrow> bool" where
  "equal_from (x # xs) (y # ys) = (if x \<noteq> y then False else equal_from xs ys)"
| "equal_from _ _ = True"

definition equal_bytes :: "bytes \<Rightarrow> bytes \<Rightarrow> bool" where
  "equal_bytes a b = (if length a \<noteq> length b then False else equal_from a b)"

text \<open>
  \<open>timingSafeEqual\<close> folds the XOR of every pair into one accumulator. \<open>native\<close> is the runtime's own
  comparison where it was detected.
\<close>

fun diff_loop :: "byte \<Rightarrow> bytes \<Rightarrow> bytes \<Rightarrow> byte" where
  "diff_loop d (x # xs) (y # ys) = diff_loop (d OR (x XOR y)) xs ys"
| "diff_loop d _ _ = d"

definition timingSafeEqual :: "(bytes \<Rightarrow> bytes \<Rightarrow> bool) option \<Rightarrow> bytes \<Rightarrow> bytes \<Rightarrow> bool" where
  "timingSafeEqual native a b =
     (if length a \<noteq> length b then False
      else case native of
             Some f \<Rightarrow> f a b
           | None \<Rightarrow> diff_loop 0 a b = 0)"

text \<open>Latin-1 decoding: one code unit per octet.\<close>

definition latin1 :: "bytes \<Rightarrow> jsstr" where
  "latin1 b = map unat b"

text \<open>The octets of a string of code points below 128, which is what \<open>utf8\<close> yields for one.\<close>

definition ascii_bytes :: "string \<Rightarrow> bytes" where
  "ascii_bytes s = map (\<lambda>c. word_of_nat (of_char c)) s"

text \<open>Big-endian writers.\<close>

definition u8 :: "nat \<Rightarrow> bytes" where
  "u8 n = [to_byte (to_i32 n AND 0xff)]"

definition u16 :: "nat \<Rightarrow> bytes" where
  "u16 n = [to_byte (drop_bit 8 (to_i32 n) AND 0xff), to_byte (to_i32 n AND 0xff)]"

definition u24 :: "nat \<Rightarrow> bytes" where
  "u24 n = [to_byte (drop_bit 16 (to_i32 n) AND 0xff), to_byte (drop_bit 8 (to_i32 n) AND 0xff),
            to_byte (to_i32 n AND 0xff)]"

definition u32 :: "nat \<Rightarrow> bytes" where
  "u32 n = [to_byte (drop_bit 24 (to_i32 n) AND 0xff), to_byte (drop_bit 16 (to_i32 n) AND 0xff),
            to_byte (drop_bit 8 (to_i32 n) AND 0xff), to_byte (to_i32 n AND 0xff)]"

text \<open>Big-endian readers at an offset.\<close>

definition readU16 :: "bytes \<Rightarrow> nat \<Rightarrow> nat" where
  "readU16 b o' = unat (push_bit 8 (octet_at b o') OR octet_at b (o' + 1))"

definition readU24 :: "bytes \<Rightarrow> nat \<Rightarrow> nat" where
  "readU24 b o' = unat (push_bit 16 (octet_at b o') OR push_bit 8 (octet_at b (o' + 1))
                        OR octet_at b (o' + 2))"

definition readU32 :: "bytes \<Rightarrow> nat \<Rightarrow> nat" where
  "readU32 b o' = unat (push_bit 24 (octet_at b o') OR push_bit 16 (octet_at b (o' + 1))
                        OR push_bit 8 (octet_at b (o' + 2)) OR octet_at b (o' + 3))"

subsection \<open>Lemmas on the helpers\<close>

definition matches_at :: "bytes \<Rightarrow> bytes \<Rightarrow> nat \<Rightarrow> bool" where
  "matches_at h needle i \<longleftrightarrow> i + length needle \<le> length h \<and> take (length needle) (drop i h) = needle"

lemma all_less_first:
  assumes "0 < n"
  shows "(\<forall>j < n. P j) \<longleftrightarrow> P 0 \<and> (\<forall>j \<in> {1..<n}. P (j :: nat))"
proof
  assume "\<forall>j < n. P j"
  with assms show "P 0 \<and> (\<forall>j \<in> {1..<n}. P j)" by simp
next
  assume r: "P 0 \<and> (\<forall>j \<in> {1..<n}. P j)"
  show "\<forall>j < n. P j"
  proof (intro allI impI)
    fix j assume "j < n"
    with r show "P j" by (cases j) auto
  qed
qed

lemma matches_at_step:
  assumes "needle \<noteq> []" and "i + length needle \<le> length h"
  shows "(h ! i = needle ! 0 \<and> list_all (\<lambda>j. h ! (i + j) = needle ! j) [1..<length needle])
         \<longleftrightarrow> matches_at h needle i"
proof -
  have "matches_at h needle i \<longleftrightarrow> (\<forall>j < length needle. h ! (i + j) = needle ! j)"
    using assms(2) list_eq_iff_nth_eq [of "take (length needle) (drop i h)" needle]
    by (simp add: matches_at_def min_absorb2)
  also have "\<dots> \<longleftrightarrow> h ! i = needle ! 0 \<and> (\<forall>j \<in> {1..<length needle}. h ! (i + j) = needle ! j)"
    using all_less_first [of "length needle" "\<lambda>j. h ! (i + j) = needle ! j"] assms(1)
    by (metis add_0_right length_greater_0_conv)
  finally show ?thesis by (simp add: list_all_iff)
qed

lemma no_match_beyond: "needle \<noteq> [] \<Longrightarrow> \<not> (i + length needle \<le> length h \<and> i < length h) \<Longrightarrow>
    i \<le> j \<Longrightarrow> \<not> matches_at h needle j"
  by (cases needle) (auto simp: matches_at_def)

lemma all_ge_step: "(\<forall>j. i \<le> j \<and> j < k \<longrightarrow> P j) \<longleftrightarrow> (i < k \<longrightarrow> P i) \<and> (\<forall>j. Suc i \<le> j \<and> j < k \<longrightarrow> P j)"
  by (metis Suc_le_eq le_less order_refl)

lemma index_scan_Some:
  "needle \<noteq> [] \<Longrightarrow> index_scan h needle i = Some k \<longleftrightarrow>
     i \<le> k \<and> matches_at h needle k \<and> (\<forall>j. i \<le> j \<and> j < k \<longrightarrow> \<not> matches_at h needle j)"
proof (induction h needle i rule: index_scan.induct)
  case (1 h needle i)
  show ?case
  proof (cases "i + length needle \<le> length h \<and> i < length h")
    case False
    with 1 show ?thesis by (subst index_scan.simps) (auto dest: no_match_beyond)
  next
    case True
    note step = matches_at_step [OF "1.prems" conjunct1 [OF True]]
    show ?thesis
    proof (cases "matches_at h needle i")
      case m: True
      then have "index_scan h needle i = Some i"
        using True step "1.prems" by (subst index_scan.simps) simp
      then show ?thesis using m by (auto simp: le_less)
    next
      case m: False
      then have "index_scan h needle i = index_scan h needle (Suc i)"
        using True step "1.prems" by (subst index_scan.simps) auto
      moreover have "index_scan h needle (Suc i) = Some k \<longleftrightarrow>
          Suc i \<le> k \<and> matches_at h needle k \<and> (\<forall>j. Suc i \<le> j \<and> j < k \<longrightarrow> \<not> matches_at h needle j)"
        using "1.IH" True m step "1.prems" by blast
      ultimately show ?thesis
        using m by (subst all_ge_step) (auto simp: Suc_le_eq le_less)
    qed
  qed
qed

lemma index_scan_None:
  "needle \<noteq> [] \<Longrightarrow> index_scan h needle i = None \<longleftrightarrow> (\<forall>j \<ge> i. \<not> matches_at h needle j)"
proof -
  assume n: "needle \<noteq> []"
  have "\<exists>k. index_scan h needle i = Some k" if "i \<le> j" "matches_at h needle j" for j
  proof -
    have "\<exists>k. (i \<le> k \<and> matches_at h needle k) \<and> (\<forall>m < k. \<not> (i \<le> m \<and> matches_at h needle m))"
      by (rule exists_least_iff [THEN iffD1]) (use that in blast)
    then show ?thesis using index_scan_Some [OF n, of h i] by blast
  qed
  then show ?thesis using index_scan_Some [OF n, of h i] by (metis not_None_eq)
qed

text \<open>Scanning may resume where a longer buffer could first contain a new match.\<close>

lemma indexOf_resume:
  assumes "needle \<noteq> []" and "\<forall>j. \<not> matches_at h needle j"
  shows "indexOf (h @ t) needle (Suc (length h) - length needle) = indexOf (h @ t) needle 0"
proof -
  have "\<not> matches_at (h @ t) needle j" if "j < Suc (length h) - length needle" for j
  proof -
    from that have "j + length needle \<le> length h" using assms(1) by (cases needle) auto
    with assms(2) show ?thesis by (simp add: matches_at_def)
  qed
  then have "index_scan (h @ t) needle (Suc (length h) - length needle) = Some k \<longleftrightarrow>
        index_scan (h @ t) needle 0 = Some k" for k
    by (simp add: index_scan_Some [OF assms(1)]) (metis not_le)
  then show ?thesis unfolding indexOf_def by (metis not_None_eq)
qed

lemma matches_at_append: "matches_at h needle k \<Longrightarrow> matches_at (h @ t) needle k"
  by (auto simp: matches_at_def)

lemma indexOf_append:
  assumes "needle \<noteq> []" and "indexOf h needle 0 = Some k"
  shows "indexOf (h @ t) needle 0 = Some k"
proof -
  have m: "matches_at h needle k" and least: "\<forall>j < k. \<not> matches_at h needle j"
    using assms by (auto simp: indexOf_def index_scan_Some)
  have "\<not> matches_at (h @ t) needle j" if "j < k" for j
    using that m least [rule_format, OF that] by (simp add: matches_at_def)
  with m show ?thesis
    by (simp add: indexOf_def index_scan_Some [OF assms(1)] matches_at_append)
qed

lemma indexOf_bound: "needle \<noteq> [] \<Longrightarrow> indexOf h needle i = Some k \<Longrightarrow> k + length needle \<le> length h"
  by (simp add: indexOf_def index_scan_Some matches_at_def)


lemma equal_bytes_iff: "equal_bytes a b \<longleftrightarrow> a = b"
proof -
  have "length a = length b \<Longrightarrow> equal_from a b \<longleftrightarrow> a = b"
    by (induction a b rule: list_induct2) auto
  then show ?thesis by (auto simp: equal_bytes_def)
qed

lemma byte_or_zero: "(x :: byte) OR y = 0 \<longleftrightarrow> x = 0 \<and> y = 0"
  by (metis and.right_idem bit.conj_disj_distrib2 or.right_neutral or_eq_0_iff)

lemma byte_xor_zero: "(x :: byte) XOR y = 0 \<longleftrightarrow> x = y"
  by (metis xor.assoc xor.left_neutral xor_self_eq)

lemma diff_loop_zero: "length a = length b \<Longrightarrow> diff_loop d a b = 0 \<longleftrightarrow> d = 0 \<and> a = b"
  by (induction a b arbitrary: d rule: list_induct2) (auto simp: byte_or_zero byte_xor_zero)

lemma length_latin1 [simp]: "length (latin1 b) = length b"
  by (simp add: latin1_def)

lemma latin1_append [simp]: "latin1 (a @ b) = latin1 a @ latin1 b"
  by (simp add: latin1_def)

lemma latin1_Nil [simp]: "latin1 [] = []"
  by (simp add: latin1_def)

lemma latin1_Cons [simp]: "latin1 (x # b) = unat x # latin1 b"
  by (simp add: latin1_def)

lemma latin1_inj: "latin1 a = latin1 b \<longleftrightarrow> a = b"
  unfolding latin1_def by (auto intro: inj_onI dest: map_injective [rotated] simp: inj_def)

lemma latin1_range: "list_all (\<lambda>u. u < 256) (latin1 b)"
  by (simp add: latin1_def list_all_iff unat_byte_less)

lemma length_u [simp]:
  "length (u8 n) = 1" "length (u16 n) = 2" "length (u24 n) = 3" "length (u32 n) = 4"
  by (simp_all add: u8_def u16_def u24_def u32_def)

lemma unat_and_255: "unat (w AND 0xff :: i32) = unat w mod 256"
proof -
  have "unat (w AND 0xff) = unat w AND 0xff" by (simp add: unsigned_and_eq)
  also have "\<dots> = unat w AND mask 8" by (simp add: mask_eq_exp_minus_1)
  also have "\<dots> = unat w mod 256" by (simp add: take_bit_eq_mask [symmetric] take_bit_eq_mod)
  finally show ?thesis .
qed

lemma unat_and_127: "unat (w AND 0x7f :: i32) = unat w mod 128"
proof -
  have "unat (w AND 0x7f) = unat w AND 0x7f" by (simp add: unsigned_and_eq)
  also have "\<dots> = unat w AND mask 7" by (simp add: mask_eq_exp_minus_1)
  also have "\<dots> = unat w mod 128" by (simp add: take_bit_eq_mask [symmetric] take_bit_eq_mod)
  finally show ?thesis .
qed

lemma unat_field [wire_simps]:
  "unat (to_byte (drop_bit k (to_i32 n) AND 0xff)) = n mod 2 ^ 32 div 2 ^ k mod 256"
  "unat (to_byte (to_i32 n AND 0xff)) = n mod 2 ^ 32 mod 256"
  by (simp_all only: unat_to_byte unat_and_255 unat_drop_bit_div unat_to_i32) simp_all


lemma unat_octet_shift:
  assumes "i < length b" and "k \<le> 24"
  shows "unat (push_bit k (octet_at b i)) = unat (b ! i) * 2 ^ k"
proof -
  have "unat (b ! i) \<le> 255" using unat_byte_less [of "b ! i"] by linarith
  then have "unat (b ! i) * 2 ^ k \<le> 255 * 2 ^ 24"
    using assms(2) by (intro mult_mono power_increasing) auto
  then have "unat (octet_at b i) * 2 ^ k < 2 ^ 32"
    using assms(1) by (simp add: unat_octet_at)
  from unat_push_bit_small [OF this] show ?thesis using assms(1) by (simp add: unat_octet_at)
qed

lemmas or_fields = shifted_or_nat [of _ 8, simplified] shifted_or_nat [of _ 16, simplified]
  shifted_or_nat [of _ 24, simplified] unat_byte_less byte_pair_less byte_triple_less

lemma readU16_eq [wire_simps]:
  assumes "o' + 1 < length b"
  shows "readU16 b o' = unat (b ! o') * 256 + unat (b ! (o' + 1))"
proof -
  have "readU16 b o' = unat (b ! o') * 256 OR unat (b ! (o' + 1))"
    using assms unat_octet_shift [of o' b 8] by (simp only: readU16_def unsigned_or_eq) (simp add: unat_octet_at)
  then show ?thesis by (simp add: or_fields)
qed

lemma readU24_eq [wire_simps]:
  assumes "o' + 2 < length b"
  shows "readU24 b o' = unat (b ! o') * 65536 + (unat (b ! (o' + 1)) * 256 + unat (b ! (o' + 2)))"
proof -
  have "readU24 b o' = unat (b ! o') * 65536 OR (unat (b ! (o' + 1)) * 256 OR unat (b ! (o' + 2)))"
    using assms unat_octet_shift [of o' b 16] unat_octet_shift [of "o' + 1" b 8]
    by (simp only: readU24_def unsigned_or_eq or.assoc) (simp add: unat_octet_at)
  then show ?thesis by (simp add: or_fields)
qed

lemma readU32_eq [wire_simps]:
  assumes "o' + 3 < length b"
  shows "readU32 b o' = unat (b ! o') * 16777216 + (unat (b ! (o' + 1)) * 65536
           + (unat (b ! (o' + 2)) * 256 + unat (b ! (o' + 3))))"
proof -
  have "readU32 b o' = unat (b ! o') * 16777216 OR (unat (b ! (o' + 1)) * 65536 OR
          (unat (b ! (o' + 2)) * 256 OR unat (b ! (o' + 3))))"
    using assms unat_octet_shift [of o' b 24] unat_octet_shift [of "o' + 1" b 16]
      unat_octet_shift [of "o' + 2" b 8]
    by (simp only: readU32_def unsigned_or_eq or.assoc) (simp add: unat_octet_at)
  then show ?thesis by (simp add: or_fields)
qed

lemma u8_nth: "unat (u8 n ! 0) = n mod 256"
  by (simp add: u8_def unat_field mod_mod_cancel)

lemma readU16_u16 [wire_simps]: "readU16 (u16 n @ t) 0 = n mod 65536"
proof -
  have "readU16 (u16 n @ t) 0 = n mod 4294967296 div 256 mod 256 * 256 + n mod 4294967296 mod 256"
    by (simp add: readU16_eq u16_def unat_field)
  then show ?thesis by (simp only: nat_fields_16) (simp add: mod_mod_cancel)
qed

lemma readU24_u24 [wire_simps]: "readU24 (u24 n @ t) 0 = n mod 16777216"
proof -
  have "readU24 (u24 n @ t) 0 = n mod 4294967296 div 65536 mod 256 * 65536
          + (n mod 4294967296 div 256 mod 256 * 256 + n mod 4294967296 mod 256)"
    by (simp add: readU24_eq u24_def unat_field)
  then show ?thesis by (simp only: nat_fields_16 nat_fields_24) (simp add: mod_mod_cancel)
qed

lemma readU32_u32 [wire_simps]: "readU32 (u32 n @ t) 0 = n mod 4294967296"
proof -
  have "readU32 (u32 n @ t) 0 = n mod 4294967296 div 16777216 mod 256 * 16777216
          + (n mod 4294967296 div 65536 mod 256 * 65536
             + (n mod 4294967296 div 256 mod 256 * 256 + n mod 4294967296 mod 256))"
    by (simp add: readU32_eq u32_def unat_field)
  then show ?thesis by (simp only: nat_fields_16 nat_fields_24 nat_fields_32) simp
qed

end
