(* ===== verification/Readers.thy ===== *)
theory Readers
  imports Bytes
begin

text \<open>
  The interface between the protocol parsers and the buffered reader. A parser receives the reader
  as an argument and calls \<open>readExactly\<close>, \<open>readUntil\<close>, \<open>readSome\<close> and \<open>unshift\<close> on it, so it is
  modelled over a record of these operations. \<open>wire_ops\<close> is the reader of a caller that already
  holds all the octets the stream will deliver; the locale \<open>byte_source\<close> states what a real
  reader promises relative to it, and is closed under sequencing, so that every parser built
  from the operations inherits the promise.
\<close>

text \<open>How a stream ends: cleanly, or with a rejection carrying an opaque reason.\<close>

datatype source_end = CleanEnd | Fails nat

record 's reader_ops =
  rd_exactly :: "int \<Rightarrow> ('s, tf_error, bytes) action"
  rd_until :: "bytes \<Rightarrow> nat \<Rightarrow> ('s, tf_error, bytes) action"
  rd_some :: "nat \<Rightarrow> ('s, tf_error, bytes option) action"
  rd_unshift :: "bytes \<Rightarrow> 's \<Rightarrow> 's"

definition max_safe_integer :: nat where
  "max_safe_integer = 9007199254740991"

subsection \<open>The whole-input reader\<close>

type_synonym wire = "bytes \<times> source_end"

definition end_error :: "int \<Rightarrow> nat \<Rightarrow> source_end \<Rightarrow> tf_error" where
  "end_error wanted got e = (case e of CleanEnd \<Rightarrow> UnexpectedEof wanted got | Fails n \<Rightarrow> TransportFailure n)"

definition wire_exactly :: "int \<Rightarrow> (wire, tf_error, bytes) action" where
  "wire_exactly n w =
     (if n < 0 \<or> n > int max_safe_integer then (Inl (Thrown TunnelFetchError (Config CONFIG_INVALID)), w)
      else if nat n \<le> length (fst w) then (Inr (take (nat n) (fst w)), (drop (nat n) (fst w), snd w))
      else (Inl (end_error n (length (fst w)) (snd w)), w))"

definition wire_until :: "bytes \<Rightarrow> nat \<Rightarrow> (wire, tf_error, bytes) action" where
  "wire_until needle maxBytes w =
     (if needle = [] then (Inl (Thrown TunnelFetchError (Config CONFIG_INVALID)), w)
      else case indexOf (fst w) needle 0 of
             Some idx \<Rightarrow>
               (let e = idx + length needle
                in if e > maxBytes then (Inl (Thrown LimitError (Limit LIMIT_HEADER)), w)
                   else (Inr (take e (fst w)), (drop e (fst w), snd w)))
           | None \<Rightarrow>
               if length (fst w) > maxBytes then (Inl (Thrown LimitError (Limit LIMIT_HEADER)), w)
               else (Inl (end_error (-1) (length (fst w)) (snd w)), w))"

definition wire_some :: "nat \<Rightarrow> (wire, tf_error, bytes option) action" where
  "wire_some n w =
     (if fst w = [] then
        (case snd w of CleanEnd \<Rightarrow> (Inr None, w) | Fails k \<Rightarrow> (Inl (TransportFailure k), w))
      else (Inr (Some (take n (fst w))), (drop n (fst w), snd w)))"

definition wire_ops :: "wire reader_ops" where
  "wire_ops = \<lparr> rd_exactly = wire_exactly, rd_until = wire_until, rd_some = wire_some,
                rd_unshift = (\<lambda>b w. (b @ fst w, snd w)) \<rparr>"

lemma wire_ops_sel [simp]:
  "rd_exactly wire_ops = wire_exactly" "rd_until wire_ops = wire_until"
  "rd_some wire_ops = wire_some" "rd_unshift wire_ops = (\<lambda>b w. (b @ fst w, snd w))"
  by (simp_all add: wire_ops_def)

lemma wire_exactly_append [simp]:
  "length b = nat n \<Longrightarrow> 0 \<le> n \<Longrightarrow> n \<le> int max_safe_integer \<Longrightarrow>
   wire_exactly n (b @ t, e) = (Inr b, (t, e))"
  by (simp add: wire_exactly_def)

lemma wire_exactly_length:
  "wire_exactly n w = (Inr b, w') \<Longrightarrow> length b = nat n \<and> fst w = b @ fst w' \<and> snd w' = snd w"
  by (auto simp: wire_exactly_def split: if_splits)

lemma wire_until_length:
  assumes "wire_until d m w = (Inr b, w')"
  shows "length b \<le> m \<and> fst w = b @ fst w' \<and> snd w' = snd w \<and> b \<noteq> []
     \<and> length (fst w') < length (fst w)"
proof -
  from assms obtain k where d: "d \<noteq> []" and k: "indexOf (fst w) d 0 = Some k"
    and m: "k + length d \<le> m"
    and b: "b = take (k + length d) (fst w)" and w': "w' = (drop (k + length d) (fst w), snd w)"
    by (auto simp: wire_until_def Let_def split: if_splits option.splits)
  have le: "k + length d \<le> length (fst w)" by (rule indexOf_bound [OF d k])
  moreover have "0 < length d" using d by simp
  ultimately have "length (fst w) - (k + length d) < length (fst w)" by arith
  then show ?thesis using m b w' le d by auto
qed

subsection \<open>What a reader promises\<close>

text \<open>
  \<open>simulates ok view m m'\<close>: from every well-formed state, \<open>m\<close> gives the result that \<open>m'\<close> gives on
  the octets still to come, and leaves the octets that \<open>m'\<close> leaves.
\<close>

definition simulates ::
  "('s \<Rightarrow> bool) \<Rightarrow> ('s \<Rightarrow> 't) \<Rightarrow> ('s, tf_error, 'a) action \<Rightarrow> ('t, tf_error, 'a) action \<Rightarrow> bool" where
  "simulates ok view m m' \<longleftrightarrow>
     (\<forall>s. ok s \<longrightarrow> ok (snd (m s)) \<and> fst (m s) = fst (m' (view s)) \<and> view (snd (m s)) = snd (m' (view s)))"

lemma simulatesD:
  "simulates ok view m m' \<Longrightarrow> ok s \<Longrightarrow> m s = (r, s') \<Longrightarrow> ok s' \<and> m' (view s) = (r, view s')"
  unfolding simulates_def by (metis fst_conv snd_conv prod.collapse)

lemma simulatesI:
  "(\<And>s r s'. ok s \<Longrightarrow> m s = (r, s') \<Longrightarrow> ok s' \<and> m' (view s) = (r, view s')) \<Longrightarrow> simulates ok view m m'"
  unfolding simulates_def by (metis fst_conv snd_conv prod.collapse)

lemma simulates_return: "simulates ok view (returnA x) (returnA x)"
  by (rule simulatesI) auto

lemma simulates_throw: "simulates ok view (throwA e) (throwA e)"
  by (rule simulatesI) auto

lemma simulates_lift: "simulates ok view (liftA r) (liftA r)"
  by (rule simulatesI) auto

lemma simulates_bind:
  assumes m: "simulates ok view m m'" and f: "\<And>x. simulates ok view (f x) (f' x)"
  shows "simulates ok view (bindA m f) (bindA m' f')"
proof (rule simulatesI)
  fix s r s' assume ok: "ok s" and run: "bindA m f s = (r, s')"
  obtain r1 s1 where m1: "m s = (r1, s1)" by (cases "m s")
  have s1: "ok s1" "m' (view s) = (r1, view s1)" using simulatesD [OF m ok m1] by auto
  show "ok s' \<and> bindA m' f' (view s) = (r, view s')"
  proof (cases r1)
    case (Inl e)
    with m1 s1 run show ?thesis by auto
  next
    case (Inr x)
    with m1 run have "f x s1 = (r, s')" by simp
    from simulatesD [OF f s1(1) this] Inr s1(2) show ?thesis by simp
  qed
qed

lemma simulates_catch:
  assumes m: "simulates ok view m m'" and h: "\<And>e. simulates ok view (h e) (h' e)"
  shows "simulates ok view (catchA m h) (catchA m' h')"
proof (rule simulatesI)
  fix s r s' assume ok: "ok s" and run: "catchA m h s = (r, s')"
  obtain r1 s1 where m1: "m s = (r1, s1)" by (cases "m s")
  have s1: "ok s1" "m' (view s) = (r1, view s1)" using simulatesD [OF m ok m1] by auto
  show "ok s' \<and> catchA m' h' (view s) = (r, view s')"
  proof (cases r1)
    case (Inr x)
    with m1 s1 run show ?thesis by auto
  next
    case (Inl e)
    with m1 run have "h e s1 = (r, s')" by simp
    from simulatesD [OF h s1(1) this] Inl s1(2) show ?thesis by simp
  qed
qed

lemma simulates_if:
  "simulates ok view m m' \<Longrightarrow> simulates ok view n n' \<Longrightarrow> simulates ok view (if b then m else n) (if b then m' else n')"
  by simp

subsection \<open>The interface\<close>

locale byte_source =
  fixes R :: "'s reader_ops"
    and ok :: "'s \<Rightarrow> bool"
    and view :: "'s \<Rightarrow> wire"
  assumes exactly_law: "simulates ok view (rd_exactly R k) (rd_exactly wire_ops k)"
    and until_law: "simulates ok view (rd_until R d m) (rd_until wire_ops d m)"
    and some_end_law: "ok s \<Longrightarrow> fst (view s) = [] \<Longrightarrow> rd_some R n s = (r, s') \<Longrightarrow>
           ok s' \<and> wire_some n (view s) = (r, view s')"
    and some_data_law: "ok s \<Longrightarrow> fst (view s) \<noteq> [] \<Longrightarrow>
           \<exists>p s'. rd_some R n s = (Inr (Some p), s') \<and> ok s' \<and> length p \<le> n \<and> (0 < n \<longrightarrow> p \<noteq> [])
             \<and> fst (view s) = p @ fst (view s') \<and> snd (view s') = snd (view s)"
    and unshift_law: "ok s \<Longrightarrow> ok (rd_unshift R b s) \<and> view (rd_unshift R b s) = (b @ fst (view s), snd (view s))"
begin

abbreviation sim :: "('s, tf_error, 'a) action \<Rightarrow> (wire, tf_error, 'a) action \<Rightarrow> bool" where
  "sim \<equiv> simulates ok view"

lemmas sim_return [refine_intros] = simulates_return [of ok view]
lemmas sim_throw [refine_intros] = simulates_throw [of ok view]
lemmas sim_lift [refine_intros] = simulates_lift [of ok view]
lemmas sim_bind [refine_intros] = simulates_bind [of ok view]
lemmas sim_catch [refine_intros] = simulates_catch [of ok view]
lemmas sim_if [refine_intros] = simulates_if [of ok view]

lemma sim_exactly [refine_intros]: "sim (rd_exactly R n) (wire_exactly n)"
  using exactly_law by simp

lemma sim_until [refine_intros]: "sim (rd_until R d m) (wire_until d m)"
  using until_law by simp

lemma sim_eq_result:
  assumes "sim m m'" "ok s" "ok t" "view s = view t"
  shows "fst (m s) = fst (m t) \<and> view (snd (m s)) = view (snd (m t))"
  using assms unfolding simulates_def by simp

end

end
