(* ===== verification/ByteReader.thy ===== *)
theory ByteReader
  imports Readers
begin

text \<open>
  The \<open>ByteReader\<close> class of \<open>src/util/bytes.js\<close>. Its state is the list of buffered chunks with an
  offset into the first one, the count of buffered octets and the end-of-stream flag, beside the
  stream it pulls from. The class states one invariant that matters: no result may depend on how
  the stream cuts its data. Here that is the interpretation \<open>br: byte_source\<close>.
\<close>

record byte_reader =
  chunks :: "bytes list"
  head :: nat
  len :: nat
  eof :: bool
  source :: "bytes list"
  source_end :: source_end

definition new_ByteReader :: "bytes list \<Rightarrow> source_end \<Rightarrow> byte_reader" where
  "new_ByteReader deliveries e =
     \<lparr> chunks = [], head = 0, len = 0, eof = False, source = deliveries, source_end = e \<rparr>"

definition atEof :: "byte_reader \<Rightarrow> bool" where
  "atEof r \<longleftrightarrow> eof r \<and> len r = 0"

definition unshift :: "bytes \<Rightarrow> byte_reader \<Rightarrow> byte_reader" where
  "unshift b r =
     (if b = [] then r
      else
        let r1 = (if head r > 0
                  then r\<lparr>chunks := (case chunks r of [] \<Rightarrow> [] | c # cs \<Rightarrow> drop (head r) c # cs), head := 0\<rparr>
                  else r)
        in r1\<lparr>chunks := b # chunks r1, len := len r1 + length b\<rparr>)"

text \<open>\<open>_pull\<close>: a zero-length chunk carries no data, so the read is repeated.\<close>

fun pull_from :: "bytes list \<Rightarrow> (byte_reader, tf_error, bool) action" where
  "pull_from [] r =
     (case source_end r of
        CleanEnd \<Rightarrow> (Inr False, r\<lparr>eof := True, source := []\<rparr>)
      | Fails n \<Rightarrow> (Inl (TransportFailure n), r\<lparr>source := []\<rparr>))"
| "pull_from (v # vs) r =
     (if length v > 0
      then (Inr True, r\<lparr>chunks := chunks r @ [v], len := len r + length v, source := vs\<rparr>)
      else pull_from vs r)"

definition pull :: "(byte_reader, tf_error, bool) action" where
  "pull r = (if eof r then (Inr False, r) else pull_from (source r) r)"

text \<open>
  \<open>_take\<close>. The copying loop consumes chunk after chunk; it is entered only when enough octets are
  buffered, so the chunk list does not run out.
\<close>

fun take_loop :: "bytes list \<Rightarrow> nat \<Rightarrow> nat \<Rightarrow> bytes \<times> bytes list \<times> nat" where
  "take_loop [] h n = ([], [], h)"
| "take_loop (c # cs) h n =
     (if n = 0 then ([], c # cs, h)
      else let t = min (length c - h) n
           in if h + t = length c
              then (case take_loop cs 0 (n - t) of (rest, cs', h') \<Rightarrow> (take t (drop h c) @ rest, cs', h'))
              else (take t (drop h c), c # cs, h + t))"

definition take_n :: "nat \<Rightarrow> byte_reader \<Rightarrow> bytes \<times> byte_reader" where
  "take_n n r =
     (if n = 0 then ([], r)
      else case chunks r of
             [] \<Rightarrow> ([], r)
           | first # rest \<Rightarrow>
               let avail = length first - head r
               in if avail \<ge> n
                  then (take n (drop (head r) first),
                        (let h = head r + n
                         in if h = length first then r\<lparr>chunks := rest, head := 0, len := len r - n\<rparr>
                            else r\<lparr>head := h, len := len r - n\<rparr>))
                  else (case take_loop (chunks r) (head r) n of
                          (out, cs, h) \<Rightarrow> (out, r\<lparr>chunks := cs, head := h, len := len r - n\<rparr>)))"

lemma pull_from_source:
  "pull_from vs r = (Inr True, r') \<Longrightarrow> length (source r') < length vs"
  by (induction vs r rule: pull_from.induct) (auto split: source_end.splits if_splits)

text \<open>\<open>while (this._len < n) if (!(await this._pull())) throw new UnexpectedEofError(n, this._len)\<close>.\<close>

function fill :: "nat \<Rightarrow> (byte_reader, tf_error, unit) action" where
  "fill n r =
     (if len r < n then
        (case pull r of
           (Inl e, r') \<Rightarrow> (Inl e, r')
         | (Inr False, r') \<Rightarrow> (Inl (UnexpectedEof (int n) (len r')), r')
         | (Inr True, r') \<Rightarrow> fill n r')
      else (Inr (), r))"
  by pat_completeness auto
termination
  by (relation "measure (\<lambda>(n, r). length (source r))")
    (auto simp: pull_def dest!: sym [of "(_, _)"] pull_from_source split: if_splits)

declare fill.simps [simp del]

definition readExactly :: "int \<Rightarrow> (byte_reader, tf_error, bytes) action" where
  "readExactly n r =
     (if n < 0 \<or> n > int max_safe_integer
      then (Inl (Thrown TunnelFetchError (Config CONFIG_INVALID)), r)
      else (case fill (nat n) r of
              (Inl e, r') \<Rightarrow> (Inl e, r')
            | (Inr _, r') \<Rightarrow> (case take_n (nat n) r' of (b, r'') \<Rightarrow> (Inr b, r''))))"

function readSome :: "nat \<Rightarrow> (byte_reader, tf_error, bytes option) action" where
  "readSome n r =
     (if len r = 0 then
        (case pull r of
           (Inl e, r') \<Rightarrow> (Inl e, r')
         | (Inr False, r') \<Rightarrow> (Inr None, r')
         | (Inr True, r') \<Rightarrow> readSome n r')
      else (case take_n (min n (len r)) r of (b, r') \<Rightarrow> (Inr (Some b), r')))"
  by pat_completeness auto
termination
  by (relation "measure (\<lambda>(n, r). length (source r))")
    (auto simp: pull_def dest!: sym [of "(_, _)"] pull_from_source split: if_splits)

declare readSome.simps [simp del]

text \<open>\<open>readUntil\<close>: compaction to one chunk, then a scan resumed near the end of the last scan.\<close>

definition compact :: "byte_reader \<Rightarrow> byte_reader" where
  "compact r =
     (if length (chunks r) > 1 \<or> head r > 0
      then (case take_n (len r) r of
              (b, r') \<Rightarrow> r'\<lparr>chunks := (if b = [] then [] else [b]), head := 0, len := length b\<rparr>)
      else r)"

lemma pull_source: "pull r = (Inr True, r') \<Longrightarrow> length (source r') < length (source r)"
  by (auto simp: pull_def split: if_splits dest: pull_from_source)

lemma source_take_n [simp]: "source (snd (take_n n r)) = source r"
  by (auto simp: take_n_def Let_def split: list.splits prod.splits)

lemma source_compact [simp]: "source (compact r) = source r"
  using source_take_n [of "len r" r] by (cases "take_n (len r) r") (auto simp: compact_def)

function until_loop :: "bytes \<Rightarrow> nat \<Rightarrow> nat \<Rightarrow> (byte_reader, tf_error, bytes) action" where
  "until_loop needle maxBytes scanned r =
     (let r1 = compact r;
          buf = (case chunks r1 of [] \<Rightarrow> [] | c # _ \<Rightarrow> if len r1 = 0 then [] else c)
      in case indexOf buf needle (scanned + 1 - length needle) of
           Some idx \<Rightarrow>
             (let e = idx + length needle
              in if e > maxBytes then (Inl (Thrown LimitError (Limit LIMIT_HEADER)), r1)
                 else (case take_n e r1 of (b, r2) \<Rightarrow> (Inr b, r2)))
         | None \<Rightarrow>
             (if length buf > maxBytes then (Inl (Thrown LimitError (Limit LIMIT_HEADER)), r1)
              else case pull r1 of
                     (Inl e, r2) \<Rightarrow> (Inl e, r2)
                   | (Inr False, r2) \<Rightarrow> (Inl (UnexpectedEof (-1) (length buf)), r2)
                   | (Inr True, r2) \<Rightarrow> until_loop needle maxBytes (length buf) r2))"
  by pat_completeness auto
termination
proof (relation "measure (\<lambda>(d, m, k, r). length (source r))", goal_cases)
  case 1
  show ?case by simp
next
  case (2 needle maxBytes scanned r r1 buf x r2 b)
  then have "pull (compact r) = (Inr True, r2)" by (metis (full_types) prod.collapse)
  from pull_source [OF this] show ?case by simp
qed

declare until_loop.simps [simp del]

definition readUntil :: "bytes \<Rightarrow> nat \<Rightarrow> (byte_reader, tf_error, bytes) action" where
  "readUntil needle maxBytes r =
     (if length needle = 0 then (Inl (Thrown TunnelFetchError (Config CONFIG_INVALID)), r)
      else until_loop needle maxBytes 0 r)"


text \<open>
  \<open>readToEnd\<close>. The loop ends because each turn consumes an octet; the fuel counts turns and
  \<open>readToEnd_total\<close> shows that one more turn than there are octets is enough. \<open>Infinity\<close> is \<open>None\<close>.
\<close>

fun to_end_loop :: "nat \<Rightarrow> nat option \<Rightarrow> bytes list \<Rightarrow> nat \<Rightarrow> byte_reader \<Rightarrow>
    ((tf_error + bytes) \<times> byte_reader) option" where
  "to_end_loop 0 maxBytes parts tot r = None"
| "to_end_loop (Suc fuel) maxBytes parts tot r =
     (case readSome 65536 r of
        (Inl e, r') \<Rightarrow> Some (Inl e, r')
      | (Inr None, r') \<Rightarrow> Some (Inr (concat_bytes parts), r')
      | (Inr (Some c), r') \<Rightarrow>
          (if (case maxBytes of None \<Rightarrow> False | Some m \<Rightarrow> tot + length c > m)
           then Some (Inl (Thrown LimitError (Limit LIMIT_BODY)), r')
           else to_end_loop fuel maxBytes (parts @ [c]) (tot + length c) r'))"

definition readToEnd :: "nat option \<Rightarrow> byte_reader \<Rightarrow> ((tf_error + bytes) \<times> byte_reader) option" where
  "readToEnd maxBytes r =
     to_end_loop (Suc (len r + length (concat (source r)))) maxBytes [] 0 r"

subsection \<open>Invariant and abstraction\<close>

definition buffered :: "byte_reader \<Rightarrow> bytes" where
  "buffered r = drop (head r) (concat (chunks r))"

definition chunks_ok :: "bytes list \<Rightarrow> nat \<Rightarrow> bool" where
  "chunks_ok cs h \<longleftrightarrow> (\<forall>c \<in> set cs. c \<noteq> []) \<and> (case cs of [] \<Rightarrow> h = 0 | c # _ \<Rightarrow> h < length c)"

definition reader_ok :: "byte_reader \<Rightarrow> bool" where
  "reader_ok r \<longleftrightarrow> chunks_ok (chunks r) (head r) \<and> len r = length (buffered r)
     \<and> (eof r \<longrightarrow> source r = [] \<and> source_end r = CleanEnd)"

definition pending :: "byte_reader \<Rightarrow> bytes" where
  "pending r = concat (source r)"

definition view :: "byte_reader \<Rightarrow> wire" where
  "view r = (buffered r @ pending r, source_end r)"

lemma pending_update [simp]:
  "pending (r\<lparr>chunks := cs\<rparr>) = pending r" "pending (r\<lparr>head := h\<rparr>) = pending r"
  "pending (r\<lparr>len := n\<rparr>) = pending r"
  by (simp_all add: pending_def)

lemma reader_ok_new: "reader_ok (new_ByteReader deliveries e)"
  by (simp add: reader_ok_def new_ByteReader_def chunks_ok_def buffered_def)

lemma view_new: "view (new_ByteReader deliveries e) = (concat deliveries, e)"
  by (simp add: view_def new_ByteReader_def buffered_def pending_def)

lemma take_loop_spec:
  "chunks_ok cs h \<Longrightarrow> n \<le> length (drop h (concat cs)) \<Longrightarrow> take_loop cs h n = (out, cs', h') \<Longrightarrow>
   out = take n (drop h (concat cs)) \<and> drop h' (concat cs') = drop n (drop h (concat cs)) \<and> chunks_ok cs' h'"
proof (induction cs h n arbitrary: out cs' h' rule: take_loop.induct)
  case (1 h n)
  then show ?case by (auto simp: chunks_ok_def)
next
  case (2 c cs h n)
  have h: "h < length c" and ne: "\<forall>c \<in> set cs. c \<noteq> []" using "2.prems"(1) by (auto simp: chunks_ok_def)
  show ?case
  proof (cases "n = 0")
    case True
    with "2.prems" show ?thesis by auto
  next
    case n: False
    define t where "t = min (length c - h) n"
    show ?thesis
    proof (cases "h + t = length c")
      case True
      obtain rest cs1 h1 where l: "take_loop cs 0 (n - t) = (rest, cs1, h1)" by (cases "take_loop cs 0 (n - t)")
      have "chunks_ok cs 0" using ne by (auto simp: chunks_ok_def split: list.splits)
      moreover have "n - t \<le> length (drop 0 (concat cs))" using "2.prems"(2) h True by auto
      ultimately have "rest = take (n - t) (concat cs) \<and> drop h1 (concat cs1) = drop (n - t) (concat cs)
          \<and> chunks_ok cs1 h1"
        using "2.IH" [OF n t_def True _ _ l] by simp
      with "2.prems"(3) n True l h t_def show ?thesis by (auto simp: Let_def take_add)
    next
      case False
      with h t_def have "t = n" "h + n < length c" by auto
      with "2.prems"(3) n False h ne t_def show ?thesis
        by (auto simp: Let_def chunks_ok_def add.commute)
    qed
  qed
qed

lemma take_n_spec:
  assumes "reader_ok r" and "n \<le> len r" and "take_n n r = (b, r')"
  shows "b = take n (buffered r) \<and> reader_ok r' \<and> buffered r' = drop n (buffered r)
     \<and> source r' = source r \<and> source_end r' = source_end r"
proof (cases "n = 0")
  case True
  with assms show ?thesis by (simp add: take_n_def)
next
  case n: False
  then obtain first rest where cs: "chunks r = first # rest"
    using assms(1,2) by (cases "chunks r") (auto simp: reader_ok_def buffered_def)
  have h: "head r < length first" and ne: "\<forall>c \<in> set rest. c \<noteq> []"
    using assms(1) cs by (auto simp: reader_ok_def chunks_ok_def)
  show ?thesis
  proof (cases "length first - head r \<ge> n")
    case True
    have buf: "buffered r = drop (head r) first @ concat rest"
      using cs h by (simp add: buffered_def)
    have b: "b = take n (drop (head r) first)"
      using assms(3) n cs True by (simp add: take_n_def Let_def)
    have r': "r' = (if head r + n = length first then r\<lparr>chunks := rest, head := 0, len := len r - n\<rparr>
                    else r\<lparr>head := head r + n, len := len r - n\<rparr>)"
      using assms(3) n cs True by (simp add: take_n_def Let_def)
    show ?thesis
    proof (cases "head r + n = length first")
      case eq: True
      then have "chunks_ok rest 0" using ne by (auto simp: chunks_ok_def split: list.splits)
      then show ?thesis using assms(1) eq b r' buf True cs by (auto simp: reader_ok_def buffered_def)
    next
      case lt: False
      then have "chunks_ok (first # rest) (head r + n)"
        using ne h True cs assms(1) by (auto simp: chunks_ok_def reader_ok_def)
      then show ?thesis using assms(1) lt b r' buf True h cs
        by (auto simp: reader_ok_def buffered_def add.commute)
    qed
  next
    case False
    obtain out cs' h' where l: "take_loop (chunks r) (head r) n = (out, cs', h')"
      by (cases "take_loop (chunks r) (head r) n")
    have "out = take n (buffered r) \<and> drop h' (concat cs') = drop n (buffered r) \<and> chunks_ok cs' h'"
      using take_loop_spec [OF _ _ l] assms(1,2) unfolding reader_ok_def buffered_def by simp
    moreover have "b = out" "r' = r\<lparr>chunks := cs', head := h', len := len r - n\<rparr>"
      using assms(3) n cs False l by (simp_all add: take_n_def Let_def del: take_loop.simps)
    moreover from calculation have "buffered r' = drop n (buffered r)" by (simp add: buffered_def)
    ultimately show ?thesis using assms(1) by (simp add: reader_ok_def)
  qed
qed

lemma pull_from_spec:
  "reader_ok r \<Longrightarrow> \<not> eof r \<Longrightarrow> pull_from vs (r\<lparr>source := vs0\<rparr>) = (res, r') \<Longrightarrow>
   reader_ok (r\<lparr>source := vs\<rparr>) \<Longrightarrow>
   reader_ok r' \<and> buffered r' @ concat (source r') = buffered r @ concat vs \<and> source_end r' = source_end r
   \<and> (case res of Inl e \<Rightarrow> concat vs = [] \<and> buffered r' = buffered r \<and> (\<exists>n. source_end r = Fails n \<and> e = TransportFailure n)
      | Inr False \<Rightarrow> concat vs = [] \<and> buffered r' = buffered r \<and> source_end r = CleanEnd
      | Inr True \<Rightarrow> (\<exists>t. t \<noteq> [] \<and> buffered r' = buffered r @ t))"
proof (induction vs "r\<lparr>source := vs0\<rparr>" rule: pull_from.induct)
  case 1
  then show ?case
    by (auto simp: reader_ok_def buffered_def split: source_end.splits)
next
  case (2 v vs)
  show ?case
  proof (cases "length v > 0")
    case True
    with 2 show ?thesis
      by (auto simp: reader_ok_def buffered_def chunks_ok_def split: list.splits)
  next
    case False
    then have eq: "concat (v # vs) = concat vs" by simp
    have "reader_ok (r\<lparr>source := vs\<rparr>)" using "2.prems"(1,2) by (simp add: reader_ok_def buffered_def)
    moreover have "pull_from vs (r\<lparr>source := vs0\<rparr>) = (res, r')" using "2.prems"(3) False by simp
    ultimately show ?thesis using "2.hyps" [OF False] "2.prems"(1,2) unfolding eq by blast
  qed
qed


lemma pull_spec:
  assumes "reader_ok r" and "pull r = (res, r')"
  shows "reader_ok r' \<and> view r' = view r
     \<and> (case res of Inl e \<Rightarrow> pending r = [] \<and> buffered r' = buffered r
                       \<and> (\<exists>n. source_end r = Fails n \<and> e = TransportFailure n)
        | Inr False \<Rightarrow> pending r = [] \<and> buffered r' = buffered r \<and> source_end r = CleanEnd
        | Inr True \<Rightarrow> (\<exists>t. t \<noteq> [] \<and> buffered r' = buffered r @ t))"
proof (cases "eof r")
  case True
  with assms show ?thesis by (auto simp: pull_def reader_ok_def pending_def)
next
  case False
  have "pull_from (source r) (r\<lparr>source := source r\<rparr>) = (res, r')"
    using assms(2) False by (simp add: pull_def)
  moreover have "reader_ok (r\<lparr>source := source r\<rparr>)" using assms(1) by simp
  ultimately show ?thesis
    using pull_from_spec [OF assms(1) False, of "source r" "source r" res r']
    unfolding view_def pending_def by auto
qed

lemma fill_spec:
  "reader_ok r \<Longrightarrow> fill n r = (res, r') \<Longrightarrow>
   reader_ok r' \<and> view r' = view r
   \<and> res = (if n \<le> length (fst (view r)) then Inr () else Inl (end_error (int n) (length (fst (view r))) (snd (view r))))
   \<and> (res = Inr () \<longrightarrow> n \<le> len r')"
proof (induction n r arbitrary: res r' rule: fill.induct)
  case (1 n r)
  show ?case
  proof (cases "len r < n")
    case False
    with "1.prems" show ?thesis
      by (subst (asm) fill.simps) (auto simp: reader_ok_def view_def)
  next
    case True
    obtain p r1 where p: "pull r = (p, r1)" by (cases "pull r")
    note ps = pull_spec [OF "1.prems"(1) p]
    have lens: "len r = length (buffered r)" "len r1 = length (buffered r1)"
      using "1.prems"(1) ps by (auto simp: reader_ok_def)
    consider (e) e where "p = Inl e" | (f) "p = Inr False" | (t) "p = Inr True"
      by (cases p) auto
    then show ?thesis
    proof cases
      case t
      then have "fill n r1 = (res, r')" using "1.prems"(2) True p by (subst (asm) fill.simps) simp
      with "1.IH" [OF True p [symmetric] t _ ] ps show ?thesis by simp
    next
      case e
      then have "res = Inl e" "r' = r1"
        using "1.prems"(2) True p by (simp_all add: fill.simps [of n r])
      moreover from e ps have "fst (view r) = buffered r" by (auto simp: view_def)
      ultimately show ?thesis using e True ps lens by (auto simp: end_error_def view_def)
    next
      case f
      then have "res = Inl (UnexpectedEof (int n) (len r1))" "r' = r1"
        using "1.prems"(2) True p by (auto simp: fill.simps [of n r])
      moreover from f ps have "fst (view r) = buffered r" by (simp add: view_def)
      ultimately show ?thesis using f True ps lens by (auto simp: end_error_def view_def)
    qed
  qed
qed

lemma exactly_simulates: "simulates reader_ok view (readExactly n) (wire_exactly n)"
proof (rule simulatesI)
  fix r res r' assume ok: "reader_ok r" and run: "readExactly n r = (res, r')"
  show "reader_ok r' \<and> wire_exactly n (view r) = (res, view r')"
  proof (cases "n < 0 \<or> n > int max_safe_integer")
    case True
    with ok run show ?thesis by (simp add: readExactly_def wire_exactly_def)
  next
    case False
    obtain u r1 where f: "fill (nat n) r = (u, r1)" by (cases "fill (nat n) r")
    note fs = fill_spec [OF ok f]
    show ?thesis
    proof (cases "nat n \<le> length (fst (view r))")
      case True
      then have u: "u = Inr ()" "nat n \<le> len r1" using fs by auto
      obtain b r2 where tk: "take_n (nat n) r1 = (b, r2)" by (cases "take_n (nat n) r1")
      have "reader_ok r1" using fs by blast
      note ts = take_n_spec [OF this u(2) tk]
      have le: "nat n \<le> length (buffered r1)" using fs u(2) by (simp add: reader_ok_def)
      have v: "view r = (buffered r1 @ pending r1, source_end r1)"
        using fs by (simp add: view_def)
      have "res = Inr b" "r' = r2" using run False f u tk by (simp_all add: readExactly_def)
      with ts le False show ?thesis by (simp add: v wire_exactly_def) (simp add: view_def pending_def)
    next
      case short: False
      then show ?thesis using run False f fs by (auto simp: readExactly_def wire_exactly_def)
    qed
  qed
qed


lemma readSome_end:
  "reader_ok r \<Longrightarrow> fst (view r) = [] \<Longrightarrow> readSome n r = (res, r') \<Longrightarrow>
   reader_ok r' \<and> wire_some n (view r) = (res, view r')"
proof (induction n r arbitrary: res r' rule: readSome.induct)
  case (1 n r)
  obtain p r1 where p: "pull r = (p, r1)" by (cases "pull r")
  note ps = pull_spec [OF "1.prems"(1) p]
  have l: "len r = 0" using "1.prems"(1,2) by (simp add: reader_ok_def view_def)
  consider (e) e where "p = Inl e" | (f) "p = Inr False" | (t) "p = Inr True"
    by (cases p) auto
  then show ?case
  proof cases
    case t
    with ps have "fst (view r1) \<noteq> []" by (auto simp: view_def)
    with ps "1.prems"(2) show ?thesis by simp
  next
    case e
    then have "res = Inl e" "r' = r1" using "1.prems"(3) l p by (simp_all add: readSome.simps [of n r])
    with e ps "1.prems"(2) show ?thesis by (auto simp: wire_some_def view_def)
  next
    case f
    then have "res = Inr None" "r' = r1" using "1.prems"(3) l p by (simp_all add: readSome.simps [of n r])
    with f ps "1.prems"(2) show ?thesis by (auto simp: wire_some_def view_def)
  qed
qed

lemma readSome_data:
  "reader_ok r \<Longrightarrow> fst (view r) \<noteq> [] \<Longrightarrow>
   \<exists>p r'. readSome n r = (Inr (Some p), r') \<and> reader_ok r' \<and> length p \<le> n \<and> (0 < n \<longrightarrow> p \<noteq> [])
     \<and> fst (view r) = p @ fst (view r') \<and> snd (view r') = snd (view r)"
proof (induction n r rule: readSome.induct)
  case (1 n r)
  show ?case
  proof (cases "len r = 0")
    case l: True
    obtain p r1 where p: "pull r = (p, r1)" by (cases "pull r")
    note ps = pull_spec [OF "1.prems"(1) p]
    have "buffered r = []" using "1.prems"(1) l by (simp add: reader_ok_def)
    with "1.prems"(2) have "pending r \<noteq> []" unfolding view_def by simp
    with ps have pt: "p = Inr True" by (cases p) (auto split: bool.splits)
    then have "readSome n r = readSome n r1" using l p by (simp add: readSome.simps [of n r])
    moreover have "view r1 = view r" "reader_ok r1" using ps by auto
    ultimately show ?thesis using "1.IH" [OF l p [symmetric] pt _] "1.prems" by simp
  next
    case False
    obtain b r1 where tk: "take_n (min n (len r)) r = (b, r1)" by (cases "take_n (min n (len r)) r")
    note ts = take_n_spec [OF "1.prems"(1) _ tk]
    have "readSome n r = (Inr (Some b), r1)" using False tk by (simp add: readSome.simps [of n r])
    moreover have "len r = length (buffered r)" using "1.prems"(1) by (simp add: reader_ok_def)
    ultimately show ?thesis using ts False by (auto simp: view_def pending_def)
  qed
qed

lemma unshift_spec:
  "reader_ok r \<Longrightarrow> reader_ok (unshift b r) \<and> view (unshift b r) = (b @ fst (view r), snd (view r))"
  by (cases "chunks r") (auto simp: unshift_def reader_ok_def view_def buffered_def chunks_ok_def Let_def)

lemma compact_spec:
  assumes "reader_ok r"
  shows "reader_ok (compact r) \<and> view (compact r) = view r \<and> source (compact r) = source r
    \<and> head (compact r) = 0 \<and> chunks (compact r) = (if len r = 0 then [] else [buffered r])
    \<and> len (compact r) = len r \<and> buffered (compact r) = buffered r"
proof (cases "length (chunks r) > 1 \<or> head r > 0")
  case True
  obtain b r1 where tk: "take_n (len r) r = (b, r1)" by (cases "take_n (len r) r")
  note ts = take_n_spec [OF assms _ tk]
  from ts assms True tk show ?thesis
    by (auto simp: compact_def reader_ok_def view_def pending_def buffered_def chunks_ok_def)
next
  case False
  then show ?thesis using assms
    by (cases "chunks r") (auto simp: compact_def reader_ok_def buffered_def chunks_ok_def)
qed


lemma no_match_prefix:
  "\<forall>j. \<not> matches_at (take k b) d j \<Longrightarrow> d \<noteq> [] \<Longrightarrow> k \<le> length b \<Longrightarrow>
   indexOf b d (k + 1 - length d) = indexOf b d 0"
  using indexOf_resume [of d "take k b" "drop k b"] by simp

lemma late_match:
  "\<forall>j. \<not> matches_at h d j \<Longrightarrow> d \<noteq> [] \<Longrightarrow> indexOf (h @ t) d 0 = Some k \<Longrightarrow> length h < k + length d"
  by (rule ccontr) (auto simp: indexOf_def index_scan_Some matches_at_def)

lemma until_loop_spec:
  "needle \<noteq> [] \<Longrightarrow> reader_ok r \<Longrightarrow> scanned \<le> length (buffered r) \<Longrightarrow>
   (\<forall>j. \<not> matches_at (take scanned (buffered r)) needle j) \<Longrightarrow>
   until_loop needle maxBytes scanned r = (res, r') \<Longrightarrow>
   reader_ok r' \<and> wire_until needle maxBytes (view r) = (res, view r')"
proof (induction needle maxBytes scanned r arbitrary: res r' rule: until_loop.induct)
  case (1 needle maxBytes scanned r)
  define r1 where "r1 = compact r"
  have c: "reader_ok r1" "view r1 = view r" "len r1 = len r"
    "chunks r1 = (if len r = 0 then [] else [buffered r])" "buffered r1 = buffered r"
    using compact_spec [OF "1.prems"(2)] by (auto simp: r1_def)
  have lr: "len r = length (buffered r)" using "1.prems"(2) by (simp add: reader_ok_def)
  define buf where "buf = (case chunks r1 of [] \<Rightarrow> [] | c # _ \<Rightarrow> if len r1 = 0 then [] else c)"
  have buf: "buf = buffered r" using c lr by (simp add: buf_def)
  have idx: "indexOf buf needle (scanned + 1 - length needle) = indexOf (buffered r) needle 0"
    using no_match_prefix "1.prems" buf by simp
  note unf = until_loop.simps [of needle maxBytes scanned r, folded r1_def, unfolded Let_def,
      folded buf_def, unfolded idx]
  show ?case
  proof (cases "indexOf (buffered r) needle 0")
    case (Some k)
    have w: "indexOf (buffered r @ pending r) needle 0 = Some k"
      by (rule indexOf_append [OF "1.prems"(1) Some])
    have le: "k + length needle \<le> len r1"
      using indexOf_bound [OF "1.prems"(1) Some] lr c by simp
    obtain b r2 where tk: "take_n (k + length needle) r1 = (b, r2)" by (cases "take_n (k + length needle) r1")
    note ts = take_n_spec [OF c(1) le tk]
    show ?thesis
    proof (cases "k + length needle > maxBytes")
      case True
      with "1.prems" Some w c show ?thesis
        by (simp add: unf wire_until_def view_def)
    next
      case False
      with "1.prems" Some tk have "res = Inr b" "r' = r2" by (simp_all add: unf)
      with ts False "1.prems"(1) w c le lr show ?thesis
        by (simp add: wire_until_def view_def pending_def Let_def)
    qed
  next
    case None
    have lens: "length buf = length (buffered r)" using buf by simp
    have nomatch: "\<forall>j. \<not> matches_at (buffered r) needle j"
      using None "1.prems"(1) by (simp add: indexOf_def index_scan_None)
    show ?thesis
    proof (cases "length buf > maxBytes")
      case True
      then have "res = Inl (Thrown LimitError (Limit LIMIT_HEADER))" "r' = r1"
        using "1.prems"(5) None by (simp_all add: unf)
      moreover have "maxBytes < x + length needle"
        if "indexOf (buffered r @ pending r) needle 0 = Some x" for x
        using late_match [OF nomatch "1.prems"(1) that] True lens by simp
      ultimately show ?thesis using True lens c "1.prems"(1)
        by (auto simp: wire_until_def view_def Let_def split: option.split)
    next
      case False
      obtain p r2 where p: "pull r1 = (p, r2)" by (cases "pull r1")
      note ps = pull_spec [OF c(1) p]
      have pend: "pending r1 = pending r" "source_end r1 = source_end r"
        using c by (simp_all add: view_def)
      have quiet: "wire_until needle maxBytes (view r) =
          (Inl (end_error (- 1) (length buf) (source_end r)), view r)" if "pending r = []"
        using that None False "1.prems"(1) lens by (simp add: wire_until_def view_def)
      consider (e) e where "p = Inl e" | (f) "p = Inr False" | (t) "p = Inr True"
        by (cases p) auto
      then show ?thesis
      proof cases
        case e
        with "1.prems"(5) None False p have "res = Inl e" "r' = r2" by (simp_all add: unf)
        with e ps pend quiet c show ?thesis by (auto simp: end_error_def)
      next
        case f
        with "1.prems"(5) None False p have "res = Inl (UnexpectedEof (- 1) (length buf))" "r' = r2"
          by (auto simp: unf)
        with f ps pend quiet c show ?thesis by (auto simp: end_error_def)
      next
        case t
        with "1.prems"(5) None False p have run: "until_loop needle maxBytes (length buf) r2 = (res, r')"
          by (simp add: unf)
        obtain u where u: "buffered r2 = buffered r @ u" using ps t c by auto
        have "\<forall>j. \<not> matches_at (take (length buf) (buffered r2)) needle j"
          using nomatch lens u by simp
        moreover have "length buf \<le> length (buffered r2)" using lens u by simp
        ultimately show ?thesis
          using "1.IH" [OF r1_def buf_def _ False p [symmetric] t _ _ _ _ _ run] None idx "1.prems"(1) ps c
          by simp
      qed
    qed
  qed
qed

lemma until_simulates: "simulates reader_ok view (readUntil d m) (wire_until d m)"
proof (rule simulatesI)
  fix r res r' assume ok: "reader_ok r" and run: "readUntil d m r = (res, r')"
  show "reader_ok r' \<and> wire_until d m (view r) = (res, view r')"
  proof (cases "d = []")
    case True
    with ok run show ?thesis by (simp add: readUntil_def wire_until_def)
  next
    case False
    then have "\<forall>j. \<not> matches_at (take 0 (buffered r)) d j" by (simp add: matches_at_def)
    moreover have "until_loop d m 0 r = (res, r')" using run False by (simp add: readUntil_def)
    ultimately show ?thesis using until_loop_spec [OF False ok, of 0 m res r'] by simp
  qed
qed

subsection \<open>The class keeps the reader contract\<close>

definition byte_reader_ops :: "byte_reader reader_ops" where
  "byte_reader_ops = \<lparr> rd_exactly = readExactly, rd_until = readUntil, rd_some = readSome,
                       rd_unshift = unshift \<rparr>"

interpretation br: byte_source byte_reader_ops reader_ok view
  by unfold_locales
    (auto simp: byte_reader_ops_def exactly_simulates until_simulates unshift_spec
      dest: readSome_end intro: readSome_data)

text \<open>\<open>readToEnd\<close> does not depend on the fragmentation either.\<close>

definition to_end_result :: "nat option \<Rightarrow> wire \<Rightarrow> bytes \<Rightarrow> nat \<Rightarrow> tf_error + bytes" where
  "to_end_result m w got tot =
     (if (case m of None \<Rightarrow> False | Some k \<Rightarrow> tot + length (fst w) > k) \<and> fst w \<noteq> []
      then Inl (Thrown LimitError (Limit LIMIT_BODY))
      else case snd w of CleanEnd \<Rightarrow> Inr (got @ fst w) | Fails n \<Rightarrow> Inl (TransportFailure n))"

lemma to_end_loop_spec:
  "reader_ok r \<Longrightarrow> length (fst (view r)) < fuel \<Longrightarrow>
   (case m of None \<Rightarrow> True | Some k \<Rightarrow> tot \<le> k) \<Longrightarrow>
   \<exists>r'. to_end_loop fuel m parts tot r = Some (to_end_result m (view r) (concat parts) tot, r')"
proof (induction fuel arbitrary: r parts tot)
  case 0
  then show ?case by simp
next
  case (Suc fuel)
  show ?case
  proof (cases "fst (view r) = []")
    case True
    obtain res r1 where s: "readSome 65536 r = (res, r1)" by (cases "readSome 65536 r")
    from readSome_end [OF Suc.prems(1) True s] True s show ?thesis
      by (auto simp: wire_some_def to_end_result_def concat_bytes_def split: source_end.splits)
  next
    case False
    from readSome_data [OF Suc.prems(1) False, of 65536]
    obtain p r1 where s: "readSome 65536 r = (Inr (Some p), r1)" and ok1: "reader_ok r1"
      and p: "p \<noteq> []" and v: "fst (view r) = p @ fst (view r1)" "snd (view r1) = snd (view r)" by auto
    show ?thesis
    proof (cases "case m of None \<Rightarrow> False | Some k \<Rightarrow> tot + length p > k")
      case True
      then show ?thesis using s v p by (auto simp: to_end_result_def split: option.splits)
    next
      case small: False
      have "length (fst (view r1)) < fuel" using Suc.prems(2) v p by (cases p) auto
      moreover have "case m of None \<Rightarrow> True | Some k \<Rightarrow> tot + length p \<le> k"
        using small by (auto split: option.splits)
      ultimately obtain r' where "to_end_loop fuel m (parts @ [p]) (tot + length p) r1 =
          Some (to_end_result m (view r1) (concat (parts @ [p])) (tot + length p), r')"
        using Suc.IH [OF ok1] by blast
      moreover have "to_end_result m (view r1) (concat (parts @ [p])) (tot + length p)
          = to_end_result m (view r) (concat parts) tot"
        using v p small by (auto simp: to_end_result_def split: option.splits source_end.splits)
      ultimately show ?thesis using s small by simp
    qed
  qed
qed

lemma readToEnd_total:
  assumes "reader_ok r"
  shows "\<exists>r'. readToEnd m r = Some (to_end_result m (view r) [] 0, r')"
proof -
  have "length (fst (view r)) < Suc (len r + length (concat (source r)))"
    using assms by (simp add: view_def reader_ok_def pending_def)
  moreover have "case m of None \<Rightarrow> True | Some k \<Rightarrow> 0 \<le> k" by (simp split: option.split)
  ultimately have "\<exists>r'. to_end_loop (Suc (len r + length (concat (source r)))) m [] 0 r =
      Some (to_end_result m (view r) (concat []) 0, r')"
    by (rule to_end_loop_spec [OF assms])
  then show ?thesis unfolding readToEnd_def by (simp only: concat.simps)
qed

end
