(* ===== verification/Wire.thy ===== *)
theory Wire
  imports Bytes
begin

text \<open>
  \<open>src/tls/wire.js\<close>: the length-prefixed vectors of TLS, read by a bounded cursor and written by a
  builder. A cursor is the octets it ranges over and its position; the name it carries for error
  messages is not modelled. A method of \<open>Cursor\<close> is an action on the cursor.
\<close>

subsection \<open>Cursor\<close>

record cursor =
  cbytes :: bytes
  cpos :: nat

definition new_Cursor :: "bytes \<Rightarrow> cursor" where
  "new_Cursor b = \<lparr> cbytes = b, cpos = 0 \<rparr>"

definition cur_remaining :: "cursor \<Rightarrow> int" where
  "cur_remaining c = int (length (cbytes c)) - int (cpos c)"

definition cur_done :: "cursor \<Rightarrow> bool" where
  "cur_done c \<longleftrightarrow> cpos c \<ge> length (cbytes c)"

definition cur_need :: "nat \<Rightarrow> (cursor, tf_error, unit) action" where
  "cur_need n c =
     (if cur_remaining c < int n then (Inl (Thrown TlsError (Tls TLS_HANDSHAKE)), c) else (Inr (), c))"

definition cur_u8 :: "(cursor, tf_error, nat) action" where
  "cur_u8 = bindA (cur_need 1) (\<lambda>_ c.
     (Inr (unat (cbytes c ! cpos c)), c\<lparr>cpos := cpos c + 1\<rparr>))"

definition cur_u16 :: "(cursor, tf_error, nat) action" where
  "cur_u16 = bindA (cur_need 2) (\<lambda>_ c.
     (Inr (unat (push_bit 8 (octet_at (cbytes c) (cpos c)) OR octet_at (cbytes c) (cpos c + 1))),
      c\<lparr>cpos := cpos c + 2\<rparr>))"

definition cur_u24 :: "(cursor, tf_error, nat) action" where
  "cur_u24 = bindA (cur_need 3) (\<lambda>_ c.
     (Inr (unat (push_bit 16 (octet_at (cbytes c) (cpos c)) OR push_bit 8 (octet_at (cbytes c) (cpos c + 1))
                 OR octet_at (cbytes c) (cpos c + 2))),
      c\<lparr>cpos := cpos c + 3\<rparr>))"

definition cur_u32 :: "(cursor, tf_error, nat) action" where
  "cur_u32 = bindA (cur_need 4) (\<lambda>_ c.
     (Inr (unat (push_bit 24 (octet_at (cbytes c) (cpos c)) OR push_bit 16 (octet_at (cbytes c) (cpos c + 1))
                 OR push_bit 8 (octet_at (cbytes c) (cpos c + 2)) OR octet_at (cbytes c) (cpos c + 3))),
      c\<lparr>cpos := cpos c + 4\<rparr>))"

definition cur_take :: "nat \<Rightarrow> (cursor, tf_error, bytes) action" where
  "cur_take n = bindA (cur_need n) (\<lambda>_ c.
     (Inr (take n (drop (cpos c) (cbytes c))), c\<lparr>cpos := cpos c + n\<rparr>))"

definition cur_vector :: "nat \<Rightarrow> (cursor, tf_error, bytes) action" where
  "cur_vector lenBytes =
     bindA (if lenBytes = 1 then cur_u8 else if lenBytes = 2 then cur_u16 else cur_u24) cur_take"

definition cur_sub :: "nat \<Rightarrow> (cursor, tf_error, cursor) action" where
  "cur_sub lenBytes = bindA (cur_vector lenBytes) (\<lambda>b. returnA (new_Cursor b))"

definition cur_end :: "(cursor, tf_error, unit) action" where
  "cur_end c = (if \<not> cur_done c then (Inl (Thrown TlsError (Tls TLS_HANDSHAKE)), c) else (Inr (), c))"

subsection \<open>Builder\<close>

record builder =
  bparts :: "bytes list"
  blength :: nat

definition new_Builder :: builder where
  "new_Builder = \<lparr> bparts = [], blength = 0 \<rparr>"

definition bld_push :: "bytes \<Rightarrow> builder \<Rightarrow> builder" where
  "bld_push b B = (if length b > 0 then B\<lparr>bparts := bparts B @ [b], blength := blength B + length b\<rparr> else B)"

definition bld_u8 :: "nat \<Rightarrow> builder \<Rightarrow> builder" where
  "bld_u8 n = bld_push (u8 n)"

definition bld_u16 :: "nat \<Rightarrow> builder \<Rightarrow> builder" where
  "bld_u16 n = bld_push (u16 n)"

definition bld_u24 :: "nat \<Rightarrow> builder \<Rightarrow> builder" where
  "bld_u24 n = bld_push (u24 n)"

definition bld_vector :: "nat \<Rightarrow> bytes \<Rightarrow> builder \<Rightarrow> tf_error + builder" where
  "bld_vector lenBytes body B =
     (let n = length body;
          mx = (if lenBytes = 1 then 0xff else if lenBytes = 2 then 0xffff else 0xffffff)
      in if n > mx then Inl (Thrown TlsError (Tls TLS_HANDSHAKE))
         else Inr (bld_push body
                     (if lenBytes = 1 then bld_u8 n B else if lenBytes = 2 then bld_u16 n B else bld_u24 n B)))"

definition bld_build :: "builder \<Rightarrow> bytes" where
  "bld_build B = concat_bytes (bparts B)"

definition vector :: "nat \<Rightarrow> bytes \<Rightarrow> tf_error + bytes" where
  "vector lenBytes body = bindE (bld_vector lenBytes body new_Builder) (\<lambda>B. Inr (bld_build B))"

definition handshakeMessage :: "nat \<Rightarrow> bytes \<Rightarrow> tf_error + bytes" where
  "handshakeMessage typ body =
     bindE (bld_vector 3 body (bld_u8 typ new_Builder)) (\<lambda>B. Inr (bld_build B))"

subsection \<open>The cursor as a position in the octets that remain\<close>

definition cur_ok :: "cursor \<Rightarrow> bool" where
  "cur_ok c \<longleftrightarrow> cpos c \<le> length (cbytes c)"

definition cur_rest :: "cursor \<Rightarrow> bytes" where
  "cur_rest c = drop (cpos c) (cbytes c)"

named_theorems cursor_simps \<open>cursor reads in terms of the remaining octets\<close>

lemma cur_ok_new [simp]: "cur_ok (new_Cursor b)" "cur_rest (new_Cursor b) = b"
  by (simp_all add: cur_ok_def new_Cursor_def cur_rest_def)

lemma cur_ok_advance: "cur_ok c \<Longrightarrow> n \<le> length (cur_rest c) \<Longrightarrow> cur_ok (c\<lparr>cpos := cpos c + n\<rparr>)"
  by (simp add: cur_ok_def cur_rest_def)

lemma cur_rest_advance [simp]: "cur_rest (c\<lparr>cpos := cpos c + n\<rparr>) = drop n (cur_rest c)"
  by (simp add: cur_rest_def add.commute)

lemma cur_need_eq [cursor_simps]:
  "cur_ok c \<Longrightarrow> cur_need n c =
     (if n \<le> length (cur_rest c) then (Inr (), c) else (Inl (Thrown TlsError (Tls TLS_HANDSHAKE)), c))"
  by (auto simp: cur_need_def cur_remaining_def cur_ok_def cur_rest_def)

lemma octet_at_pos: "octet_at (cbytes c) (cpos c) = octet_at (cur_rest c) 0"
  "octet_at (cbytes c) (cpos c + i) = octet_at (cur_rest c) i"
  using octet_at_drop [of "cbytes c" "cpos c" 0] octet_at_drop [of "cbytes c" "cpos c" i]
  by (simp_all add: cur_rest_def)

lemma cur_take_eq [cursor_simps]:
  "cur_ok c \<Longrightarrow> cur_take n c =
     (if n \<le> length (cur_rest c) then (Inr (take n (cur_rest c)), c\<lparr>cpos := cpos c + n\<rparr>)
      else (Inl (Thrown TlsError (Tls TLS_HANDSHAKE)), c))"
  by (simp add: cur_take_def bindA_def cur_need_eq) (simp add: cur_rest_def)

lemma cur_u8_eq [cursor_simps]:
  "cur_ok c \<Longrightarrow> cur_u8 c =
     (if 1 \<le> length (cur_rest c) then (Inr (unat (cur_rest c ! 0)), c\<lparr>cpos := cpos c + 1\<rparr>)
      else (Inl (Thrown TlsError (Tls TLS_HANDSHAKE)), c))"
  by (auto simp: cur_u8_def bindA_def cur_need_eq cur_rest_def)

lemma cur_u16_eq [cursor_simps]:
  "cur_ok c \<Longrightarrow> cur_u16 c =
     (if 2 \<le> length (cur_rest c) then (Inr (readU16 (cur_rest c) 0), c\<lparr>cpos := cpos c + 2\<rparr>)
      else (Inl (Thrown TlsError (Tls TLS_HANDSHAKE)), c))"
  by (simp add: cur_u16_def bindA_def cur_need_eq octet_at_pos readU16_def
      octet_at_pos(2) [of c 1, simplified])

lemma cur_u24_eq [cursor_simps]:
  "cur_ok c \<Longrightarrow> cur_u24 c =
     (if 3 \<le> length (cur_rest c) then (Inr (readU24 (cur_rest c) 0), c\<lparr>cpos := cpos c + 3\<rparr>)
      else (Inl (Thrown TlsError (Tls TLS_HANDSHAKE)), c))"
  by (simp add: cur_u24_def bindA_def cur_need_eq octet_at_pos readU24_def
      octet_at_pos(2) [of c 1, simplified] octet_at_pos(2) [of c 2, simplified] numeral_2_eq_2)

lemma cur_u32_eq [cursor_simps]:
  "cur_ok c \<Longrightarrow> cur_u32 c =
     (if 4 \<le> length (cur_rest c) then (Inr (readU32 (cur_rest c) 0), c\<lparr>cpos := cpos c + 4\<rparr>)
      else (Inl (Thrown TlsError (Tls TLS_HANDSHAKE)), c))"
  by (simp add: cur_u32_def bindA_def cur_need_eq octet_at_pos readU32_def
      octet_at_pos(2) [of c 1, simplified] octet_at_pos(2) [of c 2, simplified]
      octet_at_pos(2) [of c 3, simplified] numeral_2_eq_2)

lemma cur_end_eq [cursor_simps]:
  "cur_ok c \<Longrightarrow> cur_end c =
     (if cur_rest c = [] then (Inr (), c) else (Inl (Thrown TlsError (Tls TLS_HANDSHAKE)), c))"
  by (auto simp: cur_end_def cur_done_def cur_rest_def cur_ok_def)

text \<open>
  A cursor that was in bounds stays in bounds, whether the read succeeds or throws, and reading a
  vector gives a contiguous piece of the remaining octets.
\<close>

definition cur_step_ok :: "cursor \<Rightarrow> (tf_error + 'a) \<times> cursor \<Rightarrow> bool" where
  "cur_step_ok c res \<longleftrightarrow>
     cur_ok (snd res) \<and> cbytes (snd res) = cbytes c \<and> cpos c \<le> cpos (snd res)"

lemma cur_step_ok_intros [intro]:
  assumes "cur_ok c"
  shows "cur_step_ok c (cur_u8 c)" "cur_step_ok c (cur_u16 c)" "cur_step_ok c (cur_u24 c)"
    "cur_step_ok c (cur_u32 c)" "cur_step_ok c (cur_take n c)" "cur_step_ok c (cur_end c)"
  using assms
  by (simp_all add: cur_step_ok_def cursor_simps) (auto simp: cur_ok_def cur_rest_def)

definition len_read :: "nat \<Rightarrow> bytes \<Rightarrow> nat" where
  "len_read k b = (if k = 1 then unat (b ! 0) else if k = 2 then readU16 b 0 else readU24 b 0)"

definition prefix_size :: "nat \<Rightarrow> nat" where
  "prefix_size k = (if k = 1 then 1 else if k = 2 then 2 else 3)"

lemma cur_vector_eq [cursor_simps]:
  assumes "cur_ok c"
  shows "cur_vector k c =
     (if prefix_size k \<le> length (cur_rest c) then
        (let n = len_read k (cur_rest c); c1 = c\<lparr>cpos := cpos c + prefix_size k\<rparr>
         in if n \<le> length (cur_rest c1) then (Inr (take n (cur_rest c1)), c1\<lparr>cpos := cpos c1 + n\<rparr>)
            else (Inl (Thrown TlsError (Tls TLS_HANDSHAKE)), c1))
      else (Inl (Thrown TlsError (Tls TLS_HANDSHAKE)), c))"
proof (cases "prefix_size k \<le> length (cur_rest c)")
  case True
  have "cur_ok (c\<lparr>cpos := cpos c + prefix_size k\<rparr>)" by (rule cur_ok_advance [OF assms True])
  from cur_take_eq [OF this] show ?thesis using True assms
    by (auto simp: cur_vector_def bindA_def cur_u8_eq cur_u16_eq cur_u24_eq prefix_size_def
        len_read_def Let_def simp del: cur_rest_advance)
next
  case False
  then show ?thesis using assms
    by (auto simp: cur_vector_def bindA_def cur_u8_eq cur_u16_eq cur_u24_eq prefix_size_def)
qed

lemma cur_vector_step_ok: "cur_ok c \<Longrightarrow> cur_step_ok c (cur_vector k c)"
  using cur_ok_advance [of c]
  by (auto simp: cur_step_ok_def cur_vector_eq Let_def cur_ok_def cur_rest_def)

subsection \<open>What the builder writes\<close>

lemma bld_build_push: "bld_build (bld_push b B) = bld_build B @ b"
  by (simp add: bld_build_def bld_push_def concat_bytes_def)

lemma bld_build_new [simp]: "bld_build new_Builder = []"
  by (simp add: bld_build_def new_Builder_def concat_bytes_def)

definition length_prefix :: "nat \<Rightarrow> nat \<Rightarrow> bytes" where
  "length_prefix k n = (if k = 1 then u8 n else if k = 2 then u16 n else u24 n)"

definition prefix_max :: "nat \<Rightarrow> nat" where
  "prefix_max k = (if k = 1 then 255 else if k = 2 then 65535 else 16777215)"

lemma vector_eq:
  "vector k body = (if length body \<le> prefix_max k then Inr (length_prefix k (length body) @ body)
                    else Inl (Thrown TlsError (Tls TLS_HANDSHAKE)))"
  by (auto simp: vector_def bld_vector_def prefix_max_def length_prefix_def Let_def bld_build_push
      bld_u8_def bld_u16_def bld_u24_def)

lemma handshakeMessage_eq:
  "handshakeMessage t body = (if length body \<le> prefix_max 3 then Inr (u8 t @ u24 (length body) @ body)
                              else Inl (Thrown TlsError (Tls TLS_HANDSHAKE)))"
  by (auto simp: handshakeMessage_def bld_vector_def prefix_max_def Let_def bld_build_push
      bld_u8_def bld_u24_def)

lemma length_length_prefix [simp]: "length (length_prefix k n) = prefix_size k"
  by (simp add: length_prefix_def prefix_size_def)

lemma len_read_prefix:
  "n \<le> prefix_max k \<Longrightarrow> len_read k (length_prefix k n @ t) = n"
  by (auto simp: len_read_def length_prefix_def prefix_max_def nth_append u8_nth readU16_u16 readU24_u24
      split: if_splits)

text \<open>Reading back a vector the builder wrote returns its body and leaves what follows it.\<close>

lemma cur_vector_reads_back:
  assumes ok: "cur_ok c" and v: "vector k body = Inr v" and rest: "cur_rest c = v @ t"
  shows "\<exists>c'. cur_vector k c = (Inr body, c') \<and> cur_ok c' \<and> cur_rest c' = t \<and> cbytes c' = cbytes c"
proof -
  have le: "length body \<le> prefix_max k" and v': "v = length_prefix k (length body) @ body"
    using v by (auto simp: vector_eq split: if_splits)
  let ?c1 = "c\<lparr>cpos := cpos c + prefix_size k\<rparr>"
  have r: "cur_rest c = length_prefix k (length body) @ body @ t" using rest v' by simp
  have ps: "prefix_size k \<le> length (cur_rest c)" using r by simp
  have n: "len_read k (cur_rest c) = length body" using r len_read_prefix [OF le] by simp
  have r1: "cur_rest ?c1 = body @ t" using r by simp
  have "cur_ok ?c1" by (rule cur_ok_advance [OF ok ps])
  moreover from this have "cur_ok (?c1\<lparr>cpos := cpos ?c1 + length body\<rparr>)"
    by (rule cur_ok_advance) (simp only: r1 length_append le_add1)
  moreover have "cur_vector k c = (Inr body, ?c1\<lparr>cpos := cpos ?c1 + length body\<rparr>)"
    using ps n r1 by (simp add: cur_vector_eq [OF ok, of k] Let_def del: cur_rest_advance)
  moreover have "cur_rest (?c1\<lparr>cpos := cpos ?c1 + length body\<rparr>) = t"
    by (simp only: cur_rest_advance [of ?c1] r1) simp
  ultimately show ?thesis by (metis cursor.select_convs(1) cursor.surjective cursor.update_convs(2))
qed

end
