(* ===== verification/Frames.thy ===== *)
theory Frames
  imports ByteReader
begin

text \<open>
  \<open>src/http2/frames.js\<close> and the constants of \<open>src/http2/constants.js\<close>: the nine-octet frame header,
  the serialisers and payload parsers of the frame types a client uses, and the frame reader.
\<close>

subsection \<open>Constants\<close>

definition FRAME_DATA :: nat where [simp]: "FRAME_DATA = 0x0"
definition FRAME_HEADERS :: nat where [simp]: "FRAME_HEADERS = 0x1"
definition FRAME_PRIORITY :: nat where [simp]: "FRAME_PRIORITY = 0x2"
definition FRAME_RST_STREAM :: nat where [simp]: "FRAME_RST_STREAM = 0x3"
definition FRAME_SETTINGS :: nat where [simp]: "FRAME_SETTINGS = 0x4"
definition FRAME_PUSH_PROMISE :: nat where [simp]: "FRAME_PUSH_PROMISE = 0x5"
definition FRAME_PING :: nat where [simp]: "FRAME_PING = 0x6"
definition FRAME_GOAWAY :: nat where [simp]: "FRAME_GOAWAY = 0x7"
definition FRAME_WINDOW_UPDATE :: nat where [simp]: "FRAME_WINDOW_UPDATE = 0x8"
definition FRAME_CONTINUATION :: nat where [simp]: "FRAME_CONTINUATION = 0x9"

definition FLAG_END_STREAM :: nat where [simp]: "FLAG_END_STREAM = 0x1"
definition FLAG_ACK :: nat where [simp]: "FLAG_ACK = 0x1"
definition FLAG_END_HEADERS :: nat where [simp]: "FLAG_END_HEADERS = 0x4"
definition FLAG_PADDED :: nat where [simp]: "FLAG_PADDED = 0x8"
definition FLAG_PRIORITY :: nat where [simp]: "FLAG_PRIORITY = 0x20"

definition SETTINGS_HEADER_TABLE_SIZE :: nat where [simp]: "SETTINGS_HEADER_TABLE_SIZE = 0x1"
definition SETTINGS_ENABLE_PUSH :: nat where [simp]: "SETTINGS_ENABLE_PUSH = 0x2"
definition SETTINGS_MAX_CONCURRENT_STREAMS :: nat where [simp]: "SETTINGS_MAX_CONCURRENT_STREAMS = 0x3"
definition SETTINGS_INITIAL_WINDOW_SIZE :: nat where [simp]: "SETTINGS_INITIAL_WINDOW_SIZE = 0x4"
definition SETTINGS_MAX_FRAME_SIZE :: nat where [simp]: "SETTINGS_MAX_FRAME_SIZE = 0x5"
definition SETTINGS_MAX_HEADER_LIST_SIZE :: nat where [simp]: "SETTINGS_MAX_HEADER_LIST_SIZE = 0x6"

definition H2_NO_ERROR :: nat where [simp]: "H2_NO_ERROR = 0x0"
definition H2_PROTOCOL_ERROR :: nat where [simp]: "H2_PROTOCOL_ERROR = 0x1"
definition H2_FLOW_CONTROL_ERROR :: nat where [simp]: "H2_FLOW_CONTROL_ERROR = 0x3"
definition H2_REFUSED_STREAM :: nat where [simp]: "H2_REFUSED_STREAM = 0x7"
definition H2_CANCEL :: nat where [simp]: "H2_CANCEL = 0x8"

definition DEFAULT_MAX_FRAME_SIZE :: nat where [simp]: "DEFAULT_MAX_FRAME_SIZE = 16384"
definition MAX_ALLOWED_FRAME_SIZE :: nat where [simp]: "MAX_ALLOWED_FRAME_SIZE = 16777215"
definition DEFAULT_INITIAL_WINDOW :: nat where [simp]: "DEFAULT_INITIAL_WINDOW = 65535"
definition MAX_WINDOW :: nat where [simp]: "MAX_WINDOW = 2147483647"
definition CLIENT_INITIAL_WINDOW_SIZE :: nat where [simp]: "CLIENT_INITIAL_WINDOW_SIZE = 10485760"
definition CLIENT_MAX_CONCURRENT_STREAMS :: nat where [simp]: "CLIENT_MAX_CONCURRENT_STREAMS = 100"
definition CLIENT_CONNECTION_WINDOW :: nat where [simp]: "CLIENT_CONNECTION_WINDOW = 1048576000"

definition CONNECTION_PREFACE :: bytes where
  "CONNECTION_PREFACE =
     ascii_bytes (''PRI * HTTP/2.0'' @ [CHR 0x0D, CHR 0x0A, CHR 0x0D, CHR 0x0A] @ ''SM''
                  @ [CHR 0x0D, CHR 0x0A, CHR 0x0D, CHR 0x0A])"

definition FRAME_HEADER_SIZE :: nat where [simp]: "FRAME_HEADER_SIZE = 9"

definition has_flag :: "nat \<Rightarrow> nat \<Rightarrow> bool" where
  "has_flag flags f \<longleftrightarrow> flags AND f \<noteq> 0"

subsection \<open>Reading a frame\<close>

record frame =
  ftype :: nat
  fflags :: nat
  fstream :: nat
  fpayload :: bytes

definition frame_error :: "http2_code \<Rightarrow> tf_error" where
  "frame_error k = Thrown Http2Error (Http2 k)"

definition readFrame :: "'s reader_ops \<Rightarrow> nat \<Rightarrow> ('s, tf_error, frame option) action" where
  "readFrame R maxFrameSize =
     bindA (catchA (bindA (rd_exactly R (int FRAME_HEADER_SIZE)) (\<lambda>h. returnA (Some h)))
                   (\<lambda>e. if instanceof e UnexpectedEofError \<and> (\<exists>w. e = UnexpectedEof w 0)
                        then returnA None else throwA e))
       (\<lambda>hd. case hd of
          None \<Rightarrow> returnA None
        | Some header \<Rightarrow>
            (let length' = readU24 header 0;
                 type' = unat (octet_at header 3);
                 flags = unat (octet_at header 4);
                 streamId = readU32 header 5 AND 0x7fffffff
             in if length' > maxFrameSize then throwA (frame_error HTTP2_FRAME_SIZE)
                else bindA (if length' = 0 then returnA [] else rd_exactly R (int length'))
                       (\<lambda>payload. returnA (Some \<lparr> ftype = type', fflags = flags, fstream = streamId,
                                                 fpayload = payload \<rparr>))))"

subsection \<open>Serialisers\<close>

definition put_header :: "nat \<Rightarrow> nat \<Rightarrow> nat \<Rightarrow> nat \<Rightarrow> bytes" where
  "put_header length' type' flags streamId =
     [to_byte (drop_bit 16 (to_i32 length') AND 0xff), to_byte (drop_bit 8 (to_i32 length') AND 0xff),
      to_byte (to_i32 length' AND 0xff), to_byte (to_i32 type'), to_byte (to_i32 flags),
      to_byte (drop_bit 24 (to_i32 streamId) AND 0x7f), to_byte (drop_bit 16 (to_i32 streamId) AND 0xff),
      to_byte (drop_bit 8 (to_i32 streamId) AND 0xff), to_byte (to_i32 streamId AND 0xff)]"

definition serializeFrame :: "nat \<Rightarrow> nat \<Rightarrow> nat \<Rightarrow> bytes \<Rightarrow> bytes" where
  "serializeFrame type' flags streamId payload =
     put_header (length payload) type' flags streamId @ payload"

definition settings_entry :: "nat \<times> nat \<Rightarrow> bytes" where
  "settings_entry e =
     [to_byte (drop_bit 8 (to_i32 (fst e)) AND 0xff), to_byte (to_i32 (fst e) AND 0xff),
      to_byte (drop_bit 24 (to_i32 (snd e)) AND 0xff), to_byte (drop_bit 16 (to_i32 (snd e)) AND 0xff),
      to_byte (drop_bit 8 (to_i32 (snd e)) AND 0xff), to_byte (to_i32 (snd e) AND 0xff)]"

definition settingsFrame :: "(nat \<times> nat) list \<Rightarrow> bool \<Rightarrow> bytes" where
  "settingsFrame entries ack =
     (if ack then serializeFrame FRAME_SETTINGS FLAG_ACK 0 []
      else serializeFrame FRAME_SETTINGS 0 0 (concat (map settings_entry entries)))"

definition windowUpdateFrame :: "nat \<Rightarrow> nat \<Rightarrow> bytes" where
  "windowUpdateFrame streamId increment =
     serializeFrame FRAME_WINDOW_UPDATE 0 streamId
       [to_byte (drop_bit 24 (to_i32 increment) AND 0x7f), to_byte (drop_bit 16 (to_i32 increment) AND 0xff),
        to_byte (drop_bit 8 (to_i32 increment) AND 0xff), to_byte (to_i32 increment AND 0xff)]"

definition rstStreamFrame :: "nat \<Rightarrow> nat \<Rightarrow> bytes" where
  "rstStreamFrame streamId errorCode = serializeFrame FRAME_RST_STREAM 0 streamId (u32 errorCode)"

definition pingFrame :: "bytes \<Rightarrow> bool \<Rightarrow> bytes" where
  "pingFrame opaque ack = serializeFrame FRAME_PING (if ack then FLAG_ACK else 0) 0 opaque"

definition goawayFrame :: "nat \<Rightarrow> nat \<Rightarrow> bytes \<Rightarrow> bytes" where
  "goawayFrame lastStreamId errorCode debug =
     serializeFrame FRAME_GOAWAY 0 0
       ([to_byte (drop_bit 24 (to_i32 lastStreamId) AND 0x7f), to_byte (drop_bit 16 (to_i32 lastStreamId) AND 0xff),
         to_byte (drop_bit 8 (to_i32 lastStreamId) AND 0xff), to_byte (to_i32 lastStreamId AND 0xff)]
        @ u32 errorCode @ debug)"

record priority =
  exclusive :: bool
  streamDependency :: nat
  weight :: nat

definition priority_bytes :: "priority \<Rightarrow> bytes" where
  "priority_bytes p =
     (let dep = streamDependency p
      in [to_byte ((drop_bit 24 (to_i32 dep) AND 0x7f) OR (if exclusive p then 0x80 else 0)),
          to_byte (drop_bit 16 (to_i32 dep) AND 0xff), to_byte (drop_bit 8 (to_i32 dep) AND 0xff),
          to_byte (to_i32 dep AND 0xff), to_byte (to_i32 (weight p) AND 0xff)])"

definition headersFrame :: "nat \<Rightarrow> bytes \<Rightarrow> bool \<Rightarrow> bool \<Rightarrow> priority option \<Rightarrow> bytes" where
  "headersFrame streamId block endStream endHeaders prio =
     (let flags = (if endStream then FLAG_END_STREAM else 0) OR (if endHeaders then FLAG_END_HEADERS else 0)
      in case prio of
           None \<Rightarrow> serializeFrame FRAME_HEADERS flags streamId block
         | Some p \<Rightarrow> serializeFrame FRAME_HEADERS (flags OR FLAG_PRIORITY) streamId (priority_bytes p @ block))"

definition continuationFrame :: "nat \<Rightarrow> bytes \<Rightarrow> bool \<Rightarrow> bytes" where
  "continuationFrame streamId block endHeaders =
     serializeFrame FRAME_CONTINUATION (if endHeaders then FLAG_END_HEADERS else 0) streamId block"

definition dataFrame :: "nat \<Rightarrow> bytes \<Rightarrow> bool \<Rightarrow> bytes" where
  "dataFrame streamId payload endStream =
     serializeFrame FRAME_DATA (if endStream then FLAG_END_STREAM else 0) streamId payload"

subsection \<open>Payload parsers\<close>

text \<open>\<open>stripPadding\<close> returns the data; the pad length it also returns is used by no caller.\<close>

definition stripPadding :: "bytes \<Rightarrow> tf_error + bytes" where
  "stripPadding payload =
     (if length payload = 0 then Inl (frame_error HTTP2_PROTOCOL)
      else let padLength = unat (payload ! 0)
           in if padLength \<ge> length payload then Inl (frame_error HTTP2_PROTOCOL)
              else Inr (take (length payload - padLength - 1) (drop 1 payload)))"

definition headersBlockFragment :: "bytes \<Rightarrow> nat \<Rightarrow> tf_error + bytes" where
  "headersBlockFragment payload flags =
     bindE (if has_flag flags FLAG_PADDED then stripPadding payload else Inr payload)
       (\<lambda>p. if has_flag flags FLAG_PRIORITY
            then (if length p < 5 then Inl (frame_error HTTP2_FRAME_SIZE) else Inr (drop 5 p))
            else Inr p)"

fun settings_pairs :: "bytes \<Rightarrow> nat \<Rightarrow> nat \<Rightarrow> (nat \<times> nat) list" where
  "settings_pairs payload o' 0 = []"
| "settings_pairs payload o' (Suc k) =
     (readU16 payload o', readU32 payload (o' + 2)) # settings_pairs payload (o' + 6) k"

definition parseSettings :: "bytes \<Rightarrow> tf_error + (nat \<times> nat) list" where
  "parseSettings payload =
     (if length payload mod 6 \<noteq> 0 then Inl (frame_error HTTP2_FRAME_SIZE)
      else Inr (settings_pairs payload 0 (length payload div 6)))"

definition parseWindowUpdate :: "bytes \<Rightarrow> tf_error + nat" where
  "parseWindowUpdate payload =
     (if length payload \<noteq> 4 then Inl (frame_error HTTP2_FRAME_SIZE)
      else Inr (readU32 payload 0 AND 0x7fffffff))"

definition parseRstStream :: "bytes \<Rightarrow> tf_error + nat" where
  "parseRstStream payload =
     (if length payload \<noteq> 4 then Inl (frame_error HTTP2_FRAME_SIZE) else Inr (readU32 payload 0))"

record goaway_info =
  lastStreamId :: nat
  errorCode :: nat
  debugData :: bytes

definition parseGoaway :: "bytes \<Rightarrow> tf_error + goaway_info" where
  "parseGoaway payload =
     (if length payload < 8 then Inl (frame_error HTTP2_FRAME_SIZE)
      else Inr \<lparr> lastStreamId = readU32 payload 0 AND 0x7fffffff, errorCode = readU32 payload 4,
                 debugData = drop 8 payload \<rparr>)"

subsection \<open>A frame is read the same way under every fragmentation\<close>

context byte_source
begin

lemma sim_readFrame: "sim (readFrame R m) (readFrame wire_ops m)"
  unfolding readFrame_def Let_def wire_ops_sel
  by (intro sim_bind sim_catch sim_exactly sim_return)
    (auto split: option.split intro!: sim_return sim_throw sim_bind sim_if sim_exactly)

end

subsection \<open>Round trips\<close>

lemma and_7fffffff: "n AND 0x7fffffff = n mod (2147483648 :: nat)"
proof -
  have "n AND 0x7fffffff = n AND mask 31" by (simp add: mask_eq_exp_minus_1)
  then show ?thesis by (simp add: take_bit_eq_mask [symmetric] take_bit_eq_mod)
qed

lemma length_put_header [simp]: "length (put_header l t f s) = 9"
  by (simp add: put_header_def)

lemma put_header_length_field:
  "l < 16777216 \<Longrightarrow> readU24 (put_header l t f s) 0 = l"
  using readU24_u24 [of l "drop 3 (put_header l t f s)"] by (simp add: put_header_def u24_def)

lemma put_header_type_flags:
  "unat (octet_at (put_header l t f s) 3) = t mod 256"
  "unat (octet_at (put_header l t f s) 4) = f mod 256"
  by (simp_all add: unat_octet_at put_header_def unat_to_byte unat_to_i32 mod_mod_cancel)

lemma field_31:
  "unat (to_byte (drop_bit 24 (to_i32 s) AND 0x7f)) = s mod 4294967296 div 16777216 mod 128"
proof -
  have "unat (to_byte (drop_bit 24 (to_i32 s) AND 0x7f)) = s mod 4294967296 div 16777216 mod 128 mod 256"
    by (simp only: unat_to_byte unat_and_127 unat_drop_bit_div unat_to_i32) simp
  then show ?thesis by simp
qed

lemma nat_fields_31: "m div 16777216 mod 128 * 16777216 + m mod 16777216 = m mod (2147483648 :: nat)"
  using mod_mult2_eq [of m 16777216 128] by (simp add: mult.commute)

lemma readU32_31bit:
  "readU32 ([to_byte (drop_bit 24 (to_i32 s) AND 0x7f), to_byte (drop_bit 16 (to_i32 s) AND 0xff),
      to_byte (drop_bit 8 (to_i32 s) AND 0xff), to_byte (to_i32 s AND 0xff)] @ t) 0 = s mod 2147483648"
proof -
  have "readU32 ([to_byte (drop_bit 24 (to_i32 s) AND 0x7f), to_byte (drop_bit 16 (to_i32 s) AND 0xff),
      to_byte (drop_bit 8 (to_i32 s) AND 0xff), to_byte (to_i32 s AND 0xff)] @ t) 0
    = s mod 4294967296 div 16777216 mod 128 * 16777216
       + (s mod 4294967296 div 65536 mod 256 * 65536
          + (s mod 4294967296 div 256 mod 256 * 256 + s mod 4294967296 mod 256))"
    by (simp add: readU32_eq field_31 unat_field)
  then show ?thesis
    by (simp only: nat_fields_16 nat_fields_24 nat_fields_31) (simp add: mod_mod_cancel)
qed

lemma readU32_drop: "readU32 b (k + i) = readU32 (drop k b) i"
  by (simp add: readU32_def octet_at_drop [symmetric] add.assoc)

lemma readU16_drop: "readU16 b (k + i) = readU16 (drop k b) i"
  by (simp add: readU16_def octet_at_drop [symmetric] add.assoc)

lemma put_header_stream: "readU32 (put_header l t f s) 5 AND 0x7fffffff = s mod 2147483648"
proof -
  have "readU32 (put_header l t f s) 5 = readU32 (drop 5 (put_header l t f s) @ []) 0"
    using readU32_drop [of "put_header l t f s" 5 0] by simp
  also have "\<dots> = s mod 2147483648"
    using readU32_31bit [of s "[]"] by (simp add: put_header_def)
  finally show ?thesis by (simp add: and_7fffffff)
qed

text \<open>Whatever follows on the wire, a serialised frame is read back as it was written.\<close>

lemma readFrame_serialized:
  assumes "length p \<le> m" and "length p < 16777216"
  shows "readFrame wire_ops m (serializeFrame t f s p @ rest, e) =
    (Inr (Some \<lparr> ftype = t mod 256, fflags = f mod 256, fstream = s mod 2147483648, fpayload = p \<rparr>), (rest, e))"
proof -
  let ?h = "put_header (length p) t f s"
  have hd: "wire_exactly 9 (serializeFrame t f s p @ rest, e) = (Inr ?h, (p @ rest, e))"
    by (simp add: serializeFrame_def max_safe_integer_def)
  have body: "(if length p = 0 then returnA [] else wire_exactly (int (length p))) (p @ rest, e) = (Inr p, (rest, e))"
    using assms(2) by (cases "p = []") (simp_all add: max_safe_integer_def)
  show ?thesis
    using assms(1) hd body
    by (simp add: readFrame_def Let_def bindA_def catchA_def put_header_length_field [OF assms(2)]
        put_header_type_flags put_header_stream split: if_splits)
qed

lemma readFrame_clean_end: "readFrame wire_ops m ([], CleanEnd) = (Inr None, ([], CleanEnd))"
  by (simp add: readFrame_def bindA_def catchA_def wire_exactly_def max_safe_integer_def end_error_def
      instanceof_def)

lemma readFrame_cut_header:
  assumes "b \<noteq> []" and "length b < 9"
  shows "readFrame wire_ops m (b, CleanEnd) = (Inl (UnexpectedEof 9 (length b)), (b, CleanEnd))"
  using assms
  by (simp add: readFrame_def bindA_def catchA_def wire_exactly_def max_safe_integer_def end_error_def)

text \<open>An oversized frame is refused with only its header consumed.\<close>

lemma readFrame_oversized:
  assumes "length p > m" and "length p < 16777216"
  shows "readFrame wire_ops m (serializeFrame t f s p @ rest, e) =
    (Inl (frame_error HTTP2_FRAME_SIZE), (p @ rest, e))"
proof -
  have hd: "wire_exactly 9 (serializeFrame t f s p @ rest, e) = (Inr (put_header (length p) t f s), (p @ rest, e))"
    by (simp add: serializeFrame_def max_safe_integer_def)
  show ?thesis using assms(1) hd
    by (simp add: readFrame_def Let_def bindA_def catchA_def put_header_length_field [OF assms(2)])
qed

lemma length_settings_entry [simp]: "length (settings_entry e) = 6"
  by (simp add: settings_entry_def)

lemma settings_entry_read:
  "readU16 (settings_entry e @ t) 0 = fst e mod 65536"
  "readU32 (settings_entry e @ t) 2 = snd e mod 4294967296"
proof -
  have "settings_entry e @ t = u16 (fst e) @ (u32 (snd e) @ t)"
    by (simp add: settings_entry_def u16_def u32_def)
  then show "readU16 (settings_entry e @ t) 0 = fst e mod 65536"
    and "readU32 (settings_entry e @ t) 2 = snd e mod 4294967296"
    using readU32_drop [of "settings_entry e @ t" 2 0]
    by (simp_all add: readU16_u16 readU32_u32)
qed

lemma settings_pairs_drop:
  "settings_pairs b (k + i) n = settings_pairs (drop k b) i n"
proof (induction n arbitrary: i)
  case (Suc n)
  have "readU16 b (k + i) = readU16 (drop k b) i" "readU32 b (k + (i + 2)) = readU32 (drop k b) (i + 2)"
    by (rule readU16_drop, rule readU32_drop)
  moreover have "settings_pairs b (k + (i + 6)) n = settings_pairs (drop k b) (i + 6) n" by (rule Suc)
  ultimately show ?case by (simp add: add.assoc)
qed simp

lemma settings_pairs_entries:
  "settings_pairs (concat (map settings_entry es)) 0 (length es)
     = map (\<lambda>(i, v). (i mod 65536, v mod 4294967296)) es"
proof (induction es)
  case (Cons e es)
  have "settings_pairs (concat (map settings_entry (e # es))) 6 (length es)
      = settings_pairs (concat (map settings_entry es)) 0 (length es)"
    using settings_pairs_drop [of "concat (map settings_entry (e # es))" 6 0 "length es"] by simp
  with Cons show ?case by (cases e) (auto simp: settings_entry_read [unfolded numeral_2_eq_2])
qed simp

lemma length_settings_payload: "length (concat (map settings_entry es)) = 6 * length es"
  by (induction es) auto

lemma parse_settings_written:
  "parseSettings (concat (map settings_entry es)) = Inr (map (\<lambda>(i, v). (i mod 65536, v mod 4294967296)) es)"
  by (simp add: parseSettings_def length_settings_payload settings_pairs_entries)

lemma parse_window_update_written:
  "parseWindowUpdate [to_byte (drop_bit 24 (to_i32 s) AND 0x7f), to_byte (drop_bit 16 (to_i32 s) AND 0xff),
      to_byte (drop_bit 8 (to_i32 s) AND 0xff), to_byte (to_i32 s AND 0xff)] = Inr (s mod 2147483648)"
  using readU32_31bit [of s "[]"] by (simp add: parseWindowUpdate_def and_7fffffff)

lemma parse_rst_written: "parseRstStream (u32 k) = Inr (k mod 4294967296)"
  using readU32_u32 [of k "[]"] by (simp add: parseRstStream_def)

lemma strip_padding_written:
  "length pad < 256 \<Longrightarrow> stripPadding (u8 (length pad) @ d @ pad) = Inr d"
  by (simp add: stripPadding_def u8_nth nth_append)

lemma length_priority_bytes [simp]: "length (priority_bytes p) = 5"
  by (simp add: priority_bytes_def Let_def)

end
