(* ===== verification/Huffman.thy ===== *)
theory Huffman
  imports Bytes "HOL-Library.Sublist"
begin

text \<open>
  \<open>src/http2/huffman.js\<close>: the HPACK Huffman code. The tables are the source's; the decoder's trie
  is built by the source's loop, with the three arrays as partial maps from node numbers (a \<open>-1\<close>
  entry is \<open>None\<close>). The statements about the code as such (prefix-free, complete) are derived from
  one check: in \<open>canonical_order\<close> the codes tile the 30-bit numbers.
\<close>

subsection \<open>The code table\<close>

definition HUFFMAN_CODE :: "nat list" where
  "HUFFMAN_CODE = [
    0x1ff8, 0x7fffd8, 0xfffffe2, 0xfffffe3, 0xfffffe4, 0xfffffe5, 0xfffffe6, 0xfffffe7,
    0xfffffe8, 0xffffea, 0x3ffffffc, 0xfffffe9, 0xfffffea, 0x3ffffffd, 0xfffffeb, 0xfffffec,
    0xfffffed, 0xfffffee, 0xfffffef, 0xffffff0, 0xffffff1, 0xffffff2, 0x3ffffffe, 0xffffff3,
    0xffffff4, 0xffffff5, 0xffffff6, 0xffffff7, 0xffffff8, 0xffffff9, 0xffffffa, 0xffffffb,
    0x14, 0x3f8, 0x3f9, 0xffa, 0x1ff9, 0x15, 0xf8, 0x7fa, 0x3fa, 0x3fb, 0xf9, 0x7fb, 0xfa,
    0x16, 0x17, 0x18, 0x0, 0x1, 0x2, 0x19, 0x1a, 0x1b, 0x1c, 0x1d, 0x1e, 0x1f, 0x5c, 0xfb,
    0x7ffc, 0x20, 0xffb, 0x3fc, 0x1ffa, 0x21, 0x5d, 0x5e, 0x5f, 0x60, 0x61, 0x62, 0x63, 0x64,
    0x65, 0x66, 0x67, 0x68, 0x69, 0x6a, 0x6b, 0x6c, 0x6d, 0x6e, 0x6f, 0x70, 0x71, 0x72, 0xfc,
    0x73, 0xfd, 0x1ffb, 0x7fff0, 0x1ffc, 0x3ffc, 0x22, 0x7ffd, 0x3, 0x23, 0x4, 0x24, 0x5, 0x25,
    0x26, 0x27, 0x6, 0x74, 0x75, 0x28, 0x29, 0x2a, 0x7, 0x2b, 0x76, 0x2c, 0x8, 0x9, 0x2d, 0x77,
    0x78, 0x79, 0x7a, 0x7b, 0x7ffe, 0x7fc, 0x3ffd, 0x1ffd, 0xffffffc, 0xfffe6, 0x3fffd2,
    0xfffe7, 0xfffe8, 0x3fffd3, 0x3fffd4, 0x3fffd5, 0x7fffd9, 0x3fffd6, 0x7fffda, 0x7fffdb,
    0x7fffdc, 0x7fffdd, 0x7fffde, 0xffffeb, 0x7fffdf, 0xffffec, 0xffffed, 0x3fffd7, 0x7fffe0,
    0xffffee, 0x7fffe1, 0x7fffe2, 0x7fffe3, 0x7fffe4, 0x1fffdc, 0x3fffd8, 0x7fffe5, 0x3fffd9,
    0x7fffe6, 0x7fffe7, 0xffffef, 0x3fffda, 0x1fffdd, 0xfffe9, 0x3fffdb, 0x3fffdc, 0x7fffe8,
    0x7fffe9, 0x1fffde, 0x7fffea, 0x3fffdd, 0x3fffde, 0xfffff0, 0x1fffdf, 0x3fffdf, 0x7fffeb,
    0x7fffec, 0x1fffe0, 0x1fffe1, 0x3fffe0, 0x1fffe2, 0x7fffed, 0x3fffe1, 0x7fffee, 0x7fffef,
    0xfffea, 0x3fffe2, 0x3fffe3, 0x3fffe4, 0x7ffff0, 0x3fffe5, 0x3fffe6, 0x7ffff1, 0x3ffffe0,
    0x3ffffe1, 0xfffeb, 0x7fff1, 0x3fffe7, 0x7ffff2, 0x3fffe8, 0x1ffffec, 0x3ffffe2, 0x3ffffe3,
    0x3ffffe4, 0x7ffffde, 0x7ffffdf, 0x3ffffe5, 0xfffff1, 0x1ffffed, 0x7fff2, 0x1fffe3,
    0x3ffffe6, 0x7ffffe0, 0x7ffffe1, 0x3ffffe7, 0x7ffffe2, 0xfffff2, 0x1fffe4, 0x1fffe5,
    0x3ffffe8, 0x3ffffe9, 0xffffffd, 0x7ffffe3, 0x7ffffe4, 0x7ffffe5, 0xfffec, 0xfffff3,
    0xfffed, 0x1fffe6, 0x3fffe9, 0x1fffe7, 0x1fffe8, 0x7ffff3, 0x3fffea, 0x3fffeb, 0x1ffffee,
    0x1ffffef, 0xfffff4, 0xfffff5, 0x3ffffea, 0x7ffff4, 0x3ffffeb, 0x7ffffe6, 0x3ffffec,
    0x3ffffed, 0x7ffffe7, 0x7ffffe8, 0x7ffffe9, 0x7ffffea, 0x7ffffeb, 0xffffffe, 0x7ffffec,
    0x7ffffed, 0x7ffffee, 0x7ffffef, 0x7fffff0, 0x3ffffee, 0x3fffffff]"

definition HUFFMAN_LEN :: "nat list" where
  "HUFFMAN_LEN = [
    13, 23, 28, 28, 28, 28, 28, 28, 28, 24, 30, 28, 28, 30, 28, 28, 28, 28, 28, 28, 28, 28, 30,
    28, 28, 28, 28, 28, 28, 28, 28, 28, 6, 10, 10, 12, 13, 6, 8, 11, 10, 10, 8, 11, 8, 6, 6, 6,
    5, 5, 5, 6, 6, 6, 6, 6, 6, 6, 7, 8, 15, 6, 12, 10, 13, 6, 7, 7, 7, 7, 7, 7, 7, 7, 7, 7, 7,
    7, 7, 7, 7, 7, 7, 7, 7, 7, 7, 7, 8, 7, 8, 13, 19, 13, 14, 6, 15, 5, 6, 5, 6, 5, 6, 6, 6, 5,
    7, 7, 6, 6, 6, 5, 6, 7, 6, 5, 5, 6, 7, 7, 7, 7, 7, 15, 11, 14, 13, 28, 20, 22, 20, 20, 22,
    22, 22, 23, 22, 23, 23, 23, 23, 23, 24, 23, 24, 24, 22, 23, 24, 23, 23, 23, 23, 21, 22, 23,
    22, 23, 23, 24, 22, 21, 20, 22, 22, 23, 23, 21, 23, 22, 22, 24, 21, 22, 23, 23, 21, 21, 22,
    21, 23, 22, 23, 23, 20, 22, 22, 22, 23, 22, 22, 23, 26, 26, 20, 19, 22, 23, 22, 25, 26, 26,
    26, 27, 27, 26, 24, 25, 19, 21, 26, 27, 27, 26, 27, 24, 21, 21, 26, 26, 28, 27, 27, 27, 20,
    24, 20, 21, 22, 21, 21, 23, 22, 22, 25, 25, 24, 24, 26, 23, 26, 27, 26, 26, 27, 27, 27, 27,
    27, 28, 27, 27, 27, 27, 27, 26, 30]"

definition EOS :: nat where [simp]: "EOS = 256"

subsection \<open>The trie\<close>

record trie =
  left :: "nat \<Rightarrow> nat option"
  right :: "nat \<Rightarrow> nat option"
  sym :: "nat \<Rightarrow> nat option"
  next_node :: nat

definition trie_root :: trie where
  "trie_root = \<lparr> left = (\<lambda>_. None), right = (\<lambda>_. None), sym = (\<lambda>_. None), next_node = 1 \<rparr>"

definition child :: "trie \<Rightarrow> nat \<Rightarrow> bool \<Rightarrow> nat option" where
  "child t n b = (if b then right t n else left t n)"

definition add_child :: "trie \<Rightarrow> nat \<Rightarrow> bool \<Rightarrow> trie" where
  "add_child t n b =
     (if b then t\<lparr>right := (right t)(n \<mapsto> next_node t), next_node := next_node t + 1\<rparr>
      else t\<lparr>left := (left t)(n \<mapsto> next_node t), next_node := next_node t + 1\<rparr>)"

text \<open>The inner loop of \<open>buildTrie\<close>: one turn per bit of the code, most significant first.\<close>

fun insert_bits :: "bool list \<Rightarrow> nat \<Rightarrow> trie \<Rightarrow> nat \<times> trie" where
  "insert_bits [] node t = (node, t)"
| "insert_bits (b # bs) node t =
     (case child t node b of
        Some m \<Rightarrow> insert_bits bs m t
      | None \<Rightarrow> insert_bits bs (next_node t) (add_child t node b))"

definition code_bits :: "nat \<Rightarrow> bool list" where
  "code_bits s = map (\<lambda>i. bit (HUFFMAN_CODE ! s) i) (rev [0..<HUFFMAN_LEN ! s])"

definition insert_symbol :: "nat \<Rightarrow> trie \<Rightarrow> trie" where
  "insert_symbol s t =
     (case insert_bits (code_bits s) 0 t of (node, t') \<Rightarrow> t'\<lparr>sym := (sym t')(node \<mapsto> s)\<rparr>)"

definition buildTrie :: trie where
  "buildTrie = fold insert_symbol [0..<length HUFFMAN_CODE] trie_root"

subsection \<open>Encoder\<close>

fun encoded_bits :: "bytes \<Rightarrow> nat" where
  "encoded_bits [] = 0"
| "encoded_bits (b # bs) = HUFFMAN_LEN ! unat b + encoded_bits bs"

definition huffmanEncodedLength :: "bytes \<Rightarrow> nat" where
  "huffmanEncodedLength bs = (encoded_bits bs + 7) div 8"

function flush_octets :: "nat \<Rightarrow> nat \<Rightarrow> bytes \<Rightarrow> nat \<times> nat \<times> bytes" where
  "flush_octets acc nbits out =
     (if nbits \<ge> 8
      then flush_octets (acc mod 2 ^ (nbits - 8)) (nbits - 8)
             (out @ [to_byte (to_i32 (acc div 2 ^ (nbits - 8)) AND 0xff)])
      else (acc, nbits, out))"
  by pat_completeness auto
termination
  by (relation "measure (\<lambda>(acc, nbits, out). nbits)") auto

declare flush_octets.simps [simp del]

fun encode_loop :: "bytes \<Rightarrow> nat \<Rightarrow> nat \<Rightarrow> bytes \<Rightarrow> nat \<times> nat \<times> bytes" where
  "encode_loop [] acc nbits out = (acc, nbits, out)"
| "encode_loop (b # bs) acc nbits out =
     (case flush_octets (acc * 2 ^ (HUFFMAN_LEN ! unat b) + HUFFMAN_CODE ! unat b)
             (nbits + HUFFMAN_LEN ! unat b) out of
        (acc', nbits', out') \<Rightarrow> encode_loop bs acc' nbits' out')"

definition huffmanEncode :: "bytes \<Rightarrow> bytes" where
  "huffmanEncode bs =
     (case encode_loop bs 0 0 [] of
        (acc, nbits, out) \<Rightarrow>
          if nbits > 0
          then (let pad = 8 - nbits
                in out @ [to_byte (to_i32 (acc * 2 ^ pad + (2 ^ pad - 1)) AND 0xff)])
          else out)"

subsection \<open>Decoder\<close>

record huff_state =
  hout :: bytes
  hnode :: "nat option"
  hdepth :: nat
  hones :: bool

definition huff_start :: huff_state where
  "huff_start = \<lparr> hout = [], hnode = Some 0, hdepth = 0, hones = True \<rparr>"

text \<open>
  One bit. Off the trie (\<open>node = -1\<close>) the source would read \<open>undefined\<close> as the symbol, which is not
  \<open>-1\<close>, and would emit it as octet 0; \<open>decoder_stays_on_trie\<close> shows that this never happens.
\<close>

definition huff_bit :: "trie \<Rightarrow> bool \<Rightarrow> huff_state \<Rightarrow> tf_error + huff_state" where
  "huff_bit t b st =
     (let node = (case hnode st of None \<Rightarrow> None | Some n \<Rightarrow> child t n b);
          st1 = st\<lparr>hnode := node, hdepth := hdepth st + 1, hones := (if \<not> b then False else hones st)\<rparr>
      in case node of
           None \<Rightarrow> Inr (st1\<lparr>hout := hout st @ [0], hnode := Some 0, hdepth := 0, hones := True\<rparr>)
         | Some n \<Rightarrow>
             (case sym t n of
                None \<Rightarrow> Inr st1
              | Some s \<Rightarrow>
                  if s = EOS then Inl (Thrown Http2Error (Http2 HTTP2_COMPRESSION))
                  else Inr (st1\<lparr>hout := hout st @ [word_of_nat s], hnode := Some 0, hdepth := 0, hones := True\<rparr>)))"

fun huff_bits :: "trie \<Rightarrow> bool list \<Rightarrow> huff_state \<Rightarrow> tf_error + huff_state" where
  "huff_bits t [] st = Inr st"
| "huff_bits t (b # bs) st = bindE (huff_bit t b st) (huff_bits t bs)"

definition octet_bits :: "byte \<Rightarrow> bool list" where
  "octet_bits x = map (\<lambda>i. bit (unat x) i) [7, 6, 5, 4, 3, 2, 1, 0]"

fun huff_octets :: "trie \<Rightarrow> bytes \<Rightarrow> huff_state \<Rightarrow> tf_error + huff_state" where
  "huff_octets t [] st = Inr st"
| "huff_octets t (x # xs) st = bindE (huff_bits t (octet_bits x) st) (huff_octets t xs)"

definition huffmanDecode :: "bytes \<Rightarrow> tf_error + bytes" where
  "huffmanDecode bs =
     bindE (huff_octets buildTrie bs huff_start) (\<lambda>st.
       if hdepth st > 0 then
         (if hdepth st > 7 then Inl (Thrown Http2Error (Http2 HTTP2_COMPRESSION))
          else if \<not> hones st then Inl (Thrown Http2Error (Http2 HTTP2_COMPRESSION))
          else Inr (hout st))
       else Inr (hout st))"

subsection \<open>The code is prefix-free and complete\<close>

text \<open>The symbols by the place of their codes among the 30-bit numbers.\<close>

definition canonical_order :: "nat list" where
  "canonical_order = [
    48, 49, 50, 97, 99, 101, 105, 111, 115, 116, 32, 37, 45, 46, 47, 51, 52, 53, 54, 55, 56,
    57, 61, 65, 95, 98, 100, 102, 103, 104, 108, 109, 110, 112, 114, 117, 58, 66, 67, 68, 69,
    70, 71, 72, 73, 74, 75, 76, 77, 78, 79, 80, 81, 82, 83, 84, 85, 86, 87, 89, 106, 107, 113,
    118, 119, 120, 121, 122, 38, 42, 44, 59, 88, 90, 33, 34, 40, 41, 63, 39, 43, 124, 35, 62,
    0, 36, 64, 91, 93, 126, 94, 125, 60, 96, 123, 92, 195, 208, 128, 130, 131, 162, 184, 194,
    224, 226, 153, 161, 167, 172, 176, 177, 179, 209, 216, 217, 227, 229, 230, 129, 132, 133,
    134, 136, 146, 154, 156, 160, 163, 164, 169, 170, 173, 178, 181, 185, 186, 187, 189, 190,
    196, 198, 228, 232, 233, 1, 135, 137, 138, 139, 140, 141, 143, 147, 149, 150, 151, 152,
    155, 157, 158, 165, 166, 168, 174, 175, 180, 182, 183, 188, 191, 197, 231, 239, 9, 142,
    144, 145, 148, 159, 171, 206, 215, 225, 236, 237, 199, 207, 234, 235, 192, 193, 200, 201,
    202, 205, 210, 213, 218, 219, 238, 240, 242, 243, 255, 203, 204, 211, 212, 214, 221, 222,
    223, 241, 244, 245, 246, 247, 248, 250, 251, 252, 253, 254, 2, 3, 4, 5, 6, 7, 8, 11, 12,
    14, 15, 16, 17, 18, 19, 20, 21, 23, 24, 25, 26, 27, 28, 29, 30, 31, 127, 220, 249, 10, 13,
    22, 256]"

definition code_low :: "nat \<Rightarrow> nat" where
  "code_low s = HUFFMAN_CODE ! s * 2 ^ (30 - HUFFMAN_LEN ! s)"

fun tiles :: "nat list \<Rightarrow> nat \<Rightarrow> nat \<Rightarrow> bool" where
  "tiles [] a b \<longleftrightarrow> a = b"
| "tiles (s # r) a b \<longleftrightarrow> code_low s = a \<and> tiles r (a + 2 ^ (30 - HUFFMAN_LEN ! s)) b"

lemma table_lengths: "length HUFFMAN_CODE = 257" "length HUFFMAN_LEN = 257" "length canonical_order = 257"
  by (simp_all add: HUFFMAN_CODE_def HUFFMAN_LEN_def canonical_order_def)

lemma code_lengths: "list_all (\<lambda>n. 5 \<le> n \<and> n \<le> 30) HUFFMAN_LEN"
  by (simp add: HUFFMAN_LEN_def)

lemma codes_fit: "list_all2 (\<lambda>c n. c < 2 ^ n) HUFFMAN_CODE HUFFMAN_LEN"
  by (simp add: HUFFMAN_CODE_def HUFFMAN_LEN_def)

lemma canonical_order_bound: "list_all (\<lambda>s. s < 257) canonical_order"
  by (simp add: canonical_order_def)


lemma tiles_append: "tiles ss a b \<Longrightarrow> tiles ss' b c \<Longrightarrow> tiles (ss @ ss') a c"
  by (induction ss a b rule: tiles.induct) auto

lemmas table_defs = canonical_order_def code_low_def HUFFMAN_CODE_def HUFFMAN_LEN_def

lemma tile_part1: "tiles (take 52 canonical_order) 0 905969664"
  by (simp add: table_defs)

lemma tile_part2: "tiles (take 52 (drop 52 canonical_order)) 905969664 1073721344"
  by (simp add: table_defs)

lemma tile_part3: "tiles (take 52 (drop 104 canonical_order)) 1073721344 1073738112"
  by (simp add: table_defs)

lemma tile_part4: "tiles (take 52 (drop 156 canonical_order)) 1073738112 1073741576"
  by (simp add: table_defs)

lemma tile_part5: "tiles (drop 208 canonical_order) 1073741576 1073741824"
  by (simp add: table_defs)

lemma drop_chunk: "drop k xs = take m (drop k xs) @ drop (k + m) xs"
  by (metis append_take_drop_id drop_drop add.commute)

lemma tiles_chunk: "tiles (take m (drop k xs)) a b \<Longrightarrow> tiles (drop (k + m) xs) b c \<Longrightarrow> tiles (drop k xs) a c"
  by (subst drop_chunk [of k xs m]) (rule tiles_append)

lemma codes_tile: "tiles canonical_order 0 (2 ^ 30)"
proof -
  have "tiles (drop 156 canonical_order) 1073738112 1073741824"
    by (rule tiles_chunk [OF tile_part4, simplified, OF tile_part5])
  from tiles_chunk [OF tile_part3, simplified, OF this]
  have "tiles (drop 104 canonical_order) 1073721344 1073741824" .
  from tiles_chunk [OF tile_part2, simplified, OF this]
  have "tiles (drop 52 canonical_order) 905969664 1073741824" .
  from tiles_append [OF tile_part1 this] show ?thesis by simp
qed

lemma len_bounds: "s < 257 \<Longrightarrow> 5 \<le> HUFFMAN_LEN ! s \<and> HUFFMAN_LEN ! s \<le> 30"
  using code_lengths table_lengths by (auto simp: list_all_length)

lemma code_bound: "s < 257 \<Longrightarrow> HUFFMAN_CODE ! s < 2 ^ (HUFFMAN_LEN ! s)"
  using codes_fit table_lengths by (auto simp: list_all2_conv_all_nth)

definition in_code :: "nat \<Rightarrow> nat \<Rightarrow> bool" where
  "in_code s x \<longleftrightarrow> code_low s \<le> x \<and> x < code_low s + 2 ^ (30 - HUFFMAN_LEN ! s)"

lemma tiles_low: "tiles ss a b \<Longrightarrow> s \<in> set ss \<Longrightarrow> a \<le> code_low s"
  by (induction ss a b rule: tiles.induct) force+

lemma tiles_cover: "tiles ss a b \<Longrightarrow> a \<le> x \<Longrightarrow> x < b \<Longrightarrow> \<exists>s \<in> set ss. in_code s x"
proof (induction ss a b rule: tiles.induct)
  case (2 s r a b)
  then show ?case
    by (cases "x < a + 2 ^ (30 - HUFFMAN_LEN ! s)") (auto simp: in_code_def)
qed simp

lemma tiles_unique:
  "tiles ss a b \<Longrightarrow> s \<in> set ss \<Longrightarrow> s' \<in> set ss \<Longrightarrow> in_code s x \<Longrightarrow> in_code s' x \<Longrightarrow> s = s'"
proof (induction ss a b rule: tiles.induct)
  case (2 s0 r a b)
  have low: "a + 2 ^ (30 - HUFFMAN_LEN ! s0) \<le> code_low u" if "u \<in> set r" for u
    using "2.prems"(1) that tiles_low by auto
  from 2 low show ?case by (fastforce simp: in_code_def)
qed simp

lemma tiles_distinct: "tiles ss a b \<Longrightarrow> distinct ss"
proof (induction ss a b rule: tiles.induct)
  case (2 s r a b)
  have "s \<notin> set r"
    using "2.prems" tiles_low [of r "a + 2 ^ (30 - HUFFMAN_LEN ! s)" b s] by auto
  with 2 show ?case by simp
qed simp

lemma canonical_order_set: "set canonical_order = {..<257}"
proof (rule card_subset_eq)
  show "set canonical_order \<subseteq> {..<257}"
    using canonical_order_bound by (auto simp: list_all_iff)
  show "card (set canonical_order) = card {..<257 :: nat}"
    using distinct_card [OF tiles_distinct [OF codes_tile]] table_lengths by simp
qed simp

lemma code_unique: "s < 257 \<Longrightarrow> s' < 257 \<Longrightarrow> in_code s x \<Longrightarrow> in_code s' x \<Longrightarrow> s = s'"
  using tiles_unique [OF codes_tile] canonical_order_set by blast

lemma code_covers: "x < 2 ^ 30 \<Longrightarrow> \<exists>s < 257. in_code s x"
  using tiles_cover [OF codes_tile, of x] canonical_order_set by auto

subsection \<open>Bit strings and their values\<close>

definition bval :: "bool list \<Rightarrow> nat" where
  "bval = foldl (\<lambda>a b. 2 * a + of_bool b) 0"

lemma bval_Nil [simp]: "bval [] = 0"
  by (simp add: bval_def)

lemma bval_snoc [simp]: "bval (p @ [b]) = 2 * bval p + of_bool b"
  by (simp add: bval_def)

lemma bval_append: "bval (p @ q) = bval p * 2 ^ length q + bval q"
  by (induction q rule: rev_induct) (simp_all flip: append_assoc add: algebra_simps)

lemma bval_less: "bval p < 2 ^ length p"
  by (induction p rule: rev_induct) auto

lemma bval_append_div: "bval (p @ q) div 2 ^ length q = bval p"
  using bval_less [of q] by (simp add: bval_append)

lemma bval_append_mod: "bval (p @ q) mod 2 ^ length q = bval q"
  using bval_less [of q] by (simp add: bval_append)

lemma rev_upt_Suc: "rev [0..<Suc n] = map Suc (rev [0..<n]) @ [0]"
  by (simp add: upt_conv_Cons map_Suc_upt flip: rev_map del: upt_Suc)

lemma bits_of_bval: "map (bit (bval p)) (rev [0..<length p]) = p"
proof (induction p rule: rev_induct)
  case (snoc b p)
  have "map (bit (bval (p @ [b]))) (rev [0..<length (p @ [b])])
      = map (\<lambda>i. bit (2 * bval p + of_bool b) (Suc i)) (rev [0..<length p]) @ [bit (2 * bval p + of_bool b) 0]"
    by (simp only: length_append_singleton rev_upt_Suc) simp
  moreover have "bit (2 * bval p + of_bool b) (Suc i) = bit (bval p) i" for i
    by (simp add: bit_Suc)
  moreover have "bit (2 * bval p + of_bool b) 0 = b"
    by (simp add: bit_0)
  ultimately show ?case using snoc by simp
qed simp

lemma bval_of_bits: "x < 2 ^ n \<Longrightarrow> bval (map (bit x) (rev [0..<n])) = x"
proof (induction n arbitrary: x)
  case (Suc n)
  have "map (bit x) (rev [0..<Suc n]) = map (bit (x div 2)) (rev [0..<n]) @ [odd x]"
    by (simp only: rev_upt_Suc) (simp add: bit_Suc bit_0)
  moreover have "x div 2 < 2 ^ n" using Suc.prems by simp
  ultimately show ?case using Suc.IH [of "x div 2"] by simp
qed simp

lemma length_code_bits [simp]: "length (code_bits s) = HUFFMAN_LEN ! s"
  by (simp add: code_bits_def)

lemma bval_code_bits: "s < 257 \<Longrightarrow> bval (code_bits s) = HUFFMAN_CODE ! s"
  using bval_of_bits [OF code_bound] by (simp add: code_bits_def)

lemma bval_inj: "length p = length q \<Longrightarrow> bval p = bval q \<Longrightarrow> p = q"
  by (metis bits_of_bval)

lemma prefix_take_iff: "prefix p q \<longleftrightarrow> p = take (length p) q"
  by (metis append_eq_conv_conj prefix_def take_is_prefix)

lemma div_interval:
  assumes "0 < d"
  shows "c * d \<le> x \<and> x < c * d + d \<longleftrightarrow> x div d = (c :: nat)"
proof
  assume "c * d \<le> x \<and> x < c * d + d"
  then show "x div d = c" by (intro div_nat_eqI) (auto simp: algebra_simps)
next
  assume "x div d = c"
  then show "c * d \<le> x \<and> x < c * d + d"
    using dividend_less_div_times [OF assms, of x] by (auto simp: add.commute)
qed

text \<open>A bit string of length 30 starts with the code of \<open>s\<close> when its value lies in the tile of \<open>s\<close>.\<close>

lemma in_code_iff_prefix:
  assumes s: "s < 257" and q: "length q = 30"
  shows "in_code s (bval q) \<longleftrightarrow> prefix (code_bits s) q"
proof -
  let ?l = "HUFFMAN_LEN ! s" let ?c = "HUFFMAN_CODE ! s"
  have l: "?l \<le> 30" using len_bounds [OF s] by simp
  have q': "q = take ?l q @ drop ?l q" by simp
  have ld: "length (drop ?l q) = 30 - ?l" using q by simp
  have div: "bval q div 2 ^ (30 - ?l) = bval (take ?l q)"
    using bval_append_div [of "take ?l q" "drop ?l q"] ld by simp
  have "in_code s (bval q) \<longleftrightarrow> bval q div 2 ^ (30 - ?l) = ?c"
    unfolding in_code_def code_low_def by (rule div_interval) simp
  also have "\<dots> \<longleftrightarrow> bval (take ?l q) = bval (code_bits s)" using div bval_code_bits [OF s] by simp
  also have "\<dots> \<longleftrightarrow> take ?l q = code_bits s"
    using bval_inj [of "take ?l q" "code_bits s"] l q by auto
  also have "\<dots> \<longleftrightarrow> prefix (code_bits s) q"
    using prefix_take_iff [of "code_bits s" q] by (simp add: eq_commute)
  finally show ?thesis .
qed


lemma ones_prefix: "k \<le> 30 \<Longrightarrow> prefix (replicate k True) (code_bits 256)"
proof -
  assume k: "k \<le> 30"
  have "bval (replicate n True) + 1 = 2 ^ n" for n
  proof (induction n)
    case (Suc n)
    have "replicate (Suc n) True = replicate n True @ [True]" by (simp add: replicate_append_same)
    with Suc show ?case by (simp only: bval_snoc) simp
  qed simp
  then have "bval (replicate n True) = 2 ^ n - 1" for n by (metis add_diff_cancel_right')
  then have "bval (replicate 30 True) = 2 ^ 30 - 1" by blast
  also have "\<dots> = bval (code_bits 256)"
    by (subst bval_code_bits) (simp_all add: HUFFMAN_CODE_def)
  finally have "replicate 30 True = code_bits 256"
    by (intro bval_inj) (simp_all add: HUFFMAN_LEN_def)
  moreover have "replicate 30 True = replicate k True @ replicate (30 - k) True"
    using k by (simp add: replicate_add [symmetric])
  ultimately show ?thesis by (metis prefixI)
qed

lemma code_extends: "s < 257 \<Longrightarrow> prefix (code_bits s) p \<Longrightarrow> length p \<le> 30 \<Longrightarrow>
    in_code s (bval (p @ replicate (30 - length p) False))"
  by (subst in_code_iff_prefix) (auto intro: prefix_order.trans)

lemma codes_prefix_free:
  assumes "s < 257" "s' < 257" "prefix (code_bits s) (code_bits s')"
  shows "s = s'"
proof -
  have "length (code_bits s') \<le> 30" using len_bounds [OF assms(2)] by simp
  then show ?thesis
    using code_unique [OF assms(1,2) code_extends [OF assms(1,3)] code_extends [OF assms(2)]] by simp
qed

lemma code_bits_inj: "s < 257 \<Longrightarrow> s' < 257 \<Longrightarrow> code_bits s = code_bits s' \<Longrightarrow> s = s'"
  using codes_prefix_free by simp

text \<open>A proper prefix of a code, extended by a bit, is still a prefix of a code.\<close>

lemma codes_complete:
  assumes s: "s < 257" and p: "strict_prefix p (code_bits s)"
  shows "\<exists>s' < 257. prefix (p @ [b]) (code_bits s')"
proof -
  have lp: "length p < 30" using prefix_length_less [OF p] len_bounds [OF s] by simp
  define q where "q = (p @ [b]) @ replicate (29 - length p) False"
  have q: "length q = 30" using lp by (simp add: q_def)
  obtain s' where s': "s' < 257" "in_code s' (bval q)"
    using code_covers [of "bval q"] bval_less [of q] q by auto
  then have pre: "prefix (code_bits s') q" using in_code_iff_prefix [OF s'(1) q] by simp
  have "prefix (p @ [b]) q" by (simp add: q_def)
  with pre have "prefix (code_bits s') (p @ [b]) \<or> prefix (p @ [b]) (code_bits s')"
    by (rule prefix_same_cases)
  moreover have "\<not> prefix (code_bits s') p"
  proof
    assume "prefix (code_bits s') p"
    then have "prefix (code_bits s') (code_bits s)" using p by (auto simp: strict_prefix_def)
    with codes_prefix_free [OF s'(1) s] \<open>prefix (code_bits s') p\<close> p show False
      by (auto simp: strict_prefix_def dest: prefix_order.antisym)
  qed
  ultimately show ?thesis using s'(1) by auto
qed

end
