(* ===== verification/Huffman_Correct.thy ===== *)
theory Huffman_Correct
  imports Huffman
begin

text \<open>
  The trie built by \<open>buildTrie\<close> holds exactly the code of RFC 7541 Appendix B; the decoder walks it,
  never leaves it, and is the inverse of the encoder: decoding what \<open>huffmanEncode\<close> wrote gives the
  octets back, and an accepted string is the one encoding of what it decodes to.
\<close>

subsection \<open>The trie holds exactly the codes\<close>

fun walk :: "trie \<Rightarrow> nat \<Rightarrow> bool list \<Rightarrow> nat option" where
  "walk t n [] = Some n"
| "walk t n (b # bs) = (case child t n b of None \<Rightarrow> None | Some m \<Rightarrow> walk t m bs)"

lemma walk_append: "walk t n (p @ q) = Option.bind (walk t n p) (\<lambda>m. walk t m q)"
  by (induction p arbitrary: n) (auto split: option.split)

lemma walk_snoc: "walk t n (p @ [b]) = Option.bind (walk t n p) (\<lambda>m. child t m b)"
  by (cases "walk t n p") (auto simp: walk_append split: option.split)

definition trie_ok :: "trie \<Rightarrow> bool" where
  "trie_ok t \<longleftrightarrow>
     (\<forall>p q n. walk t 0 p = Some n \<longrightarrow> walk t 0 q = Some n \<longrightarrow> p = q)
     \<and> (\<forall>p n. walk t 0 p = Some n \<longrightarrow> n < next_node t)
     \<and> (\<forall>n b. next_node t \<le> n \<longrightarrow> child t n b = None)
     \<and> (\<forall>n. next_node t \<le> n \<longrightarrow> sym t n = None)"

lemma trie_ok_root: "trie_ok trie_root" "walk trie_root 0 p = (if p = [] then Some 0 else None)"
proof -
  show w: "walk trie_root 0 p = (if p = [] then Some 0 else None)" for p
    by (cases p) (auto simp: trie_root_def child_def)
  show "trie_ok trie_root"
    unfolding trie_ok_def w by (auto simp: trie_root_def child_def split: if_splits)
qed

lemma child_add_child:
  "child (add_child t n b) m c = (if m = n \<and> c = b then Some (next_node t) else child t m c)"
  by (auto simp: child_def add_child_def)

lemma add_child_sel [simp]:
  "next_node (add_child t n b) = next_node t + 1" "sym (add_child t n b) = sym t"
  by (simp_all add: add_child_def)

lemma walk_add_child:
  assumes ok: "trie_ok t" and p: "walk t 0 p = Some n" and free: "child t n b = None"
  shows "walk (add_child t n b) 0 q =
           (if prefix (p @ [b]) q then (if q = p @ [b] then Some (next_node t) else None) else walk t 0 q)"
proof (induction q rule: rev_induct)
  case Nil
  then show ?case by simp
next
  case (snoc c q)
  have new: "child t (next_node t) c = None" using ok by (simp add: trie_ok_def)
  have nn: "next_node t \<noteq> n" using ok p by (auto simp: trie_ok_def)
  show ?case
  proof (cases "prefix (p @ [b]) q")
    case True
    then show ?thesis using snoc new nn
      by (auto simp: walk_snoc child_add_child intro: prefix_order.trans split: if_splits)
  next
    case False
    then have w: "walk (add_child t n b) 0 q = walk t 0 q" using snoc by simp
    show ?thesis
    proof (cases "walk t 0 q = Some n")
      case True
      then have qp: "q = p" using ok p by (auto simp: trie_ok_def)
      show ?thesis using w True p free by (auto simp: qp walk_snoc child_add_child)
    next
      case False
      then have "q \<noteq> p" using p by auto
      with \<open>\<not> prefix (p @ [b]) q\<close> have "\<not> prefix (p @ [b]) (q @ [c])" by auto
      then show ?thesis using w False
        by (cases "walk t 0 q") (auto simp: walk_snoc child_add_child)
    qed
  qed
qed

lemma trie_ok_add_child:
  assumes ok: "trie_ok t" and p: "walk t 0 p = Some n" and free: "child t n b = None"
  shows "trie_ok (add_child t n b)"
proof -
  have lt: "walk t 0 q = Some m \<Longrightarrow> m < next_node t" for q m using ok by (simp add: trie_ok_def)
  have inj: "walk t 0 q = Some m \<Longrightarrow> walk t 0 q' = Some m \<Longrightarrow> q = q'" for q q' m
    using ok by (auto simp: trie_ok_def)
  show ?thesis
    unfolding trie_ok_def walk_add_child [OF assms] child_add_child
    using ok lt lt [OF p] inj
    by (auto simp: trie_ok_def split: if_splits) (meson less_irrefl less_SucI)+
qed


lemma walk_prefix: "walk t n q = Some k \<Longrightarrow> prefix p q \<Longrightarrow> walk t n p \<noteq> None"
  by (cases "walk t n p") (auto simp: prefix_def walk_append)

lemma insert_bits_spec:
  "trie_ok t \<Longrightarrow> walk t 0 p = Some n \<Longrightarrow> insert_bits bs n t = (m, t') \<Longrightarrow>
   trie_ok t' \<and> walk t' 0 (p @ bs) = Some m \<and> sym t' = sym t \<and> next_node t \<le> next_node t'
   \<and> (\<forall>q k. walk t 0 q = Some k \<longrightarrow> walk t' 0 q = Some k)
   \<and> (\<forall>q k. walk t' 0 q = Some k \<longrightarrow> walk t 0 q = None \<longrightarrow> next_node t \<le> k)
   \<and> (\<forall>q. walk t' 0 q \<noteq> None \<longleftrightarrow> walk t 0 q \<noteq> None \<or> (prefix p q \<and> prefix q (p @ bs)))"
proof (induction bs arbitrary: p n t)
  case Nil
  then show ?case by (auto dest: prefix_order.antisym)
next
  case (Cons b bs)
  show ?case
  proof (cases "child t n b")
    case (Some c)
    have w: "walk t 0 (p @ [b]) = Some c" using Cons.prems(2) Some by (simp add: walk_snoc)
    have "insert_bits bs c t = (m, t')" using Cons.prems(3) Some by simp
    note IH = Cons.IH [OF Cons.prems(1) w this]
    have "prefix p q \<and> prefix q (p @ b # bs) \<longleftrightarrow> q = p \<or> prefix (p @ [b]) q \<and> prefix q ((p @ [b]) @ bs)" for q
      by (auto simp: prefix_def) (metis append_Cons append_self_conv2 list.inject neq_Nil_conv)
    with IH Cons.prems(2) show ?thesis by auto
  next
    case None
    let ?t1 = "add_child t n b"
    have ok1: "trie_ok ?t1" by (rule trie_ok_add_child [OF Cons.prems(1,2) None])
    note w1 = walk_add_child [OF Cons.prems(1,2) None]
    have "insert_bits bs (next_node t) ?t1 = (m, t')" using Cons.prems(3) None by simp
    note IH = Cons.IH [OF ok1 _ this, of "p @ [b]"]
    have pb: "walk t 0 (p @ [b]) = None" using Cons.prems(2) None by (simp add: walk_snoc)
    have out: "walk t 0 q = None" if "prefix (p @ [b]) q" for q
      using walk_prefix [OF _ that, of t 0] pb by (cases "walk t 0 q") auto
    have keep: "walk ?t1 0 q = Some k" if "walk t 0 q = Some k" for q k
      using w1 [of q] that out [of q] by (cases "prefix (p @ [b]) q") auto
    have "prefix p q \<and> prefix q (p @ b # bs) \<longleftrightarrow> q = p \<or> prefix (p @ [b]) q \<and> prefix q ((p @ [b]) @ bs)" for q
      by (auto simp: prefix_def) (metis append_Cons append_self_conv2 list.inject neq_Nil_conv)
    moreover have "walk ?t1 0 q \<noteq> None \<longleftrightarrow> walk t 0 q \<noteq> None \<or> q = p @ [b]" for q
      using w1 [of q] out [of q] by auto
    moreover have "next_node t \<le> k" if k: "walk t' 0 q = Some k" and q: "walk t 0 q = None" for q k
    proof (cases "walk ?t1 0 q")
      case None
      then have "next_node ?t1 \<le> k" using IH k w1 by (auto split: if_splits)
      then show ?thesis by simp
    next
      case (Some j)
      then have "j = next_node t" using w1 [of q] q by (auto split: if_splits)
      moreover have "walk t' 0 q = Some j" using IH Some w1 by auto
      ultimately show ?thesis using k by simp
    qed
    moreover have "walk ?t1 0 (p @ [b]) = Some (next_node t)" using w1 by simp
    note IH [OF this]
    ultimately show ?thesis using keep Cons.prems(2) by auto
  qed
qed

definition trie_has :: "trie \<Rightarrow> (bool list \<Rightarrow> nat option) \<Rightarrow> bool" where
  "trie_has t S \<longleftrightarrow> trie_ok t \<and> (\<forall>p n. walk t 0 p = Some n \<longrightarrow> sym t n = S p)
     \<and> (\<forall>p. walk t 0 p \<noteq> None \<longleftrightarrow> p = [] \<or> (\<exists>q. S q \<noteq> None \<and> prefix p q))"

lemma walk_sym_update [simp]: "walk (t\<lparr>sym := f\<rparr>) n p = walk t n p"
  by (induction p arbitrary: n) (auto simp: child_def split: option.split)

lemma child_sym_update [simp]: "child (t\<lparr>sym := f\<rparr>) n b = child t n b"
  by (simp add: child_def)

lemma trie_has_insert:
  assumes t: "trie_has t S"
  shows "trie_has (insert_symbol s t) (S(code_bits s \<mapsto> s))"
proof -
  obtain m t' where ins: "insert_bits (code_bits s) 0 t = (m, t')" by (cases "insert_bits (code_bits s) 0 t")
  have "walk t 0 [] = Some 0" "trie_ok t" using t by (simp_all add: trie_has_def)
  note sp = insert_bits_spec [OF this(2,1) ins, simplified]
  have new: "sym t k = S q" if "walk t' 0 q = Some k" for q k
  proof (cases "walk t 0 q")
    case None
    then have "next_node t \<le> k" using sp that by blast
    then have "sym t k = None" using t by (simp add: trie_has_def trie_ok_def)
    moreover have "S q = None"
      using None t unfolding trie_has_def by (metis prefix_order.order_refl)
    ultimately show ?thesis by simp
  next
    case (Some j)
    then show ?thesis using sp that t by (auto simp: trie_has_def)
  qed
  have m_lt: "m < next_node t'" using sp by (auto simp: trie_ok_def)
  have "trie_ok (t'\<lparr>sym := (sym t')(m \<mapsto> s)\<rparr>)"
    using sp m_lt by (auto simp: trie_ok_def)
  moreover have "((sym t)(m \<mapsto> s)) k = (S(code_bits s \<mapsto> s)) q" if "walk t' 0 q = Some k" for q k
    using new [OF that] that sp by (auto simp: trie_ok_def)
  moreover have "walk t' 0 q \<noteq> None \<longleftrightarrow> q = [] \<or> (\<exists>r. (S(code_bits s \<mapsto> s)) r \<noteq> None \<and> prefix q r)" for q
  proof -
    have "(\<exists>r. (S(code_bits s \<mapsto> s)) r \<noteq> None \<and> prefix q r)
        \<longleftrightarrow> prefix q (code_bits s) \<or> (\<exists>r. S r \<noteq> None \<and> prefix q r)"
      by (metis fun_upd_apply option.distinct(1))
    moreover have "walk t 0 q \<noteq> None \<longleftrightarrow> q = [] \<or> (\<exists>r. S r \<noteq> None \<and> prefix q r)"
      using t unfolding trie_has_def by simp
    moreover have "walk t' 0 q \<noteq> None \<longleftrightarrow> walk t 0 q \<noteq> None \<or> prefix q (code_bits s)"
      using sp by simp
    ultimately show ?thesis by argo
  qed
  ultimately show ?thesis using ins sp by (simp add: insert_symbol_def trie_has_def)
qed

lemma trie_has_fold:
  "trie_has t S \<Longrightarrow> trie_has (fold insert_symbol xs t) (fold (\<lambda>s S. S(code_bits s \<mapsto> s)) xs S)"
  by (induction xs arbitrary: t S) (auto intro: trie_has_insert)

lemma fold_updates:
  "inj_on f (set xs) \<Longrightarrow>
   fold (\<lambda>s S. S(f s \<mapsto> s)) xs Map.empty p = Some s \<longleftrightarrow> s \<in> set xs \<and> f s = p"
proof (induction xs rule: rev_induct)
  case (snoc x xs)
  then have "inj_on f (set xs)" by (auto simp: inj_on_def)
  with snoc show ?case by (auto simp: inj_on_def)
qed simp

definition code_symbol :: "bool list \<Rightarrow> nat option" where
  "code_symbol = fold (\<lambda>s S. S(code_bits s \<mapsto> s)) [0..<257] Map.empty"

lemma code_symbol_Some: "code_symbol p = Some s \<longleftrightarrow> s < 257 \<and> code_bits s = p"
  unfolding code_symbol_def
  by (subst fold_updates) (auto simp: inj_on_def intro: code_bits_inj)

lemma buildTrie_has: "trie_has buildTrie code_symbol"
proof -
  have "trie_has trie_root Map.empty"
    using trie_ok_root by (auto simp: trie_has_def) (auto simp: trie_root_def)
  then show ?thesis
    unfolding buildTrie_def code_symbol_def table_lengths by (rule trie_has_fold)
qed

lemma walk_buildTrie_sym: "walk buildTrie 0 p = Some n \<Longrightarrow> sym buildTrie n = code_symbol p"
  using buildTrie_has by (auto simp: trie_has_def)

lemma walk_buildTrie_dom:
  "walk buildTrie 0 p \<noteq> None \<longleftrightarrow> p = [] \<or> (\<exists>s < 257. prefix p (code_bits s))"
  using buildTrie_has code_symbol_Some unfolding trie_has_def by (metis not_None_eq)


subsection \<open>Decoding follows the codes\<close>

text \<open>
  \<open>huff_at ss p st\<close>: the decoder has emitted the symbols \<open>ss\<close> and stands at the proper prefix \<open>p\<close>
  of a code.
\<close>

definition inside :: "bool list \<Rightarrow> bool" where
  "inside p \<longleftrightarrow> (\<exists>s < 257. strict_prefix p (code_bits s))"

definition huff_at :: "bytes \<Rightarrow> bool list \<Rightarrow> huff_state \<Rightarrow> bool" where
  "huff_at ss p st \<longleftrightarrow> inside p \<and> hout st = ss \<and> hnode st = walk buildTrie 0 p
     \<and> hdepth st = length p \<and> hones st = list_all id p"

lemma inside_Nil [simp]: "inside []"
proof -
  have "length (code_bits 0) = 13" by (simp add: HUFFMAN_LEN_def)
  then have "strict_prefix [] (code_bits 0)" by (cases "code_bits 0") auto
  then show ?thesis unfolding inside_def by force
qed

lemma huff_start_at: "huff_at [] [] huff_start"
  by (simp add: huff_at_def huff_start_def)

lemma inside_no_symbol:
  assumes "inside p"
  shows "code_symbol p = None"
proof (rule ccontr)
  assume "code_symbol p \<noteq> None"
  then obtain s' where s': "s' < 257" "code_bits s' = p" using code_symbol_Some by blast
  obtain s where s: "s < 257" "prefix p (code_bits s)" "p \<noteq> code_bits s"
    using assms by (auto simp: inside_def strict_prefix_def)
  have "s' = s" using codes_prefix_free [OF s'(1) s(1)] s' s by simp
  with s s' show False by simp
qed

lemma inside_step: "inside p \<Longrightarrow> inside (p @ [b]) \<or> (\<exists>s < 257. p @ [b] = code_bits s)"
  using codes_complete unfolding inside_def strict_prefix_def by metis

lemma prefix_inside: "inside q \<Longrightarrow> prefix p q \<Longrightarrow> inside p"
  unfolding inside_def by (meson prefix_order.le_less_trans)

lemma walk_inside_step:
  assumes "inside p"
  shows "\<exists>n m. walk buildTrie 0 p = Some n \<and> child buildTrie n b = Some m
           \<and> walk buildTrie 0 (p @ [b]) = Some m \<and> sym buildTrie m = code_symbol (p @ [b])"
proof -
  have "walk buildTrie 0 (p @ [b]) \<noteq> None"
    using inside_step [OF assms, of b] unfolding walk_buildTrie_dom
    by (auto simp: inside_def strict_prefix_def)
  then obtain m where m: "walk buildTrie 0 (p @ [b]) = Some m" by blast
  then obtain n where "walk buildTrie 0 p = Some n" "child buildTrie n b = Some m"
    by (auto simp: walk_snoc bind_eq_Some_conv)
  with m walk_buildTrie_sym [OF m] show ?thesis by blast
qed

lemma huff_bit_at:
  assumes at: "huff_at ss p st"
  shows "(case code_symbol (p @ [b]) of
            None \<Rightarrow> \<exists>st'. huff_bit buildTrie b st = Inr st' \<and> huff_at ss (p @ [b]) st'
          | Some s \<Rightarrow> if s = EOS then huff_bit buildTrie b st = Inl (Thrown Http2Error (Http2 HTTP2_COMPRESSION))
                      else \<exists>st'. huff_bit buildTrie b st = Inr st' \<and> huff_at (ss @ [word_of_nat s]) [] st')"
proof -
  have ins: "inside p" using at by (simp add: huff_at_def)
  obtain n m where w: "walk buildTrie 0 p = Some n" "child buildTrie n b = Some m"
    "walk buildTrie 0 (p @ [b]) = Some m" "sym buildTrie m = code_symbol (p @ [b])"
    using walk_inside_step [OF ins] by blast
  show ?thesis
  proof (cases "code_symbol (p @ [b])")
    case None
    then have "inside (p @ [b])"
      using inside_step [OF ins, of b] code_symbol_Some by (metis not_None_eq)
    with None w at show ?thesis by (auto simp: huff_bit_def huff_at_def Let_def)
  next
    case (Some s)
    with w at show ?thesis by (auto simp: huff_bit_def huff_at_def Let_def)
  qed
qed

lemma huff_bits_append: "huff_bits t (p @ q) st = bindE (huff_bits t p st) (huff_bits t q)"
proof (induction p arbitrary: st)
  case (Cons a p)
  then show ?case by (cases "huff_bit t a st") simp_all
qed simp

lemma huff_octets_bits: "huff_octets t bs st = huff_bits t (concat (map octet_bits bs)) st"
proof (induction bs arbitrary: st)
  case (Cons x bs)
  then show ?case by (cases "huff_bits t (octet_bits x) st") (simp_all add: huff_bits_append)
qed simp

lemma huff_bits_inside:
  "inside q \<Longrightarrow> huff_at ss [] st \<Longrightarrow> \<exists>st'. huff_bits buildTrie q st = Inr st' \<and> huff_at ss q st'"
proof (induction q rule: rev_induct)
  case (snoc b q)
  have "inside q" by (rule prefix_inside [OF snoc.prems(1)]) simp
  from snoc.IH [OF this snoc.prems(2)]
  obtain st1 where "huff_bits buildTrie q st = Inr st1" "huff_at ss q st1" by blast
  moreover have "code_symbol (q @ [b]) = None" by (rule inside_no_symbol [OF snoc.prems(1)])
  ultimately show ?case using huff_bit_at [of ss q st1 b] by (auto simp: huff_bits_append)
next
  case Nil
  then show ?case by simp
qed

lemma huff_bits_symbol:
  assumes s: "s < 256" and at: "huff_at ss [] st"
  shows "\<exists>st'. huff_bits buildTrie (code_bits s) st = Inr st' \<and> huff_at (ss @ [word_of_nat s]) [] st'"
proof -
  have "0 < length (code_bits s)" using len_bounds [of s] s by simp
  then have "code_bits s \<noteq> []" by (metis less_irrefl list.size(3))
  then obtain q b where q: "code_bits s = q @ [b]" by (metis rev_exhaust)
  have "inside q" unfolding inside_def using s q by (intro exI [of _ s]) (auto simp: strict_prefix_def)
  then obtain st1 where "huff_bits buildTrie q st = Inr st1" "huff_at ss q st1"
    using huff_bits_inside [OF _ at] by blast
  moreover have "code_symbol (q @ [b]) = Some s" using s q code_symbol_Some by auto
  ultimately show ?thesis
    using huff_bit_at [of ss q st1 b] s by (auto simp: q huff_bits_append)
qed

definition symbol_bits :: "bytes \<Rightarrow> bool list" where
  "symbol_bits bs = concat (map (\<lambda>x. code_bits (unat x)) bs)"

lemma huff_bits_symbols:
  "huff_at ss [] st \<Longrightarrow> \<exists>st'. huff_bits buildTrie (symbol_bits bs) st = Inr st' \<and> huff_at (ss @ bs) [] st'"
proof (induction bs arbitrary: ss st)
  case (Cons x bs)
  have "unat x < 256" by (rule unat_byte_less)
  from huff_bits_symbol [OF this Cons.prems]
  obtain st1 where "huff_bits buildTrie (code_bits (unat x)) st = Inr st1" "huff_at (ss @ [x]) [] st1" by auto
  with Cons.IH [of "ss @ [x]" st1] show ?case
    by (auto simp: symbol_bits_def huff_bits_append)
qed (auto simp: symbol_bits_def)

text \<open>Conversely, whatever bits the decoder accepts are the codes of its output and an unfinished rest.\<close>

lemma huff_bits_inv:
  "huff_at ss p st \<Longrightarrow> huff_bits buildTrie bits st = Inr st' \<Longrightarrow>
   \<exists>out q. huff_at (ss @ out) q st' \<and> p @ bits = symbol_bits out @ q"
proof (induction bits arbitrary: ss p st)
  case Nil
  then show ?case by (intro exI [of _ "[]"] exI [of _ p]) (auto simp: symbol_bits_def)
next
  case (Cons b bits)
  then obtain st1 where st1: "huff_bit buildTrie b st = Inr st1" "huff_bits buildTrie bits st1 = Inr st'"
    by (auto simp: bindE_Inr_conv)
  show ?case
  proof (cases "code_symbol (p @ [b])")
    case None
    with huff_bit_at [OF Cons.prems(1), of b] st1 have "huff_at ss (p @ [b]) st1" by auto
    from Cons.IH [OF this st1(2)] show ?thesis by simp
  next
    case (Some s)
    with huff_bit_at [OF Cons.prems(1), of b] st1
    have at: "huff_at (ss @ [word_of_nat s]) [] st1" and s: "s \<noteq> 256" by (auto split: if_splits)
    have code: "s < 257" "code_bits s = p @ [b]" using Some code_symbol_Some by auto
    then have s256: "unat (word_of_nat s :: byte) = s"
      using s by (simp add: unsigned_of_nat take_bit_nat_eq_self)
    from Cons.IH [OF at st1(2)] obtain out q where
      "huff_at ((ss @ [word_of_nat s]) @ out) q st'" "bits = symbol_bits out @ q" by auto
    then have "huff_at (ss @ (word_of_nat s # out)) q st'"
      "p @ b # bits = symbol_bits (word_of_nat s # out) @ q"
      using code s256 by (simp_all add: symbol_bits_def)
    then show ?thesis by blast
  qed
qed

subsection \<open>The encoder writes the codes, padded with ones\<close>

lemma octet_bits_alt: "octet_bits x = map (bit (unat x)) (rev [0..<8])"
proof -
  have "rev [0..<8] = [7, 6, 5, 4, 3, 2, 1, 0 :: nat]" by code_simp
  then show ?thesis by (simp add: octet_bits_def)
qed

lemma length_octet_bits [simp]: "length (octet_bits x) = 8"
  by (simp add: octet_bits_def)

lemma bval_octet_bits: "bval (octet_bits x) = unat x"
  unfolding octet_bits_alt by (rule bval_of_bits) (use unat_byte_less [of x] in simp)

lemma octet_of_bits:
  assumes "length q = 8"
  shows "octet_bits (to_byte (to_i32 (bval q) AND 0xff)) = q"
proof (rule bval_inj)
  have "bval q < 256" using bval_less [of q] assms by simp
  then show "bval (octet_bits (to_byte (to_i32 (bval q) AND 0xff))) = bval q"
    by (simp add: bval_octet_bits unat_to_byte unat_and_255 unat_to_i32)
qed (simp add: assms)

definition octets_bits :: "bytes \<Rightarrow> bool list" where
  "octets_bits bs = concat (map octet_bits bs)"

lemma octets_bits_simps [simp]:
  "octets_bits [] = []" "octets_bits (x # xs) = octet_bits x @ octets_bits xs"
  "octets_bits (xs @ ys) = octets_bits xs @ octets_bits ys"
  by (simp_all add: octets_bits_def)

lemma length_octets_bits [simp]: "length (octets_bits bs) = 8 * length bs"
  by (induction bs) simp_all

lemma octets_bits_inj: "octets_bits a = octets_bits b \<Longrightarrow> a = b"
proof (induction a arbitrary: b)
  case Nil
  then have "8 * length b = 0" by (metis length_octets_bits list.size(3) octets_bits_simps(1))
  then show ?case by simp
next
  case (Cons x a)
  then have "8 * length b = 8 * Suc (length a)" by (metis length_Cons length_octets_bits)
  then obtain y b' where b: "b = y # b'" by (cases b) auto
  with Cons.prems have "octet_bits x = octet_bits y" "octets_bits a = octets_bits b'" by simp_all
  moreover from this(1) have "x = y" by (metis bval_octet_bits unat_inject)
  ultimately show ?case using Cons.IH b by simp
qed

lemma flush_octets_bits:
  "length q = nbits \<Longrightarrow> flush_octets (bval q) nbits out = (acc', nbits', out') \<Longrightarrow>
   \<exists>q'. length q' = nbits' \<and> nbits' < 8 \<and> acc' = bval q' \<and> octets_bits out' @ q' = octets_bits out @ q"
proof (induction "bval q" nbits out arbitrary: q rule: flush_octets.induct)
  case (1 nbits out)
  show ?case
  proof (cases "8 \<le> nbits")
    case True
    let ?a = "take 8 q" let ?r = "drop 8 q"
    have lr: "length ?r = nbits - 8" and la: "length ?a = 8" using 1(2) True by simp_all
    have d: "bval q div 2 ^ (nbits - 8) = bval ?a" and m: "bval q mod 2 ^ (nbits - 8) = bval ?r"
      using bval_append_div [of ?a ?r] bval_append_mod [of ?a ?r] lr by simp_all
    have "flush_octets (bval ?r) (nbits - 8) (out @ [to_byte (to_i32 (bval ?a) AND 0xff)]) = (acc', nbits', out')"
      using 1(3) True d m by (subst (asm) flush_octets.simps) simp
    from 1(1) [OF True m lr] this d
    obtain q' where "length q' = nbits'" "nbits' < 8" "acc' = bval q'"
      "octets_bits out' @ q' = octets_bits (out @ [to_byte (to_i32 (bval ?a) AND 0xff)]) @ ?r" by auto
    then show ?thesis by (simp add: octet_of_bits [OF la]) blast
  next
    case False
    with 1 show ?thesis by (subst (asm) flush_octets.simps) (auto intro: exI [of _ q])
  qed
qed

lemma encode_loop_bits:
  "length q = nbits \<Longrightarrow> nbits < 8 \<Longrightarrow> encode_loop bs (bval q) nbits out = (acc', nbits', out') \<Longrightarrow>
   \<exists>q'. length q' = nbits' \<and> nbits' < 8 \<and> acc' = bval q'
        \<and> octets_bits out' @ q' = octets_bits out @ q @ symbol_bits bs"
proof (induction bs arbitrary: q nbits out)
  case Nil
  then show ?case by (auto simp: symbol_bits_def intro: exI [of _ q])
next
  case (Cons b bs)
  let ?s = "unat b"
  have b: "?s < 257" using unat_byte_less [of b] by simp
  obtain acc1 nb1 out1 where
    f: "flush_octets (bval q * 2 ^ (HUFFMAN_LEN ! ?s) + HUFFMAN_CODE ! ?s) (nbits + HUFFMAN_LEN ! ?s) out = (acc1, nb1, out1)"
    by (metis prod_cases3)
  have "bval (q @ code_bits ?s) = bval q * 2 ^ (HUFFMAN_LEN ! ?s) + HUFFMAN_CODE ! ?s"
    by (simp add: bval_append bval_code_bits [OF b])
  with f have "flush_octets (bval (q @ code_bits ?s)) (nbits + HUFFMAN_LEN ! ?s) out = (acc1, nb1, out1)" by simp
  from flush_octets_bits [OF _ this] Cons.prems(1)
  obtain q1 where q1: "length q1 = nb1" "nb1 < 8" "acc1 = bval q1"
    "octets_bits out1 @ q1 = octets_bits out @ q @ code_bits ?s" by auto
  have "encode_loop bs (bval q1) nb1 out1 = (acc', nbits', out')" using Cons.prems(3) f q1(3) by simp
  from Cons.IH [OF q1(1,2) this] q1(4) show ?case by (auto simp: symbol_bits_def)
qed

lemma bval_ones: "bval (replicate n True) = 2 ^ n - 1"
proof -
  have "bval (replicate n True) + 1 = 2 ^ n"
  proof (induction n)
    case (Suc n)
    have "replicate (Suc n) True = replicate n True @ [True]" by (simp add: replicate_append_same)
    with Suc show ?case by (simp only: bval_snoc) simp
  qed simp
  then show ?thesis by simp
qed

lemma huffmanEncode_bits:
  "\<exists>k < 8. octets_bits (huffmanEncode bs) = symbol_bits bs @ replicate k True"
proof -
  obtain acc nbits out where e: "encode_loop bs 0 0 [] = (acc, nbits, out)" by (metis prod_cases3)
  with encode_loop_bits [of "[]" 0 bs "[]" acc nbits out]
  obtain q where q: "length q = nbits" "nbits < 8" "acc = bval q" "octets_bits out @ q = symbol_bits bs" by auto
  show ?thesis
  proof (cases "nbits > 0")
    case True
    let ?q = "q @ replicate (8 - nbits) True"
    have "acc * 2 ^ (8 - nbits) + (2 ^ (8 - nbits) - 1) = bval ?q"
      by (simp add: bval_append bval_ones q(3))
    moreover have "length ?q = 8" using q by simp
    ultimately have "octets_bits (huffmanEncode bs) = octets_bits out @ ?q"
      using True e by (simp add: huffmanEncode_def Let_def octet_of_bits)
    then show ?thesis using q True by (intro exI [of _ "8 - nbits"]) (simp flip: q(4))
  next
    case False
    with e q show ?thesis by (intro exI [of _ 0]) (simp add: huffmanEncode_def)
  qed
qed

lemma length_symbol_bits: "length (symbol_bits bs) = encoded_bits bs"
  by (induction bs) (simp_all add: symbol_bits_def)

lemma length_huffmanEncode: "length (huffmanEncode bs) = huffmanEncodedLength bs"
proof -
  obtain k where "k < 8" "octets_bits (huffmanEncode bs) = symbol_bits bs @ replicate k True"
    using huffmanEncode_bits by blast
  then have "8 * length (huffmanEncode bs) = encoded_bits bs + k"
    by (metis length_append length_octets_bits length_replicate length_symbol_bits)
  with \<open>k < 8\<close> show ?thesis unfolding huffmanEncodedLength_def by linarith
qed

subsection \<open>The decoder accepts exactly the encodings\<close>

lemma huffmanDecode_octets:
  "huffmanDecode bs =
     bindE (huff_bits buildTrie (octets_bits bs) huff_start) (\<lambda>st.
       if hdepth st \<le> 7 \<and> (hdepth st > 0 \<longrightarrow> hones st) then Inr (hout st)
       else Inl (Thrown Http2Error (Http2 HTTP2_COMPRESSION)))"
  unfolding huffmanDecode_def huff_octets_bits octets_bits_def
  by (rule bindE_cong) auto

lemma inside_ones: "k < 8 \<Longrightarrow> inside (replicate k True)"
proof -
  assume "k < 8"
  then have "prefix (replicate k True) (code_bits 256)" by (intro ones_prefix) simp
  moreover have "length (code_bits 256) = 30" by (simp add: HUFFMAN_LEN_def)
  with \<open>k < 8\<close> have "replicate k True \<noteq> code_bits 256" by (metis length_replicate less_irrefl less_trans numeral_less_iff semiring_norm(76,78,81))
  ultimately show ?thesis unfolding inside_def strict_prefix_def by (intro exI [of _ 256]) simp
qed

lemma huffman_round_trip: "huffmanDecode (huffmanEncode bs) = Inr bs"
proof -
  obtain k where k: "k < 8" "octets_bits (huffmanEncode bs) = symbol_bits bs @ replicate k True"
    using huffmanEncode_bits by blast
  obtain st1 where st1: "huff_bits buildTrie (symbol_bits bs) huff_start = Inr st1" "huff_at bs [] st1"
    using huff_bits_symbols [OF huff_start_at, of bs] by auto
  obtain st2 where "huff_bits buildTrie (replicate k True) st1 = Inr st2" "huff_at bs (replicate k True) st2"
    using huff_bits_inside [OF inside_ones [OF k(1)] st1(2)] by auto
  with st1 k show ?thesis
    by (simp add: huffmanDecode_octets huff_bits_append huff_at_def list_all_iff)
qed

lemma huffman_canonical:
  assumes "huffmanDecode b = Inr s"
  shows "huffmanEncode s = b"
proof -
  obtain st where st: "huff_bits buildTrie (octets_bits b) huff_start = Inr st"
    "hdepth st \<le> 7" "hdepth st > 0 \<longrightarrow> hones st" "hout st = s"
    using assms by (auto simp: huffmanDecode_octets bindE_Inr_conv split: if_splits)
  obtain out q where oq: "huff_at out q st" "octets_bits b = symbol_bits out @ q"
    using huff_bits_inv [OF huff_start_at st(1)] by auto
  then have out: "out = s" and q: "length q \<le> 7" "list_all id q"
    using st by (auto simp: huff_at_def)
  have q_ones: "q = replicate (length q) True"
    using q(2) by (induction q) auto
  obtain k where k: "k < 8" "octets_bits (huffmanEncode s) = symbol_bits s @ replicate k True"
    using huffmanEncode_bits by blast
  have "8 * length (huffmanEncode s) = length (symbol_bits s) + k"
    by (metis k(2) length_append length_octets_bits length_replicate)
  moreover have "8 * length b = length (symbol_bits s) + length q"
    by (metis oq(2) out length_append length_octets_bits)
  ultimately have "k = length q" using k(1) q(1) by presburger
  then have "octets_bits (huffmanEncode s) = octets_bits b" using k(2) oq(2) out q_ones by simp
  then show ?thesis by (rule octets_bits_inj)
qed

lemma huff_bits_error:
  "huff_bits t bs st = Inl e \<Longrightarrow> e = Thrown Http2Error (Http2 HTTP2_COMPRESSION)"
  by (induction bs arbitrary: st)
     (auto simp: bindE_Inl_conv huff_bit_def Let_def split: option.splits if_splits)

lemma huffmanDecode_error:
  "huffmanDecode b = Inl e \<Longrightarrow> e = Thrown Http2Error (Http2 HTTP2_COMPRESSION)"
  by (auto simp: huffmanDecode_octets bindE_Inl_conv huff_bits_error split: if_splits)

end
