(* ===== verification/Utf8.thy ===== *)
theory Utf8
  imports Bytes
begin

text \<open>
  JavaScript strings as the standard library sees them: lists of UTF-16 code units (\<open>jsstr\<close>). The
  parts of the WHATWG Encoding standard that the source uses, \<open>new TextEncoder().encode\<close>
  (\<open>utf8\<close> in \<open>src/util/bytes.js\<close>) and \<open>new TextDecoder('utf-8', { fatal: false }).decode\<close>
  (\<open>src/http2/hpack.js\<close>), are written out, with lone surrogates, ill-formed octets and the byte
  order mark treated as the standard says.
\<close>

subsection \<open>Strings\<close>

text \<open>The scalar values of a string: surrogate pairs are joined, lone surrogates become U+FFFD.\<close>

fun usv :: "jsstr \<Rightarrow> nat list" where
  "usv [] = []"
| "usv [u] = [if 0xD800 \<le> u \<and> u < 0xE000 then 0xFFFD else u]"
| "usv (u # v # r) =
     (if 0xD800 \<le> u \<and> u < 0xDC00 then
        (if 0xDC00 \<le> v \<and> v < 0xE000 then (0x10000 + (u - 0xD800) * 0x400 + (v - 0xDC00)) # usv r
         else 0xFFFD # usv (v # r))
      else if 0xDC00 \<le> u \<and> u < 0xE000 then 0xFFFD # usv (v # r)
      else u # usv (v # r))"

definition utf16_char :: "nat \<Rightarrow> jsstr" where
  "utf16_char c =
     (if c < 0x10000 then [c] else [0xD800 + (c - 0x10000) div 0x400, 0xDC00 + (c - 0x10000) mod 0x400])"

definition utf16 :: "nat list \<Rightarrow> jsstr" where
  "utf16 cs = concat (map utf16_char cs)"

subsection \<open>Encoder\<close>

definition utf8_char :: "nat \<Rightarrow> nat list" where
  "utf8_char c =
     (if c < 0x80 then [c]
      else if c < 0x800 then [0xC0 + c div 0x40, 0x80 + c mod 0x40]
      else if c < 0x10000 then [0xE0 + c div 0x1000, 0x80 + c div 0x40 mod 0x40, 0x80 + c mod 0x40]
      else [0xF0 + c div 0x40000, 0x80 + c div 0x1000 mod 0x40, 0x80 + c div 0x40 mod 0x40, 0x80 + c mod 0x40])"

definition utf8 :: "jsstr \<Rightarrow> bytes" where
  "utf8 s = map word_of_nat (concat (map utf8_char (usv s)))"

subsection \<open>Decoder\<close>

text \<open>
  The decoder's state: the code point so far, the continuation octets still needed and the bounds
  of the next one. \<open>utf8_lead\<close> is the step from the initial state: what is emitted and the new state.
\<close>

definition utf8_lead :: "nat \<Rightarrow> nat list \<times> nat \<times> nat \<times> nat \<times> nat" where
  "utf8_lead b =
     (if b < 0x80 then ([b], 0, 0, 0x80, 0xBF)
      else if 0xC2 \<le> b \<and> b \<le> 0xDF then ([], b - 0xC0, 1, 0x80, 0xBF)
      else if 0xE0 \<le> b \<and> b \<le> 0xEF then
        ([], b - 0xE0, 2, if b = 0xE0 then 0xA0 else 0x80, if b = 0xED then 0x9F else 0xBF)
      else if 0xF0 \<le> b \<and> b \<le> 0xF4 then
        ([], b - 0xF0, 3, if b = 0xF0 then 0x90 else 0x80, if b = 0xF4 then 0x8F else 0xBF)
      else ([0xFFFD], 0, 0, 0x80, 0xBF))"

fun utf8_run :: "nat \<Rightarrow> nat \<Rightarrow> nat \<Rightarrow> nat \<Rightarrow> nat list \<Rightarrow> nat list" where
  "utf8_run cp need lo hi [] = (if need = 0 then [] else [0xFFFD])"
| "utf8_run cp need lo hi (b # bs) =
     (if need = 0 then (case utf8_lead b of (e, cp', need', lo', hi') \<Rightarrow> e @ utf8_run cp' need' lo' hi' bs)
      else if b < lo \<or> hi < b then
        0xFFFD # (case utf8_lead b of (e, cp', need', lo', hi') \<Rightarrow> e @ utf8_run cp' need' lo' hi' bs)
      else (let cp' = cp * 0x40 + b mod 0x40
            in if need = 1 then cp' # utf8_run 0 0 0x80 0xBF bs else utf8_run cp' (need - 1) 0x80 0xBF bs))"

definition strip_bom :: "nat list \<Rightarrow> nat list" where
  "strip_bom cs = (case cs of [] \<Rightarrow> [] | c # r \<Rightarrow> if c = 0xFEFF then r else cs)"

definition utf8_decode :: "bytes \<Rightarrow> jsstr" where
  "utf8_decode b = utf16 (strip_bom (utf8_run 0 0 0x80 0xBF (map unat b)))"

subsection \<open>Round trip\<close>

definition scalar :: "nat \<Rightarrow> bool" where
  "scalar c \<longleftrightarrow> c < 0xD800 \<or> 0xE000 \<le> c \<and> c < 0x110000"

definition code_unit :: "nat \<Rightarrow> bool" where
  "code_unit u \<longleftrightarrow> u < 0x10000"

lemma scalar_joined:
  "0xD800 \<le> u \<Longrightarrow> u < 0xDC00 \<Longrightarrow> 0xDC00 \<le> v \<Longrightarrow> v < 0xE000 \<Longrightarrow>
   scalar (0x10000 + (u - 0xD800) * 0x400 + (v - 0xDC00))"
  by (auto simp: scalar_def)

lemma scalar_fffd: "scalar 0xFFFD"
  by (simp add: scalar_def)

lemma scalar_unit: "code_unit u \<Longrightarrow> \<not> (0xD800 \<le> u \<and> u < 0xE000) \<Longrightarrow> scalar u"
  by (auto simp: scalar_def code_unit_def)

lemma usv_scalar: "list_all code_unit s \<Longrightarrow> list_all scalar (usv s)"
proof (induction s rule: usv.induct)
  case (2 u)
  then show ?case using scalar_fffd scalar_unit [of u] by simp
next
  case (3 u v r)
  consider "0xD800 \<le> u" "u < 0xDC00" "0xDC00 \<le> v" "v < 0xE000"
    | "0xD800 \<le> u" "u < 0xDC00" "\<not> (0xDC00 \<le> v \<and> v < 0xE000)"
    | "0xDC00 \<le> u" "u < 0xE000" | "\<not> (0xD800 \<le> u \<and> u < 0xE000)" by linarith
  then show ?case
  proof cases
    case 1
    with 3 scalar_joined [of u v] show ?thesis by simp
  next
    case 2
    with 3 scalar_fffd show ?thesis by auto
  next
    case 3
    with "3.IH" "3.prems" scalar_fffd show ?thesis by simp
  next
    case 4
    with "3.IH" "3.prems" scalar_unit [of u] show ?thesis by auto
  qed
qed simp

lemma cont_low:
  assumes "l < (0x40 :: nat)"
  shows "(0x80 + l) mod 0x40 = l"
proof -
  have "(0x80 + l) mod 0x40 = (l + 2 * 0x40) mod 0x40" by (simp add: add.commute)
  also have "\<dots> = l mod 0x40" by (rule mod_mult_self1)
  finally show ?thesis using assms by simp
qed

lemma utf8_run_2:
  assumes "h < 0x20" "l < 0x40" "2 \<le> h"
  shows "utf8_run 0 0 0x80 0xBF ((0xC0 + h) # (0x80 + l) # bs) = (h * 0x40 + l) # utf8_run 0 0 0x80 0xBF bs"
proof -
  have "utf8_lead (0xC0 + h) = ([], h, 1, 0x80, 0xBF)" using assms by (simp add: utf8_lead_def)
  moreover have "(0x80 + l) mod 0x40 = l" by (rule cont_low) fact
  ultimately show ?thesis using assms by simp
qed

lemma utf8_run_3:
  assumes "h < 0x10" "m < 0x40" "l < 0x40" "0x20 \<le> h * 0x40 + m" "h = 0xD \<longrightarrow> m < 0x20"
  shows "utf8_run 0 0 0x80 0xBF ((0xE0 + h) # (0x80 + m) # (0x80 + l) # bs)
       = ((h * 0x40 + m) * 0x40 + l) # utf8_run 0 0 0x80 0xBF bs"
proof -
  have "utf8_lead (0xE0 + h) = ([], h, 2, if h = 0 then 0xA0 else 0x80, if h = 0xD then 0x9F else 0xBF)"
    using assms by (auto simp: utf8_lead_def)
  moreover have "(0x80 + l) mod 0x40 = l" "(0x80 + m) mod 0x40 = m" by (rule cont_low; fact)+
  ultimately show ?thesis using assms by (cases "h = 0"; cases "h = 0xD") simp_all
qed

lemma utf8_run_4:
  assumes "h < 5" "n < 0x40" "m < 0x40" "l < 0x40" "0x10 \<le> h * 0x40 + n" "h = 4 \<longrightarrow> n < 0x10"
  shows "utf8_run 0 0 0x80 0xBF ((0xF0 + h) # (0x80 + n) # (0x80 + m) # (0x80 + l) # bs)
       = (((h * 0x40 + n) * 0x40 + m) * 0x40 + l) # utf8_run 0 0 0x80 0xBF bs"
proof -
  have "utf8_lead (0xF0 + h) = ([], h, 3, if h = 0 then 0x90 else 0x80, if h = 4 then 0x8F else 0xBF)"
    using assms by (auto simp: utf8_lead_def)
  moreover have "(0x80 + l) mod 0x40 = l" "(0x80 + m) mod 0x40 = m" "(0x80 + n) mod 0x40 = n"
    by (rule cont_low; fact)+
  ultimately show ?thesis using assms by (cases "h = 0"; cases "h = 4") simp_all
qed

lemma utf8_run_char:
  assumes "scalar c"
  shows "utf8_run 0 0 0x80 0xBF (utf8_char c @ bs) = c # utf8_run 0 0 0x80 0xBF bs"
proof -
  let ?l = "c mod 0x40" and ?m = "c div 0x40 mod 0x40" and ?n = "c div 0x1000 mod 0x40"
  have l: "?l < 0x40" and m: "?m < 0x40" and n: "?n < 0x40" by simp_all
  have d2: "c div 0x40 div 0x40 = c div 0x1000" and d3: "c div 0x1000 div 0x40 = c div 0x40000"
    by (simp_all flip: div_mult2_eq)
  have e1: "c div 0x40 * 0x40 + ?l = c" by simp
  have e2: "c div 0x1000 * 0x40 + ?m = c div 0x40" using d2 div_mult_mod_eq [of "c div 0x40" "0x40"] by simp
  have e3: "c div 0x40000 * 0x40 + ?n = c div 0x1000" using d3 div_mult_mod_eq [of "c div 0x1000" "0x40"] by simp
  consider "c < 0x80" | "0x80 \<le> c" "c < 0x800" | "0x800 \<le> c" "c < 0x10000" | "0x10000 \<le> c" by linarith
  then show ?thesis
  proof cases
    case 1
    then show ?thesis by (simp add: utf8_char_def utf8_lead_def)
  next
    case 2
    then have "c div 0x40 < 0x20" "2 \<le> c div 0x40" by auto
    from utf8_run_2 [OF this(1) l this(2)] 2 e1 show ?thesis by (simp add: utf8_char_def)
  next
    case 3
    have "c div 0x1000 < 0x10" "0x20 \<le> c div 0x40" using 3 by auto
    moreover have "?m < 0x20" if "c div 0x1000 = 0xD"
    proof -
      have "c < 0xE000" using dividend_less_div_times [of "0x1000" c] that by simp
      then have "c < 0xD800" using assms by (auto simp: scalar_def)
      then have "c div 0x40 < 0x360" by auto
      with e2 that show ?thesis by simp
    qed
    ultimately show ?thesis
      using utf8_run_3 [of "c div 0x1000" ?m ?l bs] m l e1 e2 3 by (simp add: utf8_char_def)
  next
    case 4
    then have "c < 0x110000" using assms by (auto simp: scalar_def)
    then have "c div 0x40000 < 5" "0x10 \<le> c div 0x1000" using 4 by auto
    moreover have "?n < 0x10" if "c div 0x40000 = 4"
    proof -
      have "c div 0x1000 < 0x110" using \<open>c < 0x110000\<close> by auto
      with e3 that show ?thesis by simp
    qed
    ultimately show ?thesis
      using utf8_run_4 [of "c div 0x40000" ?n ?m ?l bs] n m l e1 e2 e3 4 by (simp add: utf8_char_def)
  qed
qed

lemma utf8_run_chars:
  "list_all scalar cs \<Longrightarrow> utf8_run 0 0 0x80 0xBF (concat (map utf8_char cs)) = cs"
  by (induction cs) (simp_all add: utf8_run_char del: utf8_run.simps(2))

lemma utf8_char_octets: "scalar c \<Longrightarrow> list_all (\<lambda>b. b < 256) (utf8_char c)"
  unfolding utf8_char_def scalar_def by (auto intro: less_le_trans)

lemma map_unat_octets: "list_all (\<lambda>b. b < 256) bs \<Longrightarrow> map (\<lambda>b. unat (word_of_nat b :: byte)) bs = bs"
  by (induction bs) (simp_all add: unsigned_of_nat take_bit_nat_eq_self)

lemma unat_utf8:
  assumes "list_all code_unit s"
  shows "map unat (utf8 s) = concat (map utf8_char (usv s))"
proof -
  have "list_all (\<lambda>b. b < 256) (concat (map utf8_char (usv s)))"
    using usv_scalar [OF assms] utf8_char_octets by (induction "usv s" arbitrary: s) (auto simp: list_all_iff)
  from map_unat_octets [OF this] show ?thesis by (simp add: utf8_def comp_def)
qed

text \<open>A string without lone surrogates and without a leading byte order mark.\<close>

definition clean_text :: "jsstr \<Rightarrow> bool" where
  "clean_text s \<longleftrightarrow> list_all code_unit s \<and> utf16 (usv s) = s \<and> (s \<noteq> [] \<longrightarrow> hd s \<noteq> 0xFEFF)"

theorem utf8_round_trip:
  "list_all code_unit s \<Longrightarrow> utf8_decode (utf8 s) = utf16 (strip_bom (usv s))"
  by (simp add: utf8_decode_def unat_utf8 utf8_run_chars usv_scalar)

lemma utf8_clean:
  assumes "clean_text s"
  shows "utf8_decode (utf8 s) = s"
proof -
  have s: "utf16 (usv s) = s" "list_all code_unit s" "s \<noteq> [] \<longrightarrow> hd s \<noteq> 0xFEFF"
    using assms by (simp_all add: clean_text_def)
  have "strip_bom (usv s) = usv s"
  proof (cases "usv s")
    case (Cons c r)
    then have "c = 0xFEFF \<Longrightarrow> hd s = 0xFEFF \<and> s \<noteq> []"
      using s(1) by (auto simp: utf16_def utf16_char_def)
    then show ?thesis using s(3) Cons by (auto simp: strip_bom_def)
  qed (simp add: strip_bom_def)
  with s show ?thesis by (simp add: utf8_round_trip)
qed

lemma usv_ascii: "list_all (\<lambda>u. u < 0x80) s \<Longrightarrow> usv s = s"
  by (induction s rule: usv.induct) auto

lemma clean_ascii: "list_all (\<lambda>u. u < 0x80) s \<Longrightarrow> clean_text s"
proof -
  assume a: "list_all (\<lambda>u. u < 0x80) s"
  then have "utf16 s = s" by (induction s) (auto simp: utf16_def utf16_char_def)
  moreover have "list_all code_unit s" using a by (auto simp: list_all_iff code_unit_def)
  moreover have "s \<noteq> [] \<longrightarrow> hd s \<noteq> 0xFEFF" using a by (cases s) auto
  ultimately show ?thesis using usv_ascii [OF a] by (simp add: clean_text_def)
qed

subsection \<open>A decoded string is no longer than its octets\<close>

lemma length_utf16_Cons: "length (utf16 (c # cs)) \<le> 2 + length (utf16 cs)"
  "c < 0x10000 \<Longrightarrow> length (utf16 (c # cs)) = 1 + length (utf16 cs)"
  by (simp_all add: utf16_def utf16_char_def)

lemma utf8_lead_emits:
  assumes "utf8_lead b = (e, cp, need, lo, hi)"
  shows "(\<exists>c. e = [c] \<and> c < 0x10000 \<and> need = 0) \<or> e = [] \<and> need > 0"
  using assms by (auto simp: utf8_lead_def split: if_splits)

lemma length_utf8_run:
  "length (utf16 (utf8_run cp need lo hi bs)) \<le> length bs + (if need = 0 then 0 else 1)"
proof (induction cp need lo hi bs rule: utf8_run.induct)
  case (1 cp need lo hi)
  then show ?case by (simp add: utf16_def utf16_char_def)
next
  case (2 cp need lo hi b bs)
  obtain e cp' need' lo' hi' where l: "utf8_lead b = (e, cp', need', lo', hi')"
    by (metis prod_cases5)
  have lead: "length (utf16 (e @ utf8_run cp' need' lo' hi' bs)) \<le> length bs + 1"
    if "length (utf16 (utf8_run cp' need' lo' hi' bs)) \<le> length bs + (if need' = 0 then 0 else 1)"
    using utf8_lead_emits [OF l] that by (auto simp: length_utf16_Cons)
  consider "need = 0" | "need \<noteq> 0" "b < lo \<or> hi < b" | "need = 1" "\<not> (b < lo \<or> hi < b)"
    | "need \<noteq> 0" "need \<noteq> 1" "\<not> (b < lo \<or> hi < b)" by blast
  then show ?case
  proof cases
    case 1
    with 2 l lead show ?thesis by simp
  next
    case 2
    with "2.IH" l lead show ?thesis by (simp add: length_utf16_Cons)
  next
    case 3
    then show ?thesis
      using "2.IH"(3) length_utf16_Cons(1) [of "cp * 64 + b mod 64" "utf8_run 0 0 128 191 bs"]
      by (simp add: Let_def)
  next
    case 4
    with "2.IH"(4) show ?thesis by (simp add: Let_def)
  qed
qed

lemma length_utf8_decode: "length (utf8_decode b) \<le> length b"
proof -
  have "length (utf16 (strip_bom cs)) \<le> length (utf16 cs)" for cs
    by (cases cs) (auto simp: strip_bom_def utf16_def)
  then show ?thesis
    using length_utf8_run [of 0 0 128 191 "map unat b"] by (auto simp: utf8_decode_def intro: le_trans)
qed

end
