(* ===== verification/Hpack.thy ===== *)
theory Hpack
  imports Readers Huffman_Correct Utf8
begin

text \<open>
  \<open>src/http2/hpack.js\<close>: HPACK integers and string literals, the decoder with its dynamic table,
  and the stateless encoder. The decoder's state is the record \<open>hpack_decoder\<close>; an operation that
  may throw returns its result beside the state, because the state survives a throw. Sizes are
  counted the way the code counts them, in UTF-16 code units.
\<close>

subsection \<open>Tables and constants\<close>

definition STATIC_TABLE :: "(jsstr \<times> jsstr) list" where
  "STATIC_TABLE = map (\<lambda>(n, v). (js n, js v)) [
    ('''', ''''), ('':authority'', ''''), ('':method'', ''GET''), ('':method'', ''POST''),
    ('':path'', ''/''), ('':path'', ''/index.html''), ('':scheme'', ''http''),
    ('':scheme'', ''https''), ('':status'', ''200''), ('':status'', ''204''),
    ('':status'', ''206''), ('':status'', ''304''), ('':status'', ''400''),
    ('':status'', ''404''), ('':status'', ''500''), (''accept-charset'', ''''),
    (''accept-encoding'', ''gzip, deflate''), (''accept-language'', ''''),
    (''accept-ranges'', ''''), (''accept'', ''''), (''access-control-allow-origin'', ''''),
    (''age'', ''''), (''allow'', ''''), (''authorization'', ''''), (''cache-control'', ''''),
    (''content-disposition'', ''''), (''content-encoding'', ''''), (''content-language'', ''''),
    (''content-length'', ''''), (''content-location'', ''''), (''content-range'', ''''),
    (''content-type'', ''''), (''cookie'', ''''), (''date'', ''''), (''etag'', ''''),
    (''expect'', ''''), (''expires'', ''''), (''from'', ''''), (''host'', ''''),
    (''if-match'', ''''), (''if-modified-since'', ''''), (''if-none-match'', ''''),
    (''if-range'', ''''), (''if-unmodified-since'', ''''), (''last-modified'', ''''),
    (''link'', ''''), (''location'', ''''), (''max-forwards'', ''''),
    (''proxy-authenticate'', ''''), (''proxy-authorization'', ''''), (''range'', ''''),
    (''referer'', ''''), (''refresh'', ''''), (''retry-after'', ''''), (''server'', ''''),
    (''set-cookie'', ''''), (''strict-transport-security'', ''''), (''transfer-encoding'', ''''),
    (''user-agent'', ''''), (''vary'', ''''), (''via'', ''''), (''www-authenticate'', '''')]"

definition STATIC_COUNT :: nat where [simp]: "STATIC_COUNT = 61"
definition ENTRY_OVERHEAD :: nat where [simp]: "ENTRY_OVERHEAD = 32"
definition DEFAULT_HEADER_TABLE_SIZE :: nat where [simp]: "DEFAULT_HEADER_TABLE_SIZE = 4096"
definition MAX_INTEGER_CONTINUATION_BYTES :: nat where [simp]: "MAX_INTEGER_CONTINUATION_BYTES = 6"

definition compression_error :: tf_error where
  "compression_error = Thrown Http2Error (Http2 HTTP2_COMPRESSION)"

subsection \<open>Integers and strings\<close>

text \<open>The continuation octets: \<open>count\<close> of them have been read, \<open>m\<close> is the weight of the next.\<close>

function integer_loop :: "bytes \<Rightarrow> nat \<Rightarrow> nat \<Rightarrow> nat \<Rightarrow> nat \<Rightarrow> tf_error + (nat \<times> nat)" where
  "integer_loop buf pos value m count =
     (if pos \<ge> length buf then Inl compression_error
      else if count + 1 > MAX_INTEGER_CONTINUATION_BYTES then Inl compression_error
      else
        (let b = octet_at buf pos;
             value' = value + unat (b AND 0x7f) * 2 ^ m
         in if value' > max_safe_integer then Inl compression_error
            else if b AND 0x80 = 0 then Inr (value', pos + 1)
            else integer_loop buf (pos + 1) value' (m + 7) (count + 1)))"
  by pat_completeness auto
termination
  by (relation "measure (\<lambda>(buf, pos, value, m, count). length buf - pos)") auto

declare integer_loop.simps [simp del]

definition decodeInteger :: "bytes \<Rightarrow> nat \<Rightarrow> nat \<Rightarrow> tf_error + (nat \<times> nat)" where
  "decodeInteger buf pos n =
     (let mx = 2 ^ n - 1
      in if pos \<ge> length buf then Inl compression_error
         else
           (let value = unat (octet_at buf pos AND to_i32 mx)
            in if value < mx then Inr (value, pos + 1)
               else integer_loop buf (pos + 1) value 0 0))"

definition decodeString :: "bytes \<Rightarrow> nat \<Rightarrow> tf_error + (bytes \<times> nat)" where
  "decodeString buf pos =
     (if pos \<ge> length buf then Inl compression_error
      else
        (let huffman = octet_at buf pos AND 0x80 \<noteq> 0
         in bindE (decodeInteger buf pos 7) (\<lambda>(len, p).
              if p + len > length buf then Inl compression_error
              else
                (let raw = take len (drop p buf)
                 in bindE (if huffman then huffmanDecode raw else Inr raw)
                      (\<lambda>b. Inr (b, p + len))))))"

text \<open>The octets after the prefix; \<open>v\<close> is what the prefix left over.\<close>

function integer_octets :: "nat \<Rightarrow> bytes" where
  "integer_octets v =
     (if v \<ge> 0x80 then to_byte ((to_i32 v AND 0x7f) OR 0x80) # integer_octets (v div 128)
      else [to_byte (to_i32 v)])"
  by pat_completeness auto
termination
  by (relation "measure id") auto

declare integer_octets.simps [simp del]

definition encodeInteger :: "nat \<Rightarrow> nat \<Rightarrow> nat \<Rightarrow> bytes" where
  "encodeInteger value n prefixBits =
     (let mx = 2 ^ n - 1
      in if value < mx then [to_byte (to_i32 prefixBits OR to_i32 value)]
         else to_byte (to_i32 prefixBits OR to_i32 mx) # integer_octets (value - mx))"

definition encodeString :: "bytes \<Rightarrow> bytes" where
  "encodeString b =
     (if huffmanEncodedLength b < length b
      then (let packed = huffmanEncode b in encodeInteger (length packed) 7 0x80 @ packed)
      else encodeInteger (length b) 7 0x00 @ b)"

subsection \<open>The decoder\<close>

type_synonym header = "jsstr \<times> jsstr"

text \<open>An entry of the dynamic table: name, value and the size charged for it. Newest first.\<close>

record hpack_decoder =
  hp_dynamic :: "(jsstr \<times> jsstr \<times> nat) list"
  hp_size :: nat
  hp_maxSize :: nat
  hp_limit :: nat
  hp_maxHeaderListSize :: nat

definition new_HpackDecoder :: "nat \<Rightarrow> nat \<Rightarrow> hpack_decoder" where
  "new_HpackDecoder maxTableSize maxHeaderListSize =
     \<lparr> hp_dynamic = [], hp_size = 0, hp_maxSize = maxTableSize, hp_limit = maxTableSize,
       hp_maxHeaderListSize = maxHeaderListSize \<rparr>"

definition dynamicLength :: "hpack_decoder \<Rightarrow> nat" where
  "dynamicLength d = length (hp_dynamic d)"

definition hp_lookup :: "hpack_decoder \<Rightarrow> nat \<Rightarrow> tf_error + header" where
  "hp_lookup d i =
     (if i = 0 then Inl compression_error
      else if i \<le> STATIC_COUNT then Inr (STATIC_TABLE ! i)
      else
        (let k = i - STATIC_COUNT - 1
         in if k \<ge> length (hp_dynamic d) then Inl compression_error
            else (case hp_dynamic d ! k of (name, value, _) \<Rightarrow> Inr (name, value))))"

text \<open>
  The eviction loop of \<open>_insert\<close> (\<open>extra\<close> is the size of the new entry) and of \<open>_resize\<close>
  (\<open>extra = 0\<close>).
\<close>

function hp_evict :: "nat \<Rightarrow> hpack_decoder \<Rightarrow> hpack_decoder" where
  "hp_evict extra d =
     (if hp_size d + extra > hp_maxSize d \<and> hp_dynamic d \<noteq> []
      then hp_evict extra
             (d\<lparr>hp_size := hp_size d - snd (snd (last (hp_dynamic d))), hp_dynamic := butlast (hp_dynamic d)\<rparr>)
      else d)"
  by pat_completeness auto
termination
  by (relation "measure (\<lambda>(extra, d). length (hp_dynamic d))") auto

declare hp_evict.simps [simp del]

definition hp_insert :: "jsstr \<Rightarrow> jsstr \<Rightarrow> hpack_decoder \<Rightarrow> hpack_decoder" where
  "hp_insert name value d =
     (let entrySize = length name + length value + ENTRY_OVERHEAD;
          d1 = hp_evict entrySize d
      in if entrySize \<le> hp_maxSize d1
         then d1\<lparr>hp_dynamic := (name, value, entrySize) # hp_dynamic d1, hp_size := hp_size d1 + entrySize\<rparr>
         else d1)"

definition hp_resize :: "nat \<Rightarrow> hpack_decoder \<Rightarrow> tf_error + hpack_decoder" where
  "hp_resize newSize d =
     (if newSize > hp_limit d then Inl compression_error
      else Inr (hp_evict 0 (d\<lparr>hp_maxSize := newSize\<rparr>)))"

text \<open>The closure \<open>add\<close> of \<open>decode\<close>, on the pair of \<open>listSize\<close> and \<open>out\<close>.\<close>

definition hp_add :: "nat \<Rightarrow> header \<Rightarrow> nat \<times> header list \<Rightarrow> tf_error + (nat \<times> header list)" where
  "hp_add maxList h acc =
     (case (h, acc) of ((name, value), (listSize, out)) \<Rightarrow>
        (let listSize' = listSize + length name + length value + ENTRY_OVERHEAD
         in if listSize' > maxList then Inl (Thrown LimitError (Http2 HTTP2_HEADER))
            else Inr (listSize', out @ [(name, value)])))"

text \<open>\<open>_literal\<close> up to the call of \<open>add\<close>: the field and the position after it.\<close>

definition hp_literal :: "bytes \<Rightarrow> nat \<Rightarrow> nat \<Rightarrow> hpack_decoder \<Rightarrow> tf_error + (header \<times> nat)" where
  "hp_literal block pos prefixBits d =
     bindE (decodeInteger block pos prefixBits) (\<lambda>(nameIdx, p1).
     bindE (if nameIdx = 0
            then bindE (decodeString block p1) (\<lambda>(s, p). Inr (utf8_decode s, p))
            else bindE (hp_lookup d nameIdx) (\<lambda>(n, _). Inr (n, p1))) (\<lambda>(name, p).
     bindE (decodeString block p) (\<lambda>(vs, p').
       Inr ((name, utf8_decode vs), p'))))"

lemma integer_loop_progress: "integer_loop buf pos value m count = Inr (v, p) \<Longrightarrow> pos < p"
proof (induction buf pos "value" m count rule: integer_loop.induct)
  case (1 buf pos val m count)
  from "1.prems" show ?case
    by (subst (asm) integer_loop.simps) (auto simp: Let_def dest: "1.IH" [OF _ _ refl refl] split: if_splits)
qed

lemma decodeInteger_progress: "decodeInteger buf pos n = Inr (v, p) \<Longrightarrow> pos < p"
  by (auto simp: decodeInteger_def Let_def dest: integer_loop_progress split: if_splits)

lemma decodeString_progress: "decodeString buf pos = Inr (b, p) \<Longrightarrow> pos < p"
  by (auto simp: decodeString_def Let_def bindE_Inr_conv dest!: decodeInteger_progress split: if_splits)

lemma hp_literal_progress: "hp_literal block pos n d = Inr (h, p) \<Longrightarrow> pos < p"
  by (fastforce simp: hp_literal_def bindE_Inr_conv dest!: decodeInteger_progress decodeString_progress
      split: if_splits)

text \<open>The loop of \<open>decode\<close>.\<close>

function hp_decode_loop ::
  "bytes \<Rightarrow> nat \<Rightarrow> bool \<Rightarrow> nat \<times> header list \<Rightarrow> hpack_decoder
     \<Rightarrow> (tf_error + header list) \<times> hpack_decoder" where
  "hp_decode_loop block pos sawField acc d =
     (if \<not> pos < length block then (Inr (snd acc), d)
      else
        (let first = octet_at block pos
         in if first AND 0x80 \<noteq> 0 then
              (case decodeInteger block pos 7 of
                 Inl e \<Rightarrow> (Inl e, d)
               | Inr (idx, p) \<Rightarrow>
                   (case bindE (hp_lookup d idx) (\<lambda>h. hp_add (hp_maxHeaderListSize d) h acc) of
                      Inl e \<Rightarrow> (Inl e, d)
                    | Inr acc' \<Rightarrow> hp_decode_loop block p True acc' d))
            else if first AND 0x40 \<noteq> 0 then
              (case hp_literal block pos 6 d of
                 Inl e \<Rightarrow> (Inl e, d)
               | Inr (h, p) \<Rightarrow>
                   (case hp_add (hp_maxHeaderListSize d) h acc of
                      Inl e \<Rightarrow> (Inl e, d)
                    | Inr acc' \<Rightarrow> hp_decode_loop block p True acc' (hp_insert (fst h) (snd h) d)))
            else if first AND 0x20 \<noteq> 0 then
              (if sawField then (Inl compression_error, d)
               else
                 (case decodeInteger block pos 5 of
                    Inl e \<Rightarrow> (Inl e, d)
                  | Inr (newSize, p) \<Rightarrow>
                      (case hp_resize newSize d of
                         Inl e \<Rightarrow> (Inl e, d)
                       | Inr d' \<Rightarrow> hp_decode_loop block p sawField acc d')))
            else
              (case hp_literal block pos 4 d of
                 Inl e \<Rightarrow> (Inl e, d)
               | Inr (h, p) \<Rightarrow>
                   (case hp_add (hp_maxHeaderListSize d) h acc of
                      Inl e \<Rightarrow> (Inl e, d)
                    | Inr acc' \<Rightarrow> hp_decode_loop block p True acc' d))))"
  by pat_completeness auto
termination
  by (relation "measure (\<lambda>(block, pos, _). length block - pos)")
     (auto dest!: decodeInteger_progress hp_literal_progress)

declare hp_decode_loop.simps [simp del]

definition hpack_decode :: "bytes \<Rightarrow> hpack_decoder \<Rightarrow> (tf_error + header list) \<times> hpack_decoder" where
  "hpack_decode block d = hp_decode_loop block 0 False (0, []) d"

subsection \<open>The encoder\<close>

datatype static_match = FullMatch nat | NameMatch nat | NoMatch

text \<open>The loop of \<open>staticLookup\<close>: \<open>i\<close> is the index of the first entry of the rest.\<close>

fun static_scan :: "header list \<Rightarrow> nat \<Rightarrow> nat \<Rightarrow> jsstr \<Rightarrow> jsstr \<Rightarrow> static_match" where
  "static_scan [] i nameIndex name value = (if nameIndex \<noteq> 0 then NameMatch nameIndex else NoMatch)"
| "static_scan ((n, v) # rest) i nameIndex name value =
     (if n = name
      then (if v = value then FullMatch i
            else static_scan rest (i + 1) (if nameIndex = 0 then i else nameIndex) name value)
      else static_scan rest (i + 1) nameIndex name value)"

definition staticLookup :: "jsstr \<Rightarrow> jsstr \<Rightarrow> static_match" where
  "staticLookup name value = static_scan (tl STATIC_TABLE) 1 0 name value"

datatype indexing = Incremental | Without | Never

record hpack_field =
  hf_name :: jsstr
  hf_value :: jsstr
  hf_indexing :: "indexing option"

definition encode_field :: "hpack_field \<Rightarrow> bytes" where
  "encode_field f =
     (let name = hf_name f; valueBytes = utf8 (hf_value f)
      in case staticLookup name (hf_value f) of
           FullMatch index \<Rightarrow> encodeInteger index 7 0x80
         | found \<Rightarrow>
             (let indexing = (case hf_indexing f of None \<Rightarrow> Incremental | Some x \<Rightarrow> x);
                  (prefixBits, prefixWidth) =
                    (case indexing of Incremental \<Rightarrow> (0x40, 6) | Never \<Rightarrow> (0x10, 4) | Without \<Rightarrow> (0x00, 4));
                  nameIndex = (case found of NameMatch i \<Rightarrow> i | _ \<Rightarrow> 0)
              in (if nameIndex \<noteq> 0 then encodeInteger nameIndex prefixWidth prefixBits
                  else encodeInteger 0 prefixWidth prefixBits @ encodeString (utf8 name))
                 @ encodeString valueBytes))"

definition encodeHeaderBlock :: "hpack_field list \<Rightarrow> bytes" where
  "encodeHeaderBlock fs = concat_bytes (map encode_field fs)"

end
