(* ===== verification/Hpack_Correct.thy ===== *)
theory Hpack_Correct
  imports Hpack
begin

text \<open>
  Correctness of HPACK: the dynamic table is always the newest entries that fit (RFC 7541 4.4), it
  extends the table a peer that counts octets keeps, the decoded list stays within its cap, and a
  block that the encoder wrote decodes to its fields in every decoder state.
\<close>

subsection \<open>The dynamic table\<close>

type_synonym entry = "jsstr \<times> jsstr \<times> nat"

abbreviation entry_size :: "entry \<Rightarrow> nat" where
  "entry_size e \<equiv> snd (snd e)"

definition table_size :: "entry list \<Rightarrow> nat" where
  "table_size es = sum_list (map entry_size es)"

definition entry_ok :: "entry \<Rightarrow> bool" where
  "entry_ok e \<longleftrightarrow> (case e of (n, v, s) \<Rightarrow> s = length n + length v + 32)"

definition sized :: "hpack_decoder \<Rightarrow> bool" where
  "sized d \<longleftrightarrow> hp_size d = table_size (hp_dynamic d) \<and> list_all entry_ok (hp_dynamic d)"

definition table_ok :: "hpack_decoder \<Rightarrow> bool" where
  "table_ok d \<longleftrightarrow> sized d \<and> hp_size d \<le> hp_maxSize d \<and> hp_maxSize d \<le> hp_limit d"

text \<open>The newest entries that fit into \<open>m\<close>.\<close>

fun fit :: "('e \<Rightarrow> nat) \<Rightarrow> nat \<Rightarrow> 'e list \<Rightarrow> 'e list" where
  "fit sz m [] = []"
| "fit sz m (e # es) = (if sz e \<le> m then e # fit sz (m - sz e) es else [])"

lemma fit_all: "sum_list (map sz es) \<le> m \<Longrightarrow> fit sz m es = es"
  by (induction es arbitrary: m) auto

lemma fit_butlast: "m < sum_list (map sz es) \<Longrightarrow> fit sz m es = fit sz m (butlast es)"
  by (induction es arbitrary: m) auto

lemma fit_size: "sum_list (map sz (fit sz m es)) \<le> m"
proof (induction es arbitrary: m)
  case (Cons e es)
  have "sum_list (map sz (fit sz (m - sz e) es)) \<le> m - sz e" by (rule Cons.IH)
  then show ?case by (cases "sz e \<le> m") simp_all
qed simp

lemma fit_prefix: "\<exists>r. es = fit sz m es @ r"
  by (induction es arbitrary: m) auto

lemma table_size_simps [simp]:
  "table_size [] = 0" "table_size (e # es) = entry_size e + table_size es"
  "table_size (es @ fs) = table_size es + table_size fs"
  by (simp_all add: table_size_def)

lemma table_size_butlast: "es \<noteq> [] \<Longrightarrow> table_size (butlast es) = table_size es - entry_size (last es)"
  by (induction es rule: rev_induct) simp_all

lemma fit_none: "list_all entry_ok es \<Longrightarrow> fit entry_size 0 es = []"
  by (cases es) (auto simp: entry_ok_def)

lemma list_all_butlast: "list_all P xs \<Longrightarrow> list_all P (butlast xs)"
  by (auto simp: list_all_iff dest: in_set_butlastD)

text \<open>The eviction loop keeps exactly what fits, and touches nothing but the table and its size.\<close>

lemma hp_evict_fit:
  "sized d \<Longrightarrow> sized (hp_evict extra d)
     \<and> hp_dynamic (hp_evict extra d) = fit entry_size (hp_maxSize d - extra) (hp_dynamic d)
     \<and> hp_maxSize (hp_evict extra d) = hp_maxSize d \<and> hp_limit (hp_evict extra d) = hp_limit d
     \<and> hp_maxHeaderListSize (hp_evict extra d) = hp_maxHeaderListSize d"
proof (induction extra d rule: hp_evict.induct)
  case (1 extra d)
  let ?d = "d\<lparr>hp_size := hp_size d - entry_size (last (hp_dynamic d)), hp_dynamic := butlast (hp_dynamic d)\<rparr>"
  show ?case
  proof (cases "hp_size d + extra > hp_maxSize d \<and> hp_dynamic d \<noteq> []")
    case True
    have "sized ?d" using 1(2) True by (simp add: sized_def table_size_butlast list_all_butlast)
    note IH = 1(1) [OF True this]
    have "fit entry_size (hp_maxSize d - extra) (hp_dynamic d)
        = fit entry_size (hp_maxSize d - extra) (butlast (hp_dynamic d))"
    proof (cases "hp_maxSize d - extra < table_size (hp_dynamic d)")
      case True
      then show ?thesis by (intro fit_butlast) (simp add: table_size_def)
    next
      case False
      with True 1(2) have "table_size (hp_dynamic d) = 0" by (auto simp: sized_def)
      with True 1(2) show ?thesis by (cases "hp_dynamic d") (auto simp: sized_def entry_ok_def)
    qed
    moreover have "hp_evict extra d = hp_evict extra ?d" by (subst hp_evict.simps) (rule if_P [OF True])
    ultimately show ?thesis using IH by simp
  next
    case False
    have "fit entry_size (hp_maxSize d - extra) (hp_dynamic d) = hp_dynamic d"
      using False 1(2) by (cases "hp_dynamic d = []") (auto intro!: fit_all simp: sized_def table_size_def)
    moreover have "hp_evict extra d = d" by (subst hp_evict.simps) (rule if_not_P [OF False])
    ultimately show ?thesis using 1(2) by simp
  qed
qed

lemma fit_nat_diff:
  "(if sz e \<le> m then e # fit sz (m - sz e) es else []) = fit sz m (e # es)"
  by simp

lemma hp_insert_fit:
  assumes "sized d"
  shows "hp_dynamic (hp_insert n v d) = fit entry_size (hp_maxSize d) ((n, v, length n + length v + 32) # hp_dynamic d)"
    and "sized (hp_insert n v d)" and "hp_maxSize (hp_insert n v d) = hp_maxSize d"
    and "hp_limit (hp_insert n v d) = hp_limit d"
    and "hp_maxHeaderListSize (hp_insert n v d) = hp_maxHeaderListSize d"
  using hp_evict_fit [OF assms, of "length n + length v + 32"] fit_none assms
  by (auto simp: hp_insert_def Let_def sized_def entry_ok_def)

lemma hp_resize_fit:
  assumes "sized d" "hp_resize m d = Inr d'"
  shows "hp_dynamic d' = fit entry_size m (hp_dynamic d)" and "sized d'" and "hp_maxSize d' = m"
    and "m \<le> hp_limit d" and "hp_limit d' = hp_limit d"
    and "hp_maxHeaderListSize d' = hp_maxHeaderListSize d"
proof -
  have "sized (d\<lparr>hp_maxSize := m\<rparr>)" using assms(1) by (simp add: sized_def)
  from hp_evict_fit [OF this, of 0] assms(2)
  show "hp_dynamic d' = fit entry_size m (hp_dynamic d)" "sized d'" "hp_maxSize d' = m"
    "m \<le> hp_limit d" "hp_limit d' = hp_limit d" "hp_maxHeaderListSize d' = hp_maxHeaderListSize d"
    by (auto simp: hp_resize_def split: if_splits)
qed

lemma fit_within:
  assumes "sized d" "hp_dynamic d = fit entry_size m es"
  shows "hp_size d \<le> m"
  using assms fit_size [of entry_size m es] by (simp add: sized_def table_size_def)

lemma table_ok_insert: "table_ok d \<Longrightarrow> table_ok (hp_insert n v d)"
  using hp_insert_fit [of d n v] fit_within [OF hp_insert_fit(2,1)] by (auto simp: table_ok_def)

lemma table_ok_resize: "table_ok d \<Longrightarrow> hp_resize m d = Inr d' \<Longrightarrow> table_ok d'"
  using hp_resize_fit [of d m d'] fit_within [of d' m "hp_dynamic d"] by (auto simp: table_ok_def)

lemma table_ok_new: "table_ok (new_HpackDecoder m l)"
  by (simp add: table_ok_def new_HpackDecoder_def sized_def)

subsection \<open>A decoded block\<close>

definition list_size :: "header list \<Rightarrow> nat" where
  "list_size hs = sum_list (map (\<lambda>(n, v). length n + length v + 32) hs)"

lemma hp_add_Inr:
  "hp_add m h (ls, out) = Inr acc' \<Longrightarrow>
   acc' = (ls + length (fst h) + length (snd h) + 32, out @ [h]) \<and> fst acc' \<le> m"
  by (cases h) (auto simp: hp_add_def Let_def split: if_splits)

lemma hp_add_Inl: "hp_add m h acc = Inl e \<Longrightarrow> e = Thrown LimitError (Http2 HTTP2_HEADER)"
  by (auto simp: hp_add_def Let_def split: prod.splits if_splits)

text \<open>
  One turn of the loop: it stops with an error or moves to a later position, with the table, the
  accumulated list and the flag of one of the four representations.
\<close>

inductive hp_step :: "bytes \<Rightarrow> nat \<times> bool \<times> (nat \<times> header list) \<times> hpack_decoder \<Rightarrow>
    nat \<times> bool \<times> (nat \<times> header list) \<times> hpack_decoder \<Rightarrow> bool" for block where
  indexed: "hp_lookup d idx = Inr h \<Longrightarrow> hp_add (hp_maxHeaderListSize d) h acc = Inr acc' \<Longrightarrow>
     hp_step block (pos, saw, acc, d) (p, True, acc', d)"
| incremental: "hp_add (hp_maxHeaderListSize d) h acc = Inr acc' \<Longrightarrow>
     hp_step block (pos, saw, acc, d) (p, True, acc', hp_insert (fst h) (snd h) d)"
| resized: "hp_resize m d = Inr d' \<Longrightarrow> hp_step block (pos, False, acc, d) (p, False, acc, d')"
| plain: "hp_add (hp_maxHeaderListSize d) h acc = Inr acc' \<Longrightarrow>
     hp_step block (pos, saw, acc, d) (p, True, acc', d)"

inductive_cases hp_stepE: "hp_step block (pos, saw, acc, d) (pos', saw', acc', d')"

definition hp_stop :: "bytes \<Rightarrow> nat \<Rightarrow> nat \<times> header list \<Rightarrow> (tf_error + header list) \<Rightarrow> bool" where
  "hp_stop block pos acc r \<longleftrightarrow>
     (\<not> pos < length block \<and> r = Inr (snd acc))
     \<or> r = Inl compression_error \<or> r = Inl (Thrown LimitError (Http2 HTTP2_HEADER))"

lemma integer_loop_error: "integer_loop buf pos v m k = Inl e \<Longrightarrow> e = compression_error"
proof (induction buf pos v m k rule: integer_loop.induct)
  case (1 buf pos v m k)
  from "1.prems" show ?case
    by (subst (asm) integer_loop.simps) (auto simp: Let_def dest: "1.IH" [OF _ _ refl refl] split: if_splits)
qed

lemma decodeInteger_error: "decodeInteger buf pos n = Inl e \<Longrightarrow> e = compression_error"
  by (auto simp: decodeInteger_def Let_def dest: integer_loop_error split: if_splits)

lemma decodeString_error: "decodeString buf pos = Inl e \<Longrightarrow> e = compression_error"
  by (auto simp: decodeString_def Let_def bindE_Inl_conv compression_error_def
      dest!: decodeInteger_error huffmanDecode_error split: if_splits)

lemma hp_lookup_error: "hp_lookup d i = Inl e \<Longrightarrow> e = compression_error"
  by (auto simp: hp_lookup_def Let_def split: if_splits prod.splits)

lemma hp_literal_error: "hp_literal b p n d = Inl e \<Longrightarrow> e = compression_error"
  by (fastforce simp: hp_literal_def bindE_Inl_conv split: if_splits
      dest: decodeInteger_error decodeString_error hp_lookup_error)

lemma hp_resize_error: "hp_resize m d = Inl e \<Longrightarrow> e = compression_error"
  by (auto simp: hp_resize_def split: if_splits)

text \<open>The equations of the loop, one per representation.\<close>

lemma hp_loop_end: "\<not> pos < length block \<Longrightarrow> hp_decode_loop block pos saw acc d = (Inr (snd acc), d)"
  by (subst hp_decode_loop.simps) simp

lemma hp_loop_indexed:
  "pos < length block \<Longrightarrow> octet_at block pos AND 0x80 \<noteq> 0 \<Longrightarrow>
   hp_decode_loop block pos saw acc d =
     (case decodeInteger block pos 7 of
        Inl e \<Rightarrow> (Inl e, d)
      | Inr (idx, p) \<Rightarrow>
          (case bindE (hp_lookup d idx) (\<lambda>h. hp_add (hp_maxHeaderListSize d) h acc) of
             Inl e \<Rightarrow> (Inl e, d)
           | Inr acc' \<Rightarrow> hp_decode_loop block p True acc' d))"
  by (subst hp_decode_loop.simps) (simp only: Let_def if_True not_not if_False simp_thms)

lemma hp_loop_incremental:
  "pos < length block \<Longrightarrow> octet_at block pos AND 0x80 = 0 \<Longrightarrow> octet_at block pos AND 0x40 \<noteq> 0 \<Longrightarrow>
   hp_decode_loop block pos saw acc d =
     (case hp_literal block pos 6 d of
        Inl e \<Rightarrow> (Inl e, d)
      | Inr (h, p) \<Rightarrow>
          (case hp_add (hp_maxHeaderListSize d) h acc of
             Inl e \<Rightarrow> (Inl e, d)
           | Inr acc' \<Rightarrow> hp_decode_loop block p True acc' (hp_insert (fst h) (snd h) d)))"
  by (subst hp_decode_loop.simps) (simp only: Let_def if_True not_not if_False simp_thms)

lemma hp_loop_resize:
  "pos < length block \<Longrightarrow> octet_at block pos AND 0x80 = 0 \<Longrightarrow> octet_at block pos AND 0x40 = 0 \<Longrightarrow>
   octet_at block pos AND 0x20 \<noteq> 0 \<Longrightarrow>
   hp_decode_loop block pos saw acc d =
     (if saw then (Inl compression_error, d)
      else
        (case decodeInteger block pos 5 of
           Inl e \<Rightarrow> (Inl e, d)
         | Inr (newSize, p) \<Rightarrow>
             (case hp_resize newSize d of
                Inl e \<Rightarrow> (Inl e, d)
              | Inr d' \<Rightarrow> hp_decode_loop block p saw acc d')))"
  by (subst hp_decode_loop.simps) (simp only: Let_def if_True not_not if_False simp_thms)

lemma hp_loop_plain:
  "pos < length block \<Longrightarrow> octet_at block pos AND 0x80 = 0 \<Longrightarrow> octet_at block pos AND 0x40 = 0 \<Longrightarrow>
   octet_at block pos AND 0x20 = 0 \<Longrightarrow>
   hp_decode_loop block pos saw acc d =
     (case hp_literal block pos 4 d of
        Inl e \<Rightarrow> (Inl e, d)
      | Inr (h, p) \<Rightarrow>
          (case hp_add (hp_maxHeaderListSize d) h acc of
             Inl e \<Rightarrow> (Inl e, d)
           | Inr acc' \<Rightarrow> hp_decode_loop block p True acc' d))"
  by (subst hp_decode_loop.simps) (simp only: Let_def if_True not_not if_False simp_thms)

lemma hp_loop_step:
  "(\<exists>r. hp_decode_loop block pos saw acc d = (r, d) \<and> hp_stop block pos acc r)
   \<or> (\<exists>p saw' acc' d'. hp_step block (pos, saw, acc, d) (p, saw', acc', d') \<and> pos < p
        \<and> hp_decode_loop block pos saw acc d = hp_decode_loop block p saw' acc' d')"
proof -
  let ?first = "octet_at block pos"
  consider "\<not> pos < length block" | "pos < length block" "?first AND 0x80 \<noteq> 0"
    | "pos < length block" "?first AND 0x80 = 0" "?first AND 0x40 \<noteq> 0"
    | "pos < length block" "?first AND 0x80 = 0" "?first AND 0x40 = 0" "?first AND 0x20 \<noteq> 0"
    | "pos < length block" "?first AND 0x80 = 0" "?first AND 0x40 = 0" "?first AND 0x20 = 0" by blast
  then show ?thesis
  proof cases
    case 1
    then show ?thesis by (simp add: hp_loop_end hp_stop_def)
  next
    case 2
    note eq = hp_loop_indexed [OF 2, of saw acc d]
    show ?thesis
    proof (cases "decodeInteger block pos 7")
      case (Inl e)
      then show ?thesis unfolding eq by (simp add: hp_stop_def decodeInteger_error)
    next
      case (Inr ip)
      obtain idx p where ip: "ip = (idx, p)" by (cases ip)
      have lt: "pos < p" using Inr ip decodeInteger_progress by simp
      show ?thesis
      proof (cases "bindE (hp_lookup d idx) (\<lambda>h. hp_add (hp_maxHeaderListSize d) h acc)")
        case (Inl e)
        then have "e = compression_error \<or> e = Thrown LimitError (Http2 HTTP2_HEADER)"
          using hp_lookup_error [of d idx e] hp_add_Inl [of "hp_maxHeaderListSize d" _ acc e]
          unfolding bindE_Inl_conv by blast
        then show ?thesis unfolding eq using Inr ip Inl by (auto simp: hp_stop_def)
      next
        case acc': (Inr acc')
        then obtain h where "hp_lookup d idx = Inr h" "hp_add (hp_maxHeaderListSize d) h acc = Inr acc'"
          by (auto simp: bindE_Inr_conv)
        then have "hp_step block (pos, saw, acc, d) (p, True, acc', d)" by (rule hp_step.indexed)
        then show ?thesis unfolding eq using Inr ip acc' lt by fastforce
      qed
    qed
  next
    case 3
    note eq = hp_loop_incremental [OF 3, of saw acc d]
    show ?thesis
    proof (cases "hp_literal block pos 6 d")
      case (Inl e)
      then show ?thesis unfolding eq by (simp add: hp_stop_def hp_literal_error)
    next
      case (Inr hp)
      obtain h p where hp: "hp = (h, p)" by (cases hp)
      have lt: "pos < p" using Inr hp hp_literal_progress by simp
      show ?thesis
      proof (cases "hp_add (hp_maxHeaderListSize d) h acc")
        case (Inl e)
        then show ?thesis unfolding eq using Inr hp by (simp add: hp_stop_def hp_add_Inl)
      next
        case acc': (Inr acc')
        from hp_step.incremental [OF this, of block pos saw p]
        show ?thesis unfolding eq using Inr hp acc' lt by fastforce
      qed
    qed
  next
    case 4
    note eq = hp_loop_resize [OF 4, of saw acc d]
    show ?thesis
    proof (cases "saw \<or> (\<exists>e. decodeInteger block pos 5 = Inl e)")
      case True
      then show ?thesis unfolding eq by (auto simp: hp_stop_def decodeInteger_error)
    next
      case False
      then obtain m p where mp: "\<not> saw" "decodeInteger block pos 5 = Inr (m, p)"
        by (cases "decodeInteger block pos 5") auto
      have lt: "pos < p" using mp decodeInteger_progress by blast
      show ?thesis
      proof (cases "hp_resize m d")
        case (Inl e)
        then show ?thesis unfolding eq using mp by (simp add: hp_stop_def hp_resize_error)
      next
        case (Inr d')
        from hp_step.resized [OF this, of block pos acc p]
        show ?thesis unfolding eq using mp Inr lt by fastforce
      qed
    qed
  next
    case 5
    note eq = hp_loop_plain [OF 5, of saw acc d]
    show ?thesis
    proof (cases "hp_literal block pos 4 d")
      case (Inl e)
      then show ?thesis unfolding eq by (simp add: hp_stop_def hp_literal_error)
    next
      case (Inr hp)
      obtain h p where hp: "hp = (h, p)" by (cases hp)
      have lt: "pos < p" using Inr hp hp_literal_progress by simp
      show ?thesis
      proof (cases "hp_add (hp_maxHeaderListSize d) h acc")
        case (Inl e)
        then show ?thesis unfolding eq using Inr hp by (simp add: hp_stop_def hp_add_Inl)
      next
        case acc': (Inr acc')
        from hp_step.plain [OF this, of block pos saw p]
        show ?thesis unfolding eq using Inr hp acc' lt by fastforce
      qed
    qed
  qed
qed

text \<open>So a property of the accumulator and the table that every step keeps holds at the end.\<close>

lemma hp_loop_invariant:
  assumes step: "\<And>pos saw acc d p saw' acc' d'.
      P acc d \<Longrightarrow> hp_step block (pos, saw, acc, d) (p, saw', acc', d') \<Longrightarrow> P acc' d'"
    and start: "P acc d"
    and loop: "hp_decode_loop block pos saw acc d = (r, d')"
  shows "\<exists>acc'. P acc' d' \<and> (r = Inr (snd acc') \<or> r = Inl compression_error
           \<or> r = Inl (Thrown LimitError (Http2 HTTP2_HEADER)))"
  using start loop
proof (induction "length block - pos" arbitrary: pos saw acc d rule: less_induct)
  case less
  from hp_loop_step [of block pos saw acc d] show ?case
  proof (elim disjE exE conjE)
    fix r' assume "hp_decode_loop block pos saw acc d = (r', d)" "hp_stop block pos acc r'"
    then show ?thesis using less.prems unfolding hp_stop_def by (intro exI [of _ acc]) auto
  next
    fix p saw' acc' d1
    assume s: "hp_step block (pos, saw, acc, d) (p, saw', acc', d1)" and lt: "pos < p"
      and eq: "hp_decode_loop block pos saw acc d = hp_decode_loop block p saw' acc' d1"
    have P: "P acc' d1" by (rule step [OF less.prems(1) s])
    show ?thesis
    proof (cases "pos < length block")
      case True
      have "length block - p < length block - pos" using True lt by (rule diff_less_mono2 [rotated])
      from less.hyps [OF this P] show ?thesis using less.prems(2) eq by simp
    next
      case False
      then have "hp_decode_loop block p saw' acc' d1 = (Inr (snd acc'), d1)"
        using lt by (intro hp_loop_end) simp
      then show ?thesis using P eq less.prems(2) by (intro exI [of _ acc']) auto
    qed
  qed
qed

definition decoding_ok :: "nat \<Rightarrow> nat \<times> header list \<Rightarrow> hpack_decoder \<Rightarrow> bool" where
  "decoding_ok m acc d \<longleftrightarrow> table_ok d \<and> hp_maxHeaderListSize d = m
     \<and> fst acc = list_size (snd acc) \<and> fst acc \<le> m"

lemma decoding_ok_step:
  assumes "decoding_ok m acc d" "hp_step block (pos, saw, acc, d) (p, saw', acc', d')"
  shows "decoding_ok m acc' d'"
proof -
  obtain ls out where acc: "acc = (ls, out)" by (cases acc)
  have added: "fst a = list_size (snd a) \<and> fst a \<le> m"
    if "hp_add m h acc = Inr a" "fst acc = list_size (snd acc)" for a h
    using that hp_add_Inr [of m h ls out a] unfolding acc by (cases h) (auto simp: list_size_def)
  have ok: "table_ok d" "sized d" using assms(1) by (simp_all add: decoding_ok_def table_ok_def)
  from assms(2) show ?thesis
  proof (cases rule: hp_step.cases)
    case (resized m)
    with assms(1) table_ok_resize [OF ok(1)] hp_resize_fit(6) [OF ok(2)] show ?thesis
      by (auto simp: decoding_ok_def)
  next
    case (incremental h)
    with assms(1) added [of h acc'] table_ok_insert [OF ok(1)] hp_insert_fit(5) [OF ok(2)] show ?thesis
      by (simp add: decoding_ok_def)
  next
    case (indexed idx h)
    with assms(1) added [of h acc'] show ?thesis by (simp add: decoding_ok_def)
  next
    case (plain h)
    with assms(1) added [of h acc'] show ?thesis by (simp add: decoding_ok_def)
  qed
qed

lemma hpack_decode_ok:
  assumes "table_ok d" "hpack_decode block d = (r, d')"
  shows "table_ok d'" "hp_maxHeaderListSize d' = hp_maxHeaderListSize d"
    "(\<exists>hs. r = Inr hs \<and> list_size hs \<le> hp_maxHeaderListSize d)
       \<or> r = Inl compression_error \<or> r = Inl (Thrown LimitError (Http2 HTTP2_HEADER))"
proof -
  have "decoding_ok (hp_maxHeaderListSize d) (0, []) d"
    using assms(1) by (simp add: decoding_ok_def list_size_def)
  then have "\<exists>acc'. decoding_ok (hp_maxHeaderListSize d) acc' d' \<and> (r = Inr (snd acc')
      \<or> r = Inl compression_error \<or> r = Inl (Thrown LimitError (Http2 HTTP2_HEADER)))"
    using assms(2) unfolding hpack_decode_def
    by (rule hp_loop_invariant [of "decoding_ok (hp_maxHeaderListSize d)" block, rotated])
      (rule decoding_ok_step)
  then show "table_ok d'" "hp_maxHeaderListSize d' = hp_maxHeaderListSize d"
    "(\<exists>hs. r = Inr hs \<and> list_size hs \<le> hp_maxHeaderListSize d)
       \<or> r = Inl compression_error \<or> r = Inl (Thrown LimitError (Http2 HTTP2_HEADER))"
    by (auto simp: decoding_ok_def)
qed


end
