(* ===== verification/Hpack_Roundtrip.thy ===== *)
theory Hpack_Roundtrip
  imports Hpack_Correct
begin

text \<open>
  HPACK written by the encoder and read by the decoder; and the dynamic table of a peer that counts
  octets, as RFC 7541 4.1 says, compared with the decoder's, which counts UTF-16 code units.
\<close>

subsection \<open>A peer's table\<close>

definition octet_size :: "bytes \<times> bytes \<Rightarrow> nat" where
  "octet_size e = length (fst e) + length (snd e) + 32"

definition peer_insert :: "nat \<Rightarrow> bytes \<times> bytes \<Rightarrow> (bytes \<times> bytes) list \<Rightarrow> (bytes \<times> bytes) list" where
  "peer_insert m e t = fit octet_size m (e # t)"

definition peer_resize :: "nat \<Rightarrow> (bytes \<times> bytes) list \<Rightarrow> (bytes \<times> bytes) list" where
  "peer_resize m t = fit octet_size m t"

definition as_entry :: "bytes \<times> bytes \<Rightarrow> entry" where
  "as_entry e = (utf8_decode (fst e), utf8_decode (snd e),
                 length (utf8_decode (fst e)) + length (utf8_decode (snd e)) + 32)"

definition extends :: "hpack_decoder \<Rightarrow> (bytes \<times> bytes) list \<Rightarrow> bool" where
  "extends d t \<longleftrightarrow> (\<exists>r. hp_dynamic d = map as_entry t @ r)"

lemma as_entry_size: "entry_size (as_entry e) \<le> octet_size e"
  using length_utf8_decode [of "fst e"] length_utf8_decode [of "snd e"]
  by (simp add: as_entry_def octet_size_def)

lemma fit_extends:
  assumes "\<And>x. sz (g x) \<le> sz' x" and "k' \<le> k"
  shows "\<exists>r'. fit sz k (map g t @ r) = map g (fit sz' k' t) @ r'"
  using assms(2)
proof (induction t arbitrary: k k')
  case (Cons e t)
  show ?case
  proof (cases "sz' e \<le> k'")
    case True
    have le: "sz (g e) \<le> sz' e" by (rule assms(1))
    then have "k' - sz' e \<le> k - sz (g e)" and "sz (g e) \<le> k" using Cons.prems True by simp_all
    with Cons.IH [OF this(1)] True show ?thesis by auto
  qed simp
qed simp

lemma extends_insert:
  assumes "sized d" "extends d t"
  shows "extends (hp_insert (utf8_decode n) (utf8_decode v) d) (peer_insert (hp_maxSize d) (n, v) t)"
proof -
  from assms(2) obtain r where "hp_dynamic d = map as_entry t @ r" by (auto simp: extends_def)
  then have "hp_dynamic (hp_insert (utf8_decode n) (utf8_decode v) d)
      = fit entry_size (hp_maxSize d) (map as_entry ((n, v) # t) @ r)"
    by (simp only: hp_insert_fit(1) [OF assms(1)]) (simp add: as_entry_def)
  with fit_extends [of entry_size as_entry octet_size, OF as_entry_size order_refl]
  show ?thesis unfolding extends_def peer_insert_def by metis
qed

lemma extends_resize:
  assumes "sized d" "extends d t" "hp_resize m d = Inr d'"
  shows "extends d' (peer_resize m t)"
proof -
  from assms(2) obtain r where "hp_dynamic d = map as_entry t @ r" by (auto simp: extends_def)
  then have "hp_dynamic d' = fit entry_size m (map as_entry t @ r)"
    using hp_resize_fit(1) [OF assms(1,3)] by simp
  with fit_extends [of entry_size as_entry octet_size, OF as_entry_size order_refl]
  show ?thesis unfolding extends_def peer_resize_def by metis
qed

lemma extends_lookup:
  assumes "extends d t" "k < length t"
  shows "hp_lookup d (62 + k) = Inr (utf8_decode (fst (t ! k)), utf8_decode (snd (t ! k)))"
  using assms by (auto simp: extends_def hp_lookup_def nth_append as_entry_def)

subsection \<open>Integers\<close>

lemma to_i32_mask: "n \<le> 8 \<Longrightarrow> to_i32 (2 ^ n - 1) = mask n"
  by (simp add: to_i32_def mask_eq_exp_minus_1)

lemma unat_masked:
  assumes "n \<le> 8" "pos < length buf"
  shows "unat (octet_at buf pos AND to_i32 (2 ^ n - 1)) = unat (buf ! pos) mod 2 ^ n"
  unfolding to_i32_mask [OF assms(1)]
  by (simp only: take_bit_eq_mask [symmetric] unsigned_take_bit_eq)
     (simp add: unat_octet_at [OF assms(2)] take_bit_eq_mod)

lemma bit_octet_at: "pos < length buf \<Longrightarrow> k < 8 \<Longrightarrow> bit (octet_at buf pos) k \<longleftrightarrow> odd (unat (buf ! pos) div 2 ^ k)"
  by (simp add: octet_at_def bit_ucast_iff bit_iff_odd [of "unat _", symmetric] bit_unsigned_iff)

lemma octet_bit_zero:
  assumes "pos < length buf"
  shows "octet_at buf pos AND 0x80 = 0 \<longleftrightarrow> unat (buf ! pos) < 128"
    and "octet_at buf pos AND 0x40 = 0 \<longleftrightarrow> even (unat (buf ! pos) div 64)"
    and "octet_at buf pos AND 0x20 = 0 \<longleftrightarrow> even (unat (buf ! pos) div 32)"
proof -
  have t: "octet_at buf pos AND 2 ^ k = 0 \<longleftrightarrow> even (unat (buf ! pos) div 2 ^ k)" if "k < 8" for k
    using bit_octet_at [OF assms that] by (simp add: and_exp_eq_0_iff_not_bit)
  have "unat (buf ! pos) div 128 < 2" using unat_byte_less [of "buf ! pos"] by simp
  then have "even (unat (buf ! pos) div 128) \<longleftrightarrow> unat (buf ! pos) div 128 = 0"
    by (metis dvd_0_right even_Suc less_2_cases_iff One_nat_def)
  then show "octet_at buf pos AND 0x80 = 0 \<longleftrightarrow> unat (buf ! pos) < 128"
    using t [of 7] by (simp add: div_eq_0_iff)
  show "octet_at buf pos AND 0x40 = 0 \<longleftrightarrow> even (unat (buf ! pos) div 64)"
    using t [of 6] by simp
  show "octet_at buf pos AND 0x20 = 0 \<longleftrightarrow> even (unat (buf ! pos) div 32)"
    using t [of 5] by simp
qed

text \<open>A prefix \<open>p * 2 ^ n\<close> and a value below \<open>2 ^ n\<close> in one octet.\<close>

lemma unat_prefixed:
  assumes "v < 2 ^ n" "p * 2 ^ n + v < 256"
  shows "unat (to_byte (to_i32 (p * 2 ^ n) OR to_i32 v)) = p * 2 ^ n + v"
proof -
  have "unat (to_i32 (p * 2 ^ n) OR to_i32 v) = unat (to_i32 (p * 2 ^ n)) OR unat (to_i32 v)"
    by (rule unsigned_or_eq)
  also have "\<dots> = p * 2 ^ n + v"
    using assms shifted_or_nat [OF assms(1), of p] by (simp add: unat_to_i32)
  finally show ?thesis using assms(2) by (simp add: unat_to_byte)
qed

lemma unat_continued: "unat (to_byte ((to_i32 v AND 0x7f) OR 0x80)) = v mod 128 + 128"
proof -
  have "v mod 4294967296 mod 128 = v mod 128" by (rule mod_mod_cancel) simp
  then have m: "unat (to_i32 v AND 0x7f) = v mod 128" by (simp add: unat_and_127 unat_to_i32)
  have "unat ((to_i32 v AND 0x7f) OR 0x80) = unat (0x80 :: i32) OR unat (to_i32 v AND 0x7f)"
    by (simp only: unsigned_or_eq or.commute)
  also have "\<dots> = 128 + v mod 128"
    using shifted_or_nat [of "v mod 128" 7 1] by (simp add: m)
  finally show ?thesis by (simp add: unat_to_byte)
qed

lemma unat_octet_127: "pos < length buf \<Longrightarrow> unat (octet_at buf pos AND 0x7f) = unat (buf ! pos) mod 128"
  by (simp add: unat_and_127 unat_octet_at)

text \<open>The loop reads back what \<open>integer_octets\<close> wrote, at its position in the block.\<close>

definition placed :: "bytes \<Rightarrow> nat \<Rightarrow> bytes \<Rightarrow> bool" where
  "placed buf pos w \<longleftrightarrow> pos + length w \<le> length buf \<and> take (length w) (drop pos buf) = w"

lemma placed_Cons: "placed buf pos (x # w) \<longleftrightarrow> pos < length buf \<and> buf ! pos = x \<and> placed buf (pos + 1) w"
  by (auto simp: placed_def Cons_nth_drop_Suc [symmetric])

lemma placed_append: "placed buf pos (v @ w) \<longleftrightarrow> placed buf pos v \<and> placed buf (pos + length v) w"
proof (induction v arbitrary: pos)
  case Nil
  show ?case by (auto simp: placed_def)
next
  case (Cons x v)
  then show ?case by (simp add: placed_Cons)
qed

lemma placed_at: "placed (a @ w @ b) (length a) w"
  by (simp add: placed_def)

lemma integer_loop_reads:
  "v < 128 ^ (6 - count) \<Longrightarrow> count < 6 \<Longrightarrow> acc + v * 2 ^ m \<le> max_safe_integer \<Longrightarrow>
   placed buf pos (integer_octets v) \<Longrightarrow>
   integer_loop buf pos acc m count = Inr (acc + v * 2 ^ m, pos + length (integer_octets v))"
proof (induction v arbitrary: pos acc m count rule: less_induct)
  case (less v)
  show ?case
  proof (cases "v \<ge> 0x80")
    case True
    let ?b = "to_byte ((to_i32 v AND 0x7f) OR 0x80)"
    have eq: "integer_octets v = ?b # integer_octets (v div 128)"
      by (subst integer_octets.simps) (simp only: True if_True)
    with less.prems(4) have p: "pos < length buf" "buf ! pos = ?b" "placed buf (pos + 1) (integer_octets (v div 128))"
      by (simp_all only: placed_Cons)
    have b: "unat (octet_at buf pos AND 0x7f) = v mod 128" "octet_at buf pos AND 0x80 \<noteq> 0"
      using p unat_octet_127 [OF p(1)] octet_bit_zero(1) [OF p(1)] by (simp_all add: unat_continued)
    have split: "acc + v * 2 ^ m = (acc + v mod 128 * 2 ^ m) + v div 128 * 2 ^ (m + 7)"
    proof -
      have "v * 2 ^ m = (v div 128 * 128 + v mod 128) * 2 ^ m" by simp
      then show ?thesis by (simp only: add_mult_distrib power_add) simp
    qed
    have c: "count + 1 < 6"
    proof (rule ccontr)
      assume "\<not> count + 1 < 6"
      then have "count = 5" using less.prems(2) by simp
      with less.prems(1) True show False by simp
    qed
    have "6 - count = Suc (6 - (count + 1))" using less.prems(2) by simp
    then have d: "v div 128 < 128 ^ (6 - (count + 1))"
      using less.prems(1) by (simp only: power_Suc)
    have lt: "v div 128 < v" using True by simp
    have "integer_loop buf pos acc m count
        = integer_loop buf (pos + 1) (acc + v mod 128 * 2 ^ m) (m + 7) (count + 1)"
      using p(1) c less.prems(3) split by (subst integer_loop.simps) (simp add: b Let_def)
    also have "\<dots> = Inr (acc + v * 2 ^ m, pos + 1 + length (integer_octets (v div 128)))"
      using less.IH [OF lt d c _ p(3), of "acc + v mod 128 * 2 ^ m" "m + 7"] less.prems(3) split by simp
    finally show ?thesis by (simp add: eq)
  next
    case False
    then have eq: "integer_octets v = [to_byte (to_i32 v)]" by (subst integer_octets.simps) simp
    have v: "unat (to_byte (to_i32 v)) = v" using False by (simp add: unat_to_byte unat_to_i32)
    with less.prems(4) have p: "pos < length buf" "unat (buf ! pos) = v" unfolding eq placed_Cons by simp_all
    have b: "unat (octet_at buf pos AND 0x7f) = v" "octet_at buf pos AND 0x80 = 0"
      using p unat_octet_127 [OF p(1)] octet_bit_zero(1) [OF p(1)] False by simp_all
    show ?thesis using p(1) less.prems(2,3) b by (subst integer_loop.simps) (simp add: eq Let_def)
  qed
qed

lemma decodeInteger_reads:
  assumes n: "1 \<le> n" "n \<le> 8" and p: "p * 2 ^ n + (2 ^ n - 1) < 256" and v: "v < 2 ^ 42"
    and at: "placed buf pos (encodeInteger v n (p * 2 ^ n))"
  shows "decodeInteger buf pos n = Inr (v, pos + length (encodeInteger v n (p * 2 ^ n)))"
    and "pos < length buf" and "unat (buf ! pos) div 2 ^ n = p"
proof -
  let ?mx = "2 ^ n - 1 :: nat"
  let ?x = "if v < ?mx then v else ?mx"
  have x: "?x < 2 ^ n" by (auto intro: less_le_trans [OF _ diff_le_self])
  have enc: "encodeInteger v n (p * 2 ^ n) = to_byte (to_i32 (p * 2 ^ n) OR to_i32 ?x) #
      (if v < ?mx then [] else integer_octets (v - ?mx))"
    by (simp add: encodeInteger_def Let_def)
  then have at': "pos < length buf" "buf ! pos = to_byte (to_i32 (p * 2 ^ n) OR to_i32 ?x)"
    "\<not> v < ?mx \<Longrightarrow> placed buf (pos + 1) (integer_octets (v - ?mx))"
    using at by (simp_all only: placed_Cons if_False)
  have le: "p * 2 ^ n + ?x < 256" using p by (rule le_less_trans [rotated]) (intro add_left_mono, simp)
  have first: "unat (buf ! pos) = p * 2 ^ n + ?x" unfolding at'(2) by (rule unat_prefixed [OF x le])
  show "pos < length buf" by (rule at'(1))
  show "unat (buf ! pos) div 2 ^ n = p" using first x by simp
  have m: "unat (octet_at buf pos AND to_i32 ?mx) = ?x"
    using unat_masked [OF n(2) at'(1)] first x by simp
  show "decodeInteger buf pos n = Inr (v, pos + length (encodeInteger v n (p * 2 ^ n)))"
  proof (cases "v < ?mx")
    case True
    with at'(1) m show ?thesis by (simp add: decodeInteger_def Let_def enc)
  next
    case False
    have "integer_loop buf (pos + 1) ?mx 0 0 = Inr (?mx + (v - ?mx) * 2 ^ 0, pos + 1 + length (integer_octets (v - ?mx)))"
    proof (rule integer_loop_reads)
      show "v - ?mx < 128 ^ (6 - 0)" by (rule le_less_trans [OF diff_le_self]) (use v in simp)
      show "?mx + (v - ?mx) * 2 ^ 0 \<le> max_safe_integer" using v False by (simp add: max_safe_integer_def)
    qed (use at'(3) False in simp_all)
    with False at'(1) m show ?thesis by (simp add: decodeInteger_def Let_def enc)
  qed
qed

subsection \<open>Strings\<close>

lemma take_placed: "placed buf pos w \<Longrightarrow> take (length w) (drop pos buf) = w"
  by (simp add: placed_def)

lemma decodeString_reads:
  assumes len: "length s < 2 ^ 42" and at: "placed buf pos (encodeString s)"
  shows "decodeString buf pos = Inr (s, pos + length (encodeString s))"
proof (cases "huffmanEncodedLength s < length s")
  case True
  let ?w = "huffmanEncode s"
  have w: "length ?w < 2 ^ 42" using True len by (simp add: length_huffmanEncode)
  have enc: "encodeString s = encodeInteger (length ?w) 7 (1 * 2 ^ 7) @ ?w"
    using True by (simp add: encodeString_def Let_def)
  note at' = at [unfolded enc placed_append]
  note int = decodeInteger_reads [of 7 1 "length ?w" buf pos, simplified, OF w [simplified] at' [THEN conjunct1, simplified]]
  have flag: "octet_at buf pos AND 0x80 \<noteq> 0" using int(3) by (simp add: octet_bit_zero(1) [OF int(2)] div_less)
  show ?thesis
    using int(1,2) flag at' [THEN conjunct2]
    by (simp add: decodeString_def Let_def enc take_placed huffman_round_trip placed_def)
next
  case False
  have enc: "encodeString s = encodeInteger (length s) 7 (0 * 2 ^ 7) @ s"
    using False by (simp add: encodeString_def)
  note at' = at [unfolded enc placed_append]
  note int = decodeInteger_reads [of 7 0 "length s" buf pos, simplified, OF len [simplified] at' [THEN conjunct1, simplified]]
  have flag: "octet_at buf pos AND 0x80 = 0"
    using int(3) by (simp add: octet_bit_zero(1) [OF int(2)] div_eq_0_iff)
  show ?thesis
    using int(1,2) flag at' [THEN conjunct2]
    by (simp add: decodeString_def Let_def enc take_placed placed_def)
qed

subsection \<open>Fields\<close>

lemma length_STATIC_TABLE: "length STATIC_TABLE = 62"
  by (simp add: STATIC_TABLE_def)

lemma static_scan_sound:
  "STATIC_TABLE = pre @ rest \<Longrightarrow> i = length pre \<Longrightarrow> 1 \<le> i \<Longrightarrow>
   (ni \<noteq> 0 \<longrightarrow> ni \<le> 61 \<and> fst (STATIC_TABLE ! ni) = n) \<Longrightarrow>
   (case static_scan rest i ni n v of
      FullMatch k \<Rightarrow> 1 \<le> k \<and> k \<le> 61 \<and> STATIC_TABLE ! k = (n, v)
    | NameMatch k \<Rightarrow> 1 \<le> k \<and> k \<le> 61 \<and> fst (STATIC_TABLE ! k) = n
    | NoMatch \<Rightarrow> True)"
proof (induction rest arbitrary: pre i ni)
  case (Cons h rest)
  obtain n' v' where h: "h = (n', v')" by (cases h)
  have here: "STATIC_TABLE ! i = (n', v')" using Cons.prems(2) h by (simp add: Cons.prems(1))
  have "length STATIC_TABLE = length pre + 1 + length rest" by (simp add: Cons.prems(1))
  then have i: "i \<le> 61" using Cons.prems(2) length_STATIC_TABLE by simp
  have "STATIC_TABLE = (pre @ [h]) @ rest" "i + 1 = length (pre @ [h])" "1 \<le> i + 1"
    using Cons.prems by simp_all
  note IH = Cons.IH [OF this]
  consider "n' = n" "v' = v" | "n' = n" "v' \<noteq> v" | "n' \<noteq> n" by blast
  then show ?case
  proof cases
    case 1
    then show ?thesis using here i Cons.prems(3) h by simp
  next
    case 2
    then show ?thesis
      using IH [of "if ni = 0 then i else ni"] here i Cons.prems(3,4) h by simp
  next
    case 3
    then show ?thesis using IH [OF Cons.prems(4)] h by simp
  qed
qed simp

lemma staticLookup_sound:
  "staticLookup n v = FullMatch k \<Longrightarrow> 1 \<le> k \<and> k \<le> 61 \<and> STATIC_TABLE ! k = (n, v)"
  "staticLookup n v = NameMatch k \<Longrightarrow> 1 \<le> k \<and> k \<le> 61 \<and> fst (STATIC_TABLE ! k) = n"
proof -
  have "STATIC_TABLE \<noteq> []" using length_STATIC_TABLE by auto
  then have "STATIC_TABLE = [hd STATIC_TABLE] @ tl STATIC_TABLE" by simp
  from static_scan_sound [OF this, of 1 0 n v]
  show "staticLookup n v = FullMatch k \<Longrightarrow> 1 \<le> k \<and> k \<le> 61 \<and> STATIC_TABLE ! k = (n, v)"
    "staticLookup n v = NameMatch k \<Longrightarrow> 1 \<le> k \<and> k \<le> 61 \<and> fst (STATIC_TABLE ! k) = n"
    by (simp_all add: staticLookup_def split: static_match.splits)
qed

definition field_ok :: "hpack_field \<Rightarrow> bool" where
  "field_ok f \<longleftrightarrow> clean_text (hf_name f) \<and> clean_text (hf_value f)
     \<and> length (utf8 (hf_name f)) < 2 ^ 42 \<and> length (utf8 (hf_value f)) < 2 ^ 42"

definition field_header :: "hpack_field \<Rightarrow> header" where
  "field_header f = (hf_name f, hf_value f)"

definition field_indexed :: "hpack_field \<Rightarrow> bool" where
  "field_indexed f \<longleftrightarrow> (\<forall>k. staticLookup (hf_name f) (hf_value f) \<noteq> FullMatch k)
     \<and> (hf_indexing f = None \<or> hf_indexing f = Some Incremental)"

text \<open>The decoder's table after the field.\<close>

definition field_table :: "hpack_field \<Rightarrow> hpack_decoder \<Rightarrow> hpack_decoder" where
  "field_table f d = (if field_indexed f then hp_insert (hf_name f) (hf_value f) d else d)"

lemma hp_literal_reads:
  assumes f: "field_ok f" and n: "1 \<le> n" "n \<le> 8" "p * 2 ^ n + (2 ^ n - 1) < 256"
    and k: "k = 0 \<or> 1 \<le> k \<and> k \<le> 61 \<and> fst (STATIC_TABLE ! k) = hf_name f"
    and w: "w = encodeInteger k n (p * 2 ^ n) @ (if k = 0 then encodeString (utf8 (hf_name f)) else [])
              @ encodeString (utf8 (hf_value f))"
    and at: "placed block pos w"
  shows "hp_literal block pos n d = Inr (field_header f, pos + length w)"
    and "pos < length block" and "unat (block ! pos) div 2 ^ n = p"
proof -
  have at': "placed block pos (encodeInteger k n (p * 2 ^ n))" using at unfolding w placed_append by blast
  have k42: "k < 2 ^ 42" using k by auto
  note int = decodeInteger_reads [OF n k42 at']
  have names: "clean_text (hf_name f)" "clean_text (hf_value f)"
    "length (utf8 (hf_name f)) < 2 ^ 42" "length (utf8 (hf_value f)) < 2 ^ 42"
    using f by (simp_all add: field_ok_def)
  show "pos < length block" "unat (block ! pos) div 2 ^ n = p" by (rule int)+
  show "hp_literal block pos n d = Inr (field_header f, pos + length w)"
  proof (cases "k = 0")
    case True
    then have s: "placed block (pos + length (encodeInteger k n (p * 2 ^ n))) (encodeString (utf8 (hf_name f)))"
      "placed block (pos + length (encodeInteger k n (p * 2 ^ n)) + length (encodeString (utf8 (hf_name f))))
         (encodeString (utf8 (hf_value f)))"
      using at unfolding w placed_append by simp_all
    show ?thesis
      using True int(1) decodeString_reads [OF names(3) s(1)] decodeString_reads [OF names(4) s(2)]
      by (simp add: hp_literal_def w utf8_clean names field_header_def)
  next
    case False
    then have s: "placed block (pos + length (encodeInteger k n (p * 2 ^ n))) (encodeString (utf8 (hf_value f)))"
      using at unfolding w placed_append by simp
    obtain v where "STATIC_TABLE ! k = (hf_name f, v)" using False k by (cases "STATIC_TABLE ! k") auto
    with False k int(1) decodeString_reads [OF names(4) s] show ?thesis
      by (simp add: hp_literal_def w utf8_clean names field_header_def hp_lookup_def)
  qed
qed

lemma octet_below:
  "unat (x :: byte) div 64 = 1 \<Longrightarrow> unat x < 128"
  "unat x div 16 = p \<Longrightarrow> p \<le> 1 \<Longrightarrow> unat x < 32"
  using dividend_less_div_times [of 64 "unat x"] dividend_less_div_times [of 16 "unat x"] by simp_all

lemma encode_field_literal:
  assumes "\<And>k. staticLookup (hf_name f) (hf_value f) \<noteq> FullMatch k"
  obtains k where "k = 0 \<or> 1 \<le> k \<and> k \<le> 61 \<and> fst (STATIC_TABLE ! k) = hf_name f"
    and "\<And>ix n p. (case hf_indexing f of None \<Rightarrow> Incremental | Some x \<Rightarrow> x) = ix \<Longrightarrow>
       (n, p) = (case ix of Incremental \<Rightarrow> (6, 1) | Never \<Rightarrow> (4, 1) | Without \<Rightarrow> (4, 0)) \<Longrightarrow>
       encode_field f = encodeInteger k n (p * 2 ^ n)
         @ (if k = 0 then encodeString (utf8 (hf_name f)) else []) @ encodeString (utf8 (hf_value f))"
proof (cases "staticLookup (hf_name f) (hf_value f)")
  case (NameMatch k)
  have "1 \<le> k \<and> k \<le> 61 \<and> fst (STATIC_TABLE ! k) = hf_name f" by (rule staticLookup_sound(2) [OF NameMatch])
  then show ?thesis
    using NameMatch by (intro that [of k]) (auto simp: encode_field_def Let_def split: indexing.splits)
next
  case NoMatch
  then show ?thesis
    by (intro that [of 0]) (auto simp: encode_field_def Let_def split: indexing.splits)
qed (use assms in blast)

lemma field_step:
  assumes f: "field_ok f" and at: "placed block pos (encode_field f)"
    and add: "hp_add (hp_maxHeaderListSize d) (field_header f) acc = Inr acc'"
  shows "hp_decode_loop block pos saw acc d
       = hp_decode_loop block (pos + length (encode_field f)) True acc' (field_table f d)"
proof (cases "\<exists>k. staticLookup (hf_name f) (hf_value f) = FullMatch k")
  case True
  then obtain k where FullMatch: "staticLookup (hf_name f) (hf_value f) = FullMatch k" by blast
  have k: "1 \<le> k" "k \<le> 61" "STATIC_TABLE ! k = field_header f"
    using staticLookup_sound(1) [OF FullMatch] by (simp_all add: field_header_def)
  have enc: "encode_field f = encodeInteger k 7 (1 * 2 ^ 7)" using FullMatch by (simp add: encode_field_def Let_def)
  have k42: "k < 2 ^ 42" using k by simp
  note int = decodeInteger_reads [of 7 1 k block pos, simplified, OF k42 [simplified] at [unfolded enc, simplified]]
  have first: "octet_at block pos AND 0x80 \<noteq> 0" using int(3) by (simp add: octet_bit_zero(1) [OF int(2)] div_less)
  have "hp_lookup d k = Inr (field_header f)" using k by (simp add: hp_lookup_def)
  then show ?thesis
    using int(1) add FullMatch hp_loop_indexed [OF int(2) first, of saw acc d]
    by (simp add: enc field_table_def field_indexed_def)
next
  case False
  then obtain k where k: "k = 0 \<or> 1 \<le> k \<and> k \<le> 61 \<and> fst (STATIC_TABLE ! k) = hf_name f"
    and enc: "\<And>ix n p. (case hf_indexing f of None \<Rightarrow> Incremental | Some x \<Rightarrow> x) = ix \<Longrightarrow>
       (n, p) = (case ix of Incremental \<Rightarrow> (6, 1) | Never \<Rightarrow> (4, 1) | Without \<Rightarrow> (4, 0)) \<Longrightarrow>
       encode_field f = encodeInteger k n (p * 2 ^ n)
         @ (if k = 0 then encodeString (utf8 (hf_name f)) else []) @ encodeString (utf8 (hf_value f))"
    using encode_field_literal [of f] by blast
  consider "hf_indexing f = None \<or> hf_indexing f = Some Incremental" | "hf_indexing f = Some Never"
    | "hf_indexing f = Some Without" by (cases "hf_indexing f"; cases "the (hf_indexing f)") auto
  then show ?thesis
  proof cases
    case 1
    then have e: "(case hf_indexing f of None \<Rightarrow> Incremental | Some x \<Rightarrow> x) = Incremental" by auto
    note lit = hp_literal_reads [OF f _ _ _ k enc [OF e, of 6 1] at, simplified]
    have "octet_at block pos AND 0x80 = 0" "octet_at block pos AND 0x40 \<noteq> 0"
      using lit(3) octet_below(1) by (simp_all add: octet_bit_zero [OF lit(2)])
    from hp_loop_incremental [OF lit(2) this, of saw acc d] lit(1) add 1 False show ?thesis
      by (auto simp: field_table_def field_indexed_def field_header_def)
  next
    case 2
    then have e: "(case hf_indexing f of None \<Rightarrow> Incremental | Some x \<Rightarrow> x) = Never" by auto
    note lit = hp_literal_reads [OF f _ _ _ k enc [OF e, of 4 1] at, simplified]
    have "octet_at block pos AND 0x80 = 0" "octet_at block pos AND 0x40 = 0" "octet_at block pos AND 0x20 = 0"
      using octet_below(2) [OF lit(3)] by (simp_all add: octet_bit_zero [OF lit(2)])
    from hp_loop_plain [OF lit(2) this, of saw acc d] lit(1) add 2 show ?thesis
      by (simp add: field_table_def field_indexed_def field_header_def)
  next
    case 3
    then have e: "(case hf_indexing f of None \<Rightarrow> Incremental | Some x \<Rightarrow> x) = Without" by auto
    note lit = hp_literal_reads [OF f _ _ _ k enc [OF e, of 4 0] at, simplified]
    have "octet_at block pos AND 0x80 = 0" "octet_at block pos AND 0x40 = 0" "octet_at block pos AND 0x20 = 0"
      using lit(3) by (simp_all add: octet_bit_zero [OF lit(2)] div_eq_0_iff)
    from hp_loop_plain [OF lit(2) this, of saw acc d] lit(1) add 3 show ?thesis
      by (simp add: field_table_def field_indexed_def field_header_def)
  qed
qed

subsection \<open>Blocks\<close>

lemma field_table_limit: "sized d \<Longrightarrow> hp_maxHeaderListSize (field_table f d) = hp_maxHeaderListSize d"
  "sized d \<Longrightarrow> sized (field_table f d)"
  by (simp_all add: field_table_def hp_insert_fit)

lemma fields_read:
  "list_all field_ok fs \<Longrightarrow> placed block pos (concat (map encode_field fs)) \<Longrightarrow>
   pos + length (concat (map encode_field fs)) = length block \<Longrightarrow> sized d \<Longrightarrow>
   ls + list_size (map field_header fs) \<le> hp_maxHeaderListSize d \<Longrightarrow>
   hp_decode_loop block pos saw (ls, out) d = (Inr (out @ map field_header fs), fold field_table fs d)"
proof (induction fs arbitrary: pos saw ls out d)
  case Nil
  then show ?case by (simp add: hp_loop_end)
next
  case (Cons f fs)
  have f: "field_ok f" and at: "placed block pos (encode_field f)"
    "placed block (pos + length (encode_field f)) (concat (map encode_field fs))"
    using Cons.prems(1,2) by (simp_all add: placed_append)
  let ?ls = "ls + length (hf_name f) + length (hf_value f) + 32"
  have ls: "?ls + list_size (map field_header fs) \<le> hp_maxHeaderListSize d"
    using Cons.prems(5) by (simp add: list_size_def field_header_def [of f])
  then have "hp_add (hp_maxHeaderListSize d) (field_header f) (ls, out) = Inr (?ls, out @ [field_header f])"
    by (simp add: hp_add_def field_header_def)
  from field_step [OF f at(1) this, of saw] Cons.IH [OF _ at(2), of "field_table f d"] Cons.prems ls
  show ?case by (simp add: field_table_limit)
qed

lemma hpack_round_trip:
  assumes "list_all field_ok fs" "sized d" "list_size (map field_header fs) \<le> hp_maxHeaderListSize d"
  shows "hpack_decode (encodeHeaderBlock fs) d = (Inr (map field_header fs), fold field_table fs d)"
proof -
  let ?b = "concat (map encode_field fs)"
  have "placed ?b 0 ?b" by (simp add: placed_def)
  from fields_read [OF assms(1) this _ assms(2), of 0 False "[]"] assms(3)
  show ?thesis by (simp add: hpack_decode_def encodeHeaderBlock_def concat_bytes_def)
qed

end
