(* ===== verification/Text.thy ===== *)
theory Text
  imports Errors
begin

text \<open>
  The parts of JavaScript's string library, the regular expressions and the platform's \<open>Headers\<close>
  class that the HTTP components share. A string is a list of UTF-16 code units.
\<close>

subsection \<open>Character classes\<close>

definition is_digit :: "nat \<Rightarrow> bool" where
  "is_digit u \<longleftrightarrow> 0x30 \<le> u \<and> u \<le> 0x39"

definition is_upper :: "nat \<Rightarrow> bool" where
  "is_upper u \<longleftrightarrow> 0x41 \<le> u \<and> u \<le> 0x5A"

definition is_lower :: "nat \<Rightarrow> bool" where
  "is_lower u \<longleftrightarrow> 0x61 \<le> u \<and> u \<le> 0x7A"

definition is_hex :: "nat \<Rightarrow> bool" where
  "is_hex u \<longleftrightarrow> is_digit u \<or> (0x41 \<le> u \<and> u \<le> 0x46) \<or> (0x61 \<le> u \<and> u \<le> 0x66)"

text \<open>\<open>[A-Za-z0-9!#$%&'*+\-.^_`|~]\<close>.\<close>

definition tchar :: "nat \<Rightarrow> bool" where
  "tchar u \<longleftrightarrow> is_digit u \<or> is_upper u \<or> is_lower u
     \<or> u \<in> {0x21, 0x23, 0x24, 0x25, 0x26, 0x27, 0x2A, 0x2B, 0x2D, 0x2E, 0x5E, 0x5F, 0x60, 0x7C, 0x7E}"

text \<open>\<open>TOKEN_RE\<close> and \<open>FIELD_VALUE_RE\<close>.\<close>

definition is_token :: "jsstr \<Rightarrow> bool" where
  "is_token s \<longleftrightarrow> s \<noteq> [] \<and> list_all tchar s"

definition field_char :: "nat \<Rightarrow> bool" where
  "field_char u \<longleftrightarrow> u = 0x09 \<or> (0x20 \<le> u \<and> u \<le> 0x7E) \<or> (0x80 \<le> u \<and> u \<le> 0xFF)"

definition is_field_value :: "jsstr \<Rightarrow> bool" where
  "is_field_value s \<longleftrightarrow> list_all field_char s"

definition is_ows :: "nat \<Rightarrow> bool" where
  "is_ows u \<longleftrightarrow> u = 0x20 \<or> u = 0x09"

text \<open>What \<open>String.prototype.trim\<close> removes: WhiteSpace and LineTerminator.\<close>

definition js_space :: "nat \<Rightarrow> bool" where
  "js_space u \<longleftrightarrow> u \<in> {0x09, 0x0A, 0x0B, 0x0C, 0x0D, 0x20, 0xA0, 0x1680, 0x2028, 0x2029, 0x202F, 0x205F,
                   0x3000, 0xFEFF} \<or> (0x2000 \<le> u \<and> u \<le> 0x200A)"

subsection \<open>Operations\<close>

definition strip :: "(nat \<Rightarrow> bool) \<Rightarrow> jsstr \<Rightarrow> jsstr" where
  "strip P s = rev (dropWhile P (rev (dropWhile P s)))"

text \<open>\<open>s.replace(/^[ \t]+|[ \t]+$/g, '')\<close> and \<open>s.trim()\<close>.\<close>

definition strip_ows :: "jsstr \<Rightarrow> jsstr" where
  "strip_ows s = strip is_ows s"

definition js_trim :: "jsstr \<Rightarrow> jsstr" where
  "js_trim s = strip js_space s"

text \<open>
  \<open>s.toLowerCase()\<close> on code units below 0x100. Larger ones are left alone: none of them is lowered to
  a string the source compares with.
\<close>

definition lower_unit :: "nat \<Rightarrow> nat" where
  "lower_unit u = (if is_upper u \<or> (0xC0 \<le> u \<and> u \<le> 0xDE \<and> u \<noteq> 0xD7) then u + 0x20 else u)"

definition toLowerCase :: "jsstr \<Rightarrow> jsstr" where
  "toLowerCase s = map lower_unit s"

text \<open>\<open>s.indexOf(c)\<close> for a single character, \<open>s.split(c)\<close>.\<close>

fun index_unit :: "nat \<Rightarrow> jsstr \<Rightarrow> nat option" where
  "index_unit c [] = None"
| "index_unit c (u # s) = (if u = c then Some 0 else map_option Suc (index_unit c s))"

fun split_unit :: "nat \<Rightarrow> jsstr \<Rightarrow> jsstr list" where
  "split_unit c [] = [[]]"
| "split_unit c (u # s) =
     (if u = c then [] # split_unit c s
      else case split_unit c s of [] \<Rightarrow> [[u]] | p # ps \<Rightarrow> (u # p) # ps)"

definition ends_crlf :: "jsstr \<Rightarrow> bool" where
  "ends_crlf s \<longleftrightarrow> length s \<ge> 2 \<and> drop (length s - 2) s = [0x0D, 0x0A]"

text \<open>The value of a digit string; \<open>parseInt(s, 16)\<close> and \<open>Number(s)\<close> on a checked one.\<close>

definition hex_value :: "nat \<Rightarrow> nat" where
  "hex_value u = (if is_digit u then u - 0x30 else if is_upper u then u - 0x37 else u - 0x57)"

definition parse_base :: "nat \<Rightarrow> jsstr \<Rightarrow> nat" where
  "parse_base k s = foldl (\<lambda>a u. k * a + hex_value u) 0 s"

subsection \<open>Headers\<close>

text \<open>
  The platform's \<open>Headers\<close>: the fields in order of arrival, names lower-cased. \<open>append\<close> checks the
  name and the value as the Fetch standard says and throws a \<open>TypeError\<close> otherwise; \<open>get\<close> joins all
  values of a name with a comma and a space.
\<close>

type_synonym headers = "(jsstr \<times> jsstr) list"

definition http_space :: "nat \<Rightarrow> bool" where
  "http_space u \<longleftrightarrow> u \<in> {0x09, 0x0A, 0x0D, 0x20}"

definition headers_append :: "jsstr \<Rightarrow> jsstr \<Rightarrow> headers \<Rightarrow> tf_error + headers" where
  "headers_append name val hs =
     (let v = strip http_space val
      in if \<not> is_token name \<or> \<not> list_all (\<lambda>u. u < 0x100 \<and> u \<notin> {0, 0x0A, 0x0D}) v
         then Inl PlatformTypeError
         else Inr (hs @ [(toLowerCase name, v)]))"

fun join_comma :: "jsstr list \<Rightarrow> jsstr" where
  "join_comma [] = []"
| "join_comma [s] = s"
| "join_comma (s # r) = s @ [0x2C, 0x20] @ join_comma r"

definition headers_get :: "jsstr \<Rightarrow> headers \<Rightarrow> jsstr option" where
  "headers_get name hs =
     (case map snd (filter (\<lambda>h. fst h = toLowerCase name) hs) of [] \<Rightarrow> None | vs \<Rightarrow> Some (join_comma vs))"

definition headers_has :: "jsstr \<Rightarrow> headers \<Rightarrow> bool" where
  "headers_has name hs \<longleftrightarrow> headers_get name hs \<noteq> None"

subsection \<open>Lemmas\<close>

lemma strip_incl: "set (strip P s) \<subseteq> set s"
  unfolding strip_def by (auto dest!: set_dropWhileD)

lemma strip_id:
  assumes "s = [] \<or> (\<not> P (hd s) \<and> \<not> P (last s))"
  shows "strip P s = s"
proof (cases "s = []")
  case False
  have "dropWhile P s = s" using assms False by (cases s) auto
  moreover have "dropWhile P (rev s) = rev s" using assms False by (cases s rule: rev_cases) auto
  ultimately show ?thesis by (simp add: strip_def)
qed (simp add: strip_def)

lemma strip_no_space: "list_all (\<lambda>u. \<not> P u) s \<Longrightarrow> strip P s = s"
  by (rule strip_id) (auto simp: list_all_iff)

lemma strip_padded:
  assumes "list_all P a" "list_all P b" "s = [] \<or> (\<not> P (hd s) \<and> \<not> P (last s))"
  shows "strip P (a @ s @ b) = s"
proof -
  have drop: "dropWhile P (x @ y) = dropWhile P y" if "list_all P x" for x y
    using that by (induction x) auto
  have rev: "list_all P (rev b)" using assms(2) by (simp add: list_all_iff)
  have none: "list_all P x \<Longrightarrow> dropWhile P x = []" for x by (induction x) auto
  show ?thesis
  proof (cases "s = []")
    case True
    have "dropWhile P (a @ b) = []" unfolding drop [OF assms(1)] by (rule none [OF assms(2)])
    then show ?thesis by (simp only: strip_def True append_Nil rev.simps dropWhile.simps)
  next
    case False
    then have "dropWhile P (a @ s @ b) = s @ b"
      using assms(3) drop [OF assms(1)] by (cases s) auto
    moreover have "dropWhile P (rev b @ rev s) = rev s"
      using False assms(3) drop [OF rev] by (cases s rule: rev_cases) auto
    ultimately show ?thesis by (simp add: strip_def)
  qed
qed

lemma index_unit_Some:
  "index_unit c s = Some k \<Longrightarrow> k < length s \<and> s ! k = c \<and> c \<notin> set (take k s)"
proof (induction s arbitrary: k)
  case (Cons u s)
  then show ?case by (cases k) (auto split: if_splits)
qed simp

lemma index_unit_append: "c \<notin> set s \<Longrightarrow> index_unit c (s @ c # t) = Some (length s)"
  by (induction s) auto

lemma index_unit_None: "index_unit c s = None \<longleftrightarrow> c \<notin> set s"
  by (induction s) auto

lemma split_unit_nonempty [simp]: "split_unit c s \<noteq> []"
  by (induction s) (auto split: list.split)

lemma split_unit_plain: "c \<notin> set s \<Longrightarrow> split_unit c s = [s]"
  by (induction s) auto

lemma parse_base_bound: "k > 0 \<Longrightarrow> list_all (\<lambda>u. hex_value u < k) s \<Longrightarrow> parse_base k s < k ^ length s"
proof (induction s rule: rev_induct)
  case Nil
  then show ?case by (simp add: parse_base_def)
next
  case (snoc u s)
  then have "parse_base k s + 1 \<le> k ^ length s" "hex_value u < k" by (simp_all add: Suc_le_eq)
  then have "k * (parse_base k s + 1) \<le> k * k ^ length s" by (intro mult_le_mono2)
  with \<open>hex_value u < k\<close> show ?case by (simp add: parse_base_def algebra_simps)
qed

lemma tchar_not_space: "tchar u \<Longrightarrow> \<not> js_space u" "tchar u \<Longrightarrow> \<not> is_ows u" "tchar u \<Longrightarrow> u < 0x80"
  by (auto simp: tchar_def js_space_def is_ows_def is_digit_def is_upper_def is_lower_def)

text \<open>A token name and a checked value are never refused by \<open>append\<close>.\<close>

lemma headers_append_checked:
  assumes "is_token name" "is_field_value val"
  shows "headers_append name val hs = Inr (hs @ [(toLowerCase name, strip http_space val)])"
proof -
  have "list_all (\<lambda>u. u < 0x100 \<and> u \<notin> {0, 0x0A, 0x0D}) (strip http_space val)"
  proof -
    have "u < 0x100 \<and> u \<notin> {0, 0x0A, 0x0D}" if "u \<in> set val" for u
    proof -
      have "field_char u" using assms(2) that by (simp add: is_field_value_def list_all_iff)
      then show ?thesis by (auto simp: field_char_def)
    qed
    with strip_incl [of http_space val] show ?thesis unfolding list_all_iff by blast
  qed
  with assms(1) show ?thesis by (simp add: headers_append_def)
qed

lemma headers_get_append:
  "headers_get n (hs @ [(m, v)]) =
     (if m \<noteq> toLowerCase n then headers_get n hs
      else case headers_get n hs of None \<Rightarrow> Some v | Some w \<Rightarrow> Some (w @ [0x2C, 0x20] @ v))"
proof -
  have join: "join_comma (xs @ [v]) = join_comma xs @ [0x2C, 0x20] @ v" if "xs \<noteq> []" for xs
    using that by (induction xs rule: join_comma.induct) auto
  let ?vs = "map snd (filter (\<lambda>h. fst h = toLowerCase n) hs)"
  show ?thesis
  proof (cases ?vs)
    case Nil
    then show ?thesis by (simp add: headers_get_def)
  next
    case (Cons x xs)
    then show ?thesis using join [of ?vs] by (simp add: headers_get_def split: list.split)
  qed
qed

end
