(* ===== verification/Streams.thy ===== *)
theory Streams
  imports Readers
begin

text \<open>
  The platform's \<open>ReadableStream\<close> as the body decoders use it: a source with a \<open>pull\<close> callback that
  enqueues data, closes or errors. A pull that never settles is \<open>None\<close>. \<open>drain\<close> is a consumer that
  reads to the end; \<open>fuel\<close> bounds the number of pulls.
\<close>

datatype pull_result = Enqueue bytes | EnqueueClose bytes | Close | Error tf_error

fun drain :: "nat \<Rightarrow> ('t \<Rightarrow> (pull_result \<times> 't) option) \<Rightarrow> 't \<Rightarrow> bytes \<Rightarrow> (bytes \<times> tf_error option \<times> 't) option"
where
  "drain 0 p s acc = None"
| "drain (Suc fuel) p s acc =
     (case p s of
        None \<Rightarrow> None
      | Some (Enqueue b, s') \<Rightarrow> drain fuel p s' (acc @ b)
      | Some (EnqueueClose b, s') \<Rightarrow> Some (acc @ b, None, s')
      | Some (Close, s') \<Rightarrow> Some (acc, None, s')
      | Some (Error e, s') \<Rightarrow> Some (acc, Some e, s'))"

lemma drain_mono: "drain fuel p s acc = Some r \<Longrightarrow> fuel \<le> fuel' \<Longrightarrow> drain fuel' p s acc = Some r"
proof (induction fuel arbitrary: s acc fuel')
  case (Suc fuel)
  then obtain k where k: "fuel' = Suc k" "fuel \<le> k" by (cases fuel') auto
  show ?case
  proof (cases "p s")
    case None
    with Suc.prems show ?thesis by simp
  next
    case (Some rs)
    with Suc k show ?thesis by (cases rs; cases "fst rs") auto
  qed
qed simp

text \<open>A promise of a value, settled once.\<close>

datatype 'a promise = Pending | Resolved 'a | Rejected tf_error

definition settle :: "'a promise \<Rightarrow> 'a promise \<Rightarrow> 'a promise" where
  "settle new old = (case old of Pending \<Rightarrow> new | _ \<Rightarrow> old)"

lemma settle_simps [simp]:
  "settle new Pending = new" "settle new (Resolved x) = Resolved x" "settle new (Rejected e) = Rejected e"
  by (simp_all add: settle_def)

subsection \<open>Lines\<close>

lemma indexOf_single:
  assumes "c \<notin> set h"
  shows "indexOf (h @ c # t) [c] 0 = Some (length h)"
proof -
  have "\<not> matches_at (h @ c # t) [c] j" if "j < length h" for j
  proof
    assume "matches_at (h @ c # t) [c] j"
    then have m: "j < length (h @ c # t)" "take 1 (drop j (h @ c # t)) = [c]"
      by (simp_all add: matches_at_def)
    have d: "drop j (h @ c # t) = (h @ c # t) ! j # drop (Suc j) (h @ c # t)"
      by (rule Cons_nth_drop_Suc [symmetric]) (rule m(1))
    have "take 1 ((h @ c # t) ! j # drop (Suc j) (h @ c # t)) = [c]" using m(2) by (simp only: d)
    then have "(h @ c # t) ! j = c" by (simp only: take_Suc_Cons One_nat_def list.inject)
    then show False using that assms nth_mem [OF that] by (simp add: nth_append)
  qed
  moreover have "matches_at (h @ c # t) [c] (length h)" by (simp add: matches_at_def)
  ultimately show ?thesis by (simp add: indexOf_def index_scan_Some)
qed

lemma wire_until_line:
  assumes "c \<notin> set h" "length h < m"
  shows "wire_until [c] m (h @ c # t, e) = (Inr (h @ [c]), (t, e))"
  using assms by (simp add: wire_until_def indexOf_single Let_def)

end
