(* ===== verification/Chunked.thy ===== *)
theory Chunked
  imports Text Streams ByteReader
begin

text \<open>
  \<open>src/http1/chunked.js\<close>: the decoder of the chunked transfer coding. The decoder's local variables
  (\<open>state\<close>, \<open>remaining\<close>, \<open>total\<close>) and the promise of the trailers are the record \<open>chunk_decoder\<close>;
  \<open>chunk_pull\<close> is the stream's \<open>pull\<close> callback. The size and data steps of \<open>drive\<close> run over the
  operations of a reader.
\<close>

definition CHUNK_LINE_MAX :: nat where [simp]: "CHUNK_LINE_MAX = 1024"

definition LF :: bytes where "LF = [0x0A]"

abbreviation http_error :: "http_code \<Rightarrow> tf_error" where
  "http_error c \<equiv> Thrown HttpError (Http c)"

record chunked_options =
  co_maxBytes :: "nat option"
  co_maxChunkSize :: nat
  co_maxTrailerBytes :: nat

definition default_chunked_options :: chunked_options where
  "default_chunked_options =
     \<lparr> co_maxBytes = None, co_maxChunkSize = 64 * 1024 * 1024, co_maxTrailerBytes = 8192 \<rparr>"

subsection \<open>Lines\<close>

definition readChunkLine :: "'s reader_ops \<Rightarrow> ('s, tf_error, jsstr) action" where
  "readChunkLine R =
     bindA (catchA (rd_until R LF CHUNK_LINE_MAX)
              (\<lambda>e. if instanceof e UnexpectedEofError then throwA (http_error HTTP_BODY_TRUNCATED)
                   else if instanceof e LimitError then throwA (http_error HTTP_CHUNK)
                   else throwA e))
       (\<lambda>raw. let line = latin1 raw
              in if \<not> ends_crlf line then throwA (http_error HTTP_CHUNK)
                 else returnA (take (length line - 2) line))"

text \<open>\<open>SIZE_LINE_RE\<close>: the digits, when the line matches. A dot does not match a line terminator.\<close>

definition size_line :: "jsstr \<Rightarrow> jsstr option" where
  "size_line line =
     (let digits = takeWhile is_hex line; rest = dropWhile is_hex line
      in if digits = [] then None
         else if rest = [] then Some digits
         else (case dropWhile is_ows rest of
                 [] \<Rightarrow> None
               | c # ext \<Rightarrow> if c = 0x3B \<and> list_all (\<lambda>u. u \<notin> {0x0A, 0x0D, 0x2028, 0x2029}) ext
                             then Some digits else None))"

text \<open>One trailer line (without its CRLF): \<open>None\<close> is the empty line that ends the section.\<close>

definition trailer_line :: "jsstr \<Rightarrow> headers \<Rightarrow> tf_error + headers option" where
  "trailer_line s trailers =
     (if s = [] then Inr None
      else if hd s = 0x20 \<or> hd s = 0x09 then Inl (http_error HTTP_TRAILER)
      else case index_unit 0x3A s of
             None \<Rightarrow> Inl (http_error HTTP_TRAILER)
           | Some colon \<Rightarrow>
               if colon = 0 then Inl (http_error HTTP_TRAILER)
               else
                 (let name = take colon s; val = strip_ows (drop (colon + 1) s)
                  in if \<not> is_token name then Inl (http_error HTTP_TRAILER)
                     else if \<not> is_field_value val then Inl (http_error HTTP_TRAILER)
                     else bindE (headers_append name val trailers) (\<lambda>t. Inr (Some t))))"

text \<open>The loop of \<open>readTrailers\<close>; every turn consumes at least one octet of the budget \<open>left\<close>.\<close>

fun trailer_loop ::
  "nat \<Rightarrow> 's reader_ops \<Rightarrow> nat \<Rightarrow> headers \<Rightarrow> 's \<Rightarrow> ((tf_error + headers) \<times> 's) option" where
  "trailer_loop 0 R left trailers s = None"
| "trailer_loop (Suc fuel) R left trailers s =
     (case catchA (rd_until R LF left)
             (\<lambda>e. if instanceof e UnexpectedEofError then throwA (http_error HTTP_BODY_TRUNCATED)
                  else throwA e) s of
        (Inl e, s') \<Rightarrow> Some (Inl e, s')
      | (Inr raw, s') \<Rightarrow>
          (let line = latin1 raw
           in if \<not> ends_crlf line then Some (Inl (http_error HTTP_TRAILER), s')
              else case trailer_line (take (length line - 2) line) trailers of
                     Inl e \<Rightarrow> Some (Inl e, s')
                   | Inr None \<Rightarrow> Some (Inr trailers, s')
                   | Inr (Some t) \<Rightarrow> trailer_loop fuel R (left - length raw) t s'))"

definition readTrailers :: "'s reader_ops \<Rightarrow> nat \<Rightarrow> 's \<Rightarrow> ((tf_error + headers) \<times> 's) option" where
  "readTrailers R maxTrailerBytes s = trailer_loop (Suc maxTrailerBytes) R maxTrailerBytes [] s"

subsection \<open>The decoder\<close>

datatype chunk_state = CSize | CData | CDataCrlf | CDone

record chunk_decoder =
  cd_state :: chunk_state
  cd_remaining :: nat
  cd_total :: nat
  cd_trailers :: "headers option promise"

definition decodeChunked :: chunk_decoder where
  "decodeChunked = \<lparr> cd_state = CSize, cd_remaining = 0, cd_total = 0, cd_trailers = Pending \<rparr>"

definition drive_data ::
  "'s reader_ops \<Rightarrow> chunk_decoder \<Rightarrow> 's \<Rightarrow> (tf_error + pull_result) \<times> chunk_decoder \<times> 's" where
  "drive_data R c s =
     (case rd_some R (min (cd_remaining c) 65536) s of
        (Inl e, s') \<Rightarrow> (Inl e, c, s')
      | (Inr None, s') \<Rightarrow> (Inl (http_error HTTP_BODY_TRUNCATED), c, s')
      | (Inr (Some chunk), s') \<Rightarrow>
          (let remaining = cd_remaining c - length chunk
           in (Inr (Enqueue chunk),
               c\<lparr>cd_remaining := remaining, cd_total := cd_total c + length chunk,
                 cd_state := (if remaining = 0 then CDataCrlf else CData)\<rparr>,
               s')))"

text \<open>The checks on a size line, in order.\<close>

definition chunk_size :: "chunked_options \<Rightarrow> nat \<Rightarrow> jsstr \<Rightarrow> tf_error + nat" where
  "chunk_size opts tot line =
     (case size_line line of
        None \<Rightarrow> Inl (http_error HTTP_CHUNK)
      | Some digits \<Rightarrow>
          (let sz = parse_base 16 digits
           in if sz > max_safe_integer then Inl (http_error HTTP_CHUNK)
              else if sz > co_maxChunkSize opts then Inl (http_error HTTP_CHUNK)
              else if sz \<noteq> 0 \<and> (case co_maxBytes opts of None \<Rightarrow> False | Some m \<Rightarrow> tot + sz > m)
              then Inl (Thrown LimitError (Limit LIMIT_BODY))
              else Inr sz))"

definition drive_size ::
  "'s reader_ops \<Rightarrow> chunked_options \<Rightarrow> chunk_decoder \<Rightarrow> 's
     \<Rightarrow> ((tf_error + pull_result) \<times> chunk_decoder \<times> 's) option" where
  "drive_size R opts c s =
     (case readChunkLine R s of
        (Inl e, s') \<Rightarrow> Some (Inl e, c, s')
      | (Inr line, s') \<Rightarrow>
          (case chunk_size opts (cd_total c) line of
             Inl e \<Rightarrow> Some (Inl e, c, s')
           | Inr sz \<Rightarrow>
               if sz = 0 then
                 (case readTrailers R (co_maxTrailerBytes opts) s' of
                    None \<Rightarrow> None
                  | Some (Inl e, s'') \<Rightarrow> Some (Inl e, c, s'')
                  | Some (Inr trailers, s'') \<Rightarrow>
                      Some (Inr Close,
                            c\<lparr>cd_state := CDone, cd_trailers := settle (Resolved (Some trailers)) (cd_trailers c)\<rparr>,
                            s''))
               else Some (drive_data R (c\<lparr>cd_remaining := sz, cd_state := CData\<rparr>) s')))"

definition read_data_crlf :: "'s reader_ops \<Rightarrow> ('s, tf_error, unit) action" where
  "read_data_crlf R =
     bindA (catchA (rd_exactly R 2)
              (\<lambda>e. if instanceof e UnexpectedEofError then throwA (http_error HTTP_BODY_TRUNCATED)
                   else throwA e))
       (\<lambda>two. if two ! 0 \<noteq> 0x0D \<or> two ! 1 \<noteq> 0x0A then throwA (http_error HTTP_CHUNK) else returnA ())"

definition drive ::
  "'s reader_ops \<Rightarrow> chunked_options \<Rightarrow> chunk_decoder \<Rightarrow> 's
     \<Rightarrow> ((tf_error + pull_result) \<times> chunk_decoder \<times> 's) option" where
  "drive R opts c s =
     (case cd_state c of
        CSize \<Rightarrow> drive_size R opts c s
      | CData \<Rightarrow> Some (drive_data R c s)
      | CDataCrlf \<Rightarrow>
          (case read_data_crlf R s of
             (Inl e, s') \<Rightarrow> Some (Inl e, c, s')
           | (Inr _, s') \<Rightarrow> drive_size R opts (c\<lparr>cd_state := CSize\<rparr>) s')
      | CDone \<Rightarrow> Some (Inr Close, c, s))"

definition chunk_pull ::
  "'s reader_ops \<Rightarrow> chunked_options \<Rightarrow> chunk_decoder \<times> 's \<Rightarrow> (pull_result \<times> chunk_decoder \<times> 's) option" where
  "chunk_pull R opts cs =
     (case drive R opts (fst cs) (snd cs) of
        None \<Rightarrow> None
      | Some (Inl e, c, s) \<Rightarrow>
          Some (Error e, c\<lparr>cd_state := CDone, cd_trailers := settle (Rejected e) (cd_trailers c)\<rparr>, s)
      | Some (Inr r, c, s) \<Rightarrow> Some (r, c, s))"

definition chunk_cancel :: "chunk_decoder \<Rightarrow> chunk_decoder" where
  "chunk_cancel c = c\<lparr>cd_state := CDone, cd_trailers := settle (Resolved None) (cd_trailers c)\<rparr>"

end
