(* ===== verification/Chunked_Correct.thy ===== *)
theory Chunked_Correct
  imports Chunked
begin

text \<open>
  The chunked decoder against a reference that holds the whole input: draining the stream gives the
  payload, the outcome and the position of the reference, for every fragmentation of the input and
  every cut of the reads, and always ends.
\<close>

subsection \<open>The reference decoder\<close>

lemma catch_until_Inr:
  assumes "catchA (wire_until d m) h w = (Inr raw, w')" and h: "\<And>e w. \<exists>e'. h e w = (Inl e', w)"
  shows "wire_until d m w = (Inr raw, w')"
proof -
  obtain r w1 where m: "wire_until d m w = (r, w1)" by (cases "wire_until d m w")
  show ?thesis
  proof (cases r)
    case (Inl e)
    obtain e' where "h e w1 = (Inl e', w1)" using h by blast
    with assms(1) m Inl show ?thesis by simp
  qed (use assms(1) m in simp)
qed

lemma readChunkLine_shrinks:
  assumes "readChunkLine wire_ops w = (Inr line, w')"
  shows "length (fst w') < length (fst w)"
proof -
  obtain raw w1 where c: "catchA (wire_until LF CHUNK_LINE_MAX)
              (\<lambda>e. if instanceof e UnexpectedEofError then throwA (http_error HTTP_BODY_TRUNCATED)
                   else if instanceof e LimitError then throwA (http_error HTTP_CHUNK)
                   else throwA e) w = (Inr raw, w1)" and w1: "w' = w1"
    using assms by (auto simp: readChunkLine_def bindA_Inr_conv Let_def split: if_splits)
  have "wire_until LF CHUNK_LINE_MAX w = (Inr raw, w1)" by (rule catch_until_Inr [OF c]) auto
  from wire_until_length [OF this] show ?thesis using w1 by simp
qed

lemma read_data_crlf_shrinks:
  "read_data_crlf wire_ops w = (Inr u, w') \<Longrightarrow> length (fst w') < length (fst w)"
  by (auto simp: read_data_crlf_def bindA_def catchA_def wire_exactly_def split: if_splits)

lemma chunk_round_shrinks:
  assumes "readChunkLine wire_ops w = (Inr line, w1)" "read_data_crlf wire_ops (drop k (fst w1), snd w1) = (Inr u, w2)"
  shows "length (fst w2) < length (fst w)"
  using readChunkLine_shrinks [OF assms(1)] read_data_crlf_shrinks [OF assms(2)] by simp

definition chunk_end_error :: "source_end \<Rightarrow> tf_error" where
  "chunk_end_error e = (case e of CleanEnd \<Rightarrow> http_error HTTP_BODY_TRUNCATED | Fails n \<Rightarrow> TransportFailure n)"

text \<open>Payload so far, outcome, and the input left.\<close>

type_synonym chunked_result = "bytes \<times> (tf_error + headers) \<times> wire"

function chunked_ref :: "chunked_options \<Rightarrow> nat \<Rightarrow> bytes \<Rightarrow> wire \<Rightarrow> chunked_result" where
  "chunked_ref opts tot acc w =
     (case readChunkLine wire_ops w of
        (Inl e, w1) \<Rightarrow> (acc, Inl e, w1)
      | (Inr line, w1) \<Rightarrow>
          (case chunk_size opts tot line of
             Inl e \<Rightarrow> (acc, Inl e, w1)
           | Inr sz \<Rightarrow>
               if sz = 0 then (acc, the (readTrailers wire_ops (co_maxTrailerBytes opts) w1))
               else if length (fst w1) < sz then (acc @ fst w1, Inl (chunk_end_error (snd w1)), ([], snd w1))
               else (case read_data_crlf wire_ops (drop sz (fst w1), snd w1) of
                       (Inl e, w2) \<Rightarrow> (acc @ take sz (fst w1), Inl e, w2)
                     | (Inr _, w2) \<Rightarrow> chunked_ref opts (tot + sz) (acc @ take sz (fst w1)) w2)))"
  by pat_completeness auto
termination
  by (relation "measure (\<lambda>(opts, tot, acc, w). length (fst w))")
    (auto dest: chunk_round_shrinks [OF sym sym])

declare chunked_ref.simps [simp del]

definition ref_crlf :: "chunked_options \<Rightarrow> nat \<Rightarrow> bytes \<Rightarrow> wire \<Rightarrow> chunked_result" where
  "ref_crlf opts tot acc w =
     (case read_data_crlf wire_ops w of
        (Inl e, w') \<Rightarrow> (acc, Inl e, w')
      | (Inr _, w') \<Rightarrow> chunked_ref opts tot acc w')"

definition ref_data :: "chunked_options \<Rightarrow> nat \<Rightarrow> nat \<Rightarrow> bytes \<Rightarrow> wire \<Rightarrow> chunked_result" where
  "ref_data opts r tot acc w =
     (if length (fst w) < r then (acc @ fst w, Inl (chunk_end_error (snd w)), ([], snd w))
      else ref_crlf opts (tot + r) (acc @ take r (fst w)) (drop r (fst w), snd w))"

lemma chunked_ref_data:
  "readChunkLine wire_ops w = (Inr line, w1) \<Longrightarrow> chunk_size opts tot line = Inr sz \<Longrightarrow> sz \<noteq> 0 \<Longrightarrow>
   chunked_ref opts tot acc w = ref_data opts sz tot acc w1"
  by (subst chunked_ref.simps) (simp add: ref_data_def ref_crlf_def)

definition ref_at :: "chunked_options \<Rightarrow> chunk_decoder \<Rightarrow> bytes \<Rightarrow> wire \<Rightarrow> chunked_result" where
  "ref_at opts c acc w =
     (case cd_state c of
        CSize \<Rightarrow> chunked_ref opts (cd_total c) acc w
      | CData \<Rightarrow> ref_data opts (cd_remaining c) (cd_total c) acc w
      | CDataCrlf \<Rightarrow> ref_crlf opts (cd_total c) acc w
      | CDone \<Rightarrow> (acc, Inr [], w))"

subsection \<open>Trailers\<close>

lemma trailer_loop_total:
  "left < fuel \<Longrightarrow> \<exists>r. trailer_loop fuel wire_ops left t w = Some r"
proof (induction fuel arbitrary: left t w)
  case (Suc fuel)
  let ?c = "catchA (wire_until LF left)
             (\<lambda>e. if instanceof e UnexpectedEofError then throwA (http_error HTTP_BODY_TRUNCATED)
                  else throwA e) w"
  show ?case
  proof (cases "fst ?c")
    case (Inr raw)
    then obtain w' where c: "?c = (Inr raw, w')" by (cases ?c) simp
    have "wire_until LF left w = (Inr raw, w')" by (rule catch_until_Inr [OF c]) auto
    from wire_until_length [OF this] have "0 < length raw" "length raw \<le> left" by simp_all
    then have "left - length raw < fuel" using Suc.prems by linarith
    note IH = Suc.IH [OF this]
    show ?thesis
    proof (cases "ends_crlf (latin1 raw)")
      case True
      show ?thesis
      proof (cases "trailer_line (take (length (latin1 raw) - 2) (latin1 raw)) t")
        case (Inl e)
        with c True show ?thesis by simp
      next
        case (Inr o')
        with c True IH show ?thesis by (cases o') simp_all
      qed
    next
      case False
      with c show ?thesis by simp
    qed
  next
    case (Inl e)
    then obtain w' where "?c = (Inl e, w')" by (cases ?c) simp
    then show ?thesis by simp
  qed
qed simp

lemma readTrailers_total: "\<exists>r w'. readTrailers wire_ops m w = Some (r, w')"
  using trailer_loop_total [of m "Suc m" "[]" w] by (auto simp: readTrailers_def)

subsection \<open>The decoder over any reader\<close>

context byte_source
begin

lemma sim_readChunkLine: "sim (readChunkLine R) (readChunkLine wire_ops)"
  unfolding readChunkLine_def Let_def wire_ops_sel
  by (intro sim_bind sim_catch sim_until sim_if sim_throw sim_return)

lemma sim_read_data_crlf: "sim (read_data_crlf R) (read_data_crlf wire_ops)"
  unfolding read_data_crlf_def wire_ops_sel
  by (intro sim_bind sim_catch sim_exactly sim_if sim_throw sim_return)

lemma trailer_loop_simulates:
  "ok s \<Longrightarrow> case trailer_loop fuel R left t s of
      None \<Rightarrow> trailer_loop fuel wire_ops left t (view s) = None
    | Some (r, s') \<Rightarrow> ok s' \<and> trailer_loop fuel wire_ops left t (view s) = Some (r, view s')"
proof (induction fuel arbitrary: left t s)
  case (Suc fuel)
  let ?h = "\<lambda>e. if instanceof e UnexpectedEofError then throwA (http_error HTTP_BODY_TRUNCATED) else throwA e"
  obtain r s1 where c: "catchA (rd_until R LF left) ?h s = (r, s1)" by (cases "catchA (rd_until R LF left) ?h s")
  have "sim (catchA (rd_until R LF left) ?h) (catchA (wire_until LF left) ?h)"
    by (intro sim_catch sim_until sim_if sim_throw)
  from simulatesD [OF this Suc.prems c]
  have s1: "ok s1" "catchA (wire_until LF left) ?h (view s) = (r, view s1)" by auto
  show ?case
  proof (cases r)
    case (Inl e)
    with c s1 show ?thesis by simp
  next
    case (Inr raw)
    show ?thesis
    proof (cases "ends_crlf (latin1 raw)")
      case True
      show ?thesis
      proof (cases "trailer_line (take (length (latin1 raw) - 2) (latin1 raw)) t")
        case (Inl e)
        with c s1 Inr True show ?thesis by simp
      next
        case o': (Inr o')
        show ?thesis
        proof (cases o')
          case None
          with c s1 Inr True o' show ?thesis by simp
        next
          case (Some t')
          with c s1 Inr True o' show ?thesis
            using Suc.IH [OF s1(1), of "left - length raw" t']
            by (cases "trailer_loop fuel R (left - length raw) t' s1") auto
        qed
      qed
    next
      case False
      with c s1 Inr show ?thesis by simp
    qed
  qed
qed simp

lemma readTrailers_simulates:
  assumes "ok s"
  shows "\<exists>r s'. readTrailers R m s = Some (r, s') \<and> ok s' \<and> readTrailers wire_ops m (view s) = Some (r, view s')"
proof -
  obtain q where q: "trailer_loop (Suc m) wire_ops m [] (view s) = Some q"
    using trailer_loop_total [of m "Suc m"] by blast
  then show ?thesis
    using trailer_loop_simulates [OF assms, of "Suc m" m "[]"] unfolding readTrailers_def
    by (auto split: option.splits)
qed

definition chunk_good :: "chunk_decoder \<Rightarrow> bool" where
  "chunk_good c \<longleftrightarrow> cd_trailers c = Pending \<and> cd_state c \<noteq> CDone \<and> (cd_state c = CData \<longrightarrow> 0 < cd_remaining c)"

text \<open>What one call of \<open>drive\<close> does, relative to the reference.\<close>

definition drive_ok ::
  "chunked_options \<Rightarrow> chunked_result \<Rightarrow> wire \<Rightarrow> bytes \<Rightarrow> (tf_error + pull_result) \<times> chunk_decoder \<times> 's \<Rightarrow> bool" where
  "drive_ok opts ref w acc res \<longleftrightarrow>
     (case res of
        (Inl e, c', s') \<Rightarrow> ok s' \<and> cd_trailers c' = Pending
           \<and> (\<exists>b. ref = (acc @ b, Inl e, view s') \<and> b = [])
      | (Inr (Enqueue b), c', s') \<Rightarrow> ok s' \<and> chunk_good c' \<and> ref = ref_at opts c' (acc @ b) (view s')
           \<and> length (fst (view s')) < length (fst w)
      | (Inr Close, c', s') \<Rightarrow> ok s' \<and> cd_state c' = CDone
           \<and> (\<exists>hs. ref = (acc, Inr hs, view s') \<and> cd_trailers c' = Resolved (Some hs))
      | _ \<Rightarrow> False)"

lemma drive_data_ok:
  assumes s: "ok s" and c: "cd_state c = CData" "0 < cd_remaining c" "cd_trailers c = Pending"
  shows "drive_ok opts (ref_data opts (cd_remaining c) (cd_total c) acc (view s)) (view s) acc (drive_data R c s)"
proof (cases "fst (view s) = []")
  case True
  obtain r s' where some: "rd_some R (min (cd_remaining c) 65536) s = (r, s')"
    by (cases "rd_some R (min (cd_remaining c) 65536) s")
  from some_end_law [OF s True some]
  have s': "ok s'" "wire_some (min (cd_remaining c) 65536) (view s) = (r, view s')" by auto
  show ?thesis
  proof (cases "snd (view s)")
    case CleanEnd
    with s' True have "r = Inr None" "view s' = view s" by (auto simp: wire_some_def)
    with some s' c True CleanEnd show ?thesis
      by (cases "view s") (simp add: drive_data_def drive_ok_def ref_data_def chunk_end_error_def)
  next
    case (Fails n)
    with s' True have "r = Inl (TransportFailure n)" "view s' = view s" by (auto simp: wire_some_def)
    with some s' c True Fails show ?thesis
      by (cases "view s") (simp add: drive_data_def drive_ok_def ref_data_def chunk_end_error_def)
  qed
next
  case False
  from some_data_law [OF s False, of "min (cd_remaining c) 65536"]
  obtain p s' where p: "rd_some R (min (cd_remaining c) 65536) s = (Inr (Some p), s')" "ok s'"
    "length p \<le> cd_remaining c" "p \<noteq> []" "fst (view s) = p @ fst (view s')" "snd (view s') = snd (view s)"
    using c(2) by (auto simp del: min_def)
  have v: "view s' = (fst (view s'), snd (view s))" using p(6) by (metis prod.collapse)
  have shrink: "length (fst (view s')) < length (fst (view s))" using p(4,5) by simp
  show ?thesis
  proof (cases "length p = cd_remaining c")
    case True
    then show ?thesis using p c shrink v
      by (simp add: drive_data_def drive_ok_def Let_def chunk_good_def ref_at_def ref_data_def)
  next
    case False
    then have lt: "length p < cd_remaining c" using p(3) by simp
    then have "cd_remaining c - length p \<noteq> 0" by simp
    moreover have "ref_data opts (cd_remaining c) (cd_total c) acc (view s)
        = ref_data opts (cd_remaining c - length p) (cd_total c + length p) (acc @ p) (view s')"
    proof -
      have "length (fst (view s)) < cd_remaining c \<longleftrightarrow> length (fst (view s')) < cd_remaining c - length p"
        using lt p(5) by auto
      then show ?thesis using lt p(5,6) v by (simp add: ref_data_def)
    qed
    ultimately show ?thesis using p c shrink lt
      by (simp add: drive_data_def drive_ok_def Let_def chunk_good_def ref_at_def)
  qed
qed

lemma drive_size_ok:
  assumes s: "ok s" and c: "cd_trailers c = Pending"
  shows "\<exists>res. drive_size R opts c s = Some res
           \<and> drive_ok opts (chunked_ref opts (cd_total c) acc (view s)) (view s) acc res"
proof -
  obtain r s1 where line: "readChunkLine R s = (r, s1)" by (cases "readChunkLine R s")
  from simulatesD [OF sim_readChunkLine s line]
  have s1: "ok s1" and rl: "readChunkLine wire_ops (view s) = (r, view s1)" by auto
  note ref = chunked_ref.simps [of opts "cd_total c" acc "view s", unfolded rl]
  show ?thesis
  proof (cases r)
    case (Inl e)
    with line s1 c ref show ?thesis by (simp add: drive_size_def drive_ok_def)
  next
    case r: (Inr l)
    show ?thesis
    proof (cases "chunk_size opts (cd_total c) l")
      case (Inl e)
      with line s1 c ref r show ?thesis by (simp add: drive_size_def drive_ok_def)
    next
      case sz: (Inr sz)
      show ?thesis
      proof (cases "sz = 0")
        case True
        obtain q s2 where q: "readTrailers R (co_maxTrailerBytes opts) s1 = Some (q, s2)" "ok s2"
          "readTrailers wire_ops (co_maxTrailerBytes opts) (view s1) = Some (q, view s2)"
          using readTrailers_simulates [OF s1] by blast
        with line c ref r sz True show ?thesis
          by (cases q) (simp_all add: drive_size_def drive_ok_def)
      next
        case False
        let ?c = "c\<lparr>cd_remaining := sz, cd_state := CData\<rparr>"
        have "drive_ok opts (ref_data opts sz (cd_total c) acc (view s1)) (view s1) acc (drive_data R ?c s1)"
          using drive_data_ok [OF s1, of ?c opts acc] c False by simp
        moreover have "chunked_ref opts (cd_total c) acc (view s) = ref_data opts sz (cd_total c) acc (view s1)"
          using rl r by (intro chunked_ref_data [OF _ sz False]) simp
        moreover have "length (fst (view s1)) < length (fst (view s))"
          using rl r by (intro readChunkLine_shrinks) simp
        moreover have "drive_ok opts ref (view s1) acc res \<Longrightarrow> length (fst (view s1)) < length (fst (view s)) \<Longrightarrow>
            drive_ok opts ref (view s) acc res" for ref res
          unfolding drive_ok_def by (auto split: prod.splits sum.splits pull_result.splits)
        moreover have "drive_size R opts c s = Some (drive_data R ?c s1)"
          using line r sz False by (simp add: drive_size_def)
        ultimately show ?thesis by simp
      qed
    qed
  qed
qed

lemma drive_step:
  assumes s: "ok s" and c: "chunk_good c"
  shows "\<exists>res. drive R opts c s = Some res \<and> drive_ok opts (ref_at opts c acc (view s)) (view s) acc res"
proof (cases "cd_state c")
  case CSize
  with drive_size_ok [OF s, of c opts acc] c show ?thesis
    by (simp add: drive_def ref_at_def chunk_good_def)
next
  case CData
  with drive_data_ok [OF s, of c opts acc] c show ?thesis
    by (simp add: drive_def ref_at_def chunk_good_def)
next
  case CDataCrlf
  obtain r s1 where crlf: "read_data_crlf R s = (r, s1)" by (cases "read_data_crlf R s")
  from simulatesD [OF sim_read_data_crlf s crlf]
  have s1: "ok s1" and rl: "read_data_crlf wire_ops (view s) = (r, view s1)" by auto
  show ?thesis
  proof (cases r)
    case (Inl e)
    with crlf rl s1 c CDataCrlf show ?thesis
      by (simp add: drive_def ref_at_def ref_crlf_def drive_ok_def chunk_good_def)
  next
    case (Inr u)
    let ?c = "c\<lparr>cd_state := CSize\<rparr>"
    obtain res where "drive_size R opts ?c s1 = Some res"
      "drive_ok opts (chunked_ref opts (cd_total c) acc (view s1)) (view s1) acc res"
      using drive_size_ok [OF s1, of ?c opts acc] c by (auto simp: chunk_good_def)
    moreover have "length (fst (view s1)) < length (fst (view s))"
      using rl Inr by (intro read_data_crlf_shrinks) simp
    moreover have "drive_ok opts ref (view s1) acc res \<Longrightarrow> length (fst (view s1)) < length (fst (view s)) \<Longrightarrow>
        drive_ok opts ref (view s) acc res" for ref res
      unfolding drive_ok_def by (auto split: prod.splits sum.splits pull_result.splits)
    ultimately show ?thesis using crlf rl Inr CDataCrlf
      by (simp add: drive_def ref_at_def ref_crlf_def)
  qed
next
  case CDone
  with c show ?thesis by (simp add: chunk_good_def)
qed

text \<open>Draining the stream: as many pulls as there are octets left, and one more, are enough.\<close>

lemma chunk_drain:
  "ok s \<Longrightarrow> chunk_good c \<Longrightarrow> length (fst (view s)) < fuel \<Longrightarrow>
   \<exists>p r c' s'. ref_at opts c acc (view s) = (p, r, view s') \<and> ok s' \<and> cd_state c' = CDone
     \<and> drain fuel (chunk_pull R opts) (c, s) acc
         = Some (p, (case r of Inl e \<Rightarrow> Some e | Inr _ \<Rightarrow> None), (c', s'))
     \<and> cd_trailers c' = (case r of Inl e \<Rightarrow> Rejected e | Inr hs \<Rightarrow> Resolved (Some hs))"
proof (induction fuel arbitrary: s c acc)
  case (Suc fuel)
  obtain d c1 s1 where d: "drive R opts c s = Some (d, c1, s1)"
    "drive_ok opts (ref_at opts c acc (view s)) (view s) acc (d, c1, s1)"
    using drive_step [OF Suc.prems(1,2), of opts acc] by (metis prod_cases3)
  show ?case
  proof (cases d)
    case (Inl e)
    with d show ?thesis by (auto simp: chunk_pull_def drive_ok_def)
  next
    case (Inr q)
    show ?thesis
    proof (cases q)
      case (Enqueue b)
      with d Inr have "ok s1" "chunk_good c1" "length (fst (view s1)) < fuel"
        and ref: "ref_at opts c acc (view s) = ref_at opts c1 (acc @ b) (view s1)"
        using Suc.prems(3) by (auto simp: drive_ok_def)
      from Suc.IH [OF this(1-3), of "acc @ b"] show ?thesis
        using d Inr Enqueue unfolding ref by (auto simp: chunk_pull_def)
    next
      case Close
      with d Inr show ?thesis by (auto simp: chunk_pull_def drive_ok_def)
    qed (use d Inr in \<open>auto simp: drive_ok_def\<close>)
  qed
qed simp

lemma decodeChunked_drain:
  assumes "ok s"
  shows "\<exists>p r c s'. drain (Suc (length (fst (view s)))) (chunk_pull R opts) (decodeChunked, s) []
             = Some (p, (case r of Inl e \<Rightarrow> Some e | Inr _ \<Rightarrow> None), (c, s'))
           \<and> chunked_ref opts 0 [] (view s) = (p, r, view s') \<and> ok s'
           \<and> cd_trailers c = (case r of Inl e \<Rightarrow> Rejected e | Inr hs \<Rightarrow> Resolved (Some hs))"
proof -
  have good: "chunk_good decodeChunked" by (simp add: chunk_good_def decodeChunked_def)
  have ref: "ref_at opts decodeChunked [] w = chunked_ref opts 0 [] w" for w
    by (simp add: ref_at_def decodeChunked_def)
  from chunk_drain [OF assms good lessI, of opts "[]"] show ?thesis unfolding ref by blast
qed

end

subsection \<open>A well-formed body\<close>

abbreviation CRLF :: bytes where
  "CRLF \<equiv> [0x0D, 0x0A]"

text \<open>A chunk is written as its size, in any spelling with hexadecimal digits, and its data.\<close>

definition chunk_bytes :: "bytes \<times> bytes \<Rightarrow> bytes" where
  "chunk_bytes hp = fst hp @ CRLF @ snd hp @ CRLF"

definition chunk_body :: "(bytes \<times> bytes) list \<Rightarrow> bytes" where
  "chunk_body hps = concat (map chunk_bytes hps) @ [0x30] @ CRLF @ CRLF"

definition hex_digits :: "bytes \<Rightarrow> bool" where
  "hex_digits h \<longleftrightarrow> h \<noteq> [] \<and> list_all (\<lambda>x. is_hex (unat x)) h"

definition chunk_ok :: "chunked_options \<Rightarrow> bytes \<times> bytes \<Rightarrow> bool" where
  "chunk_ok opts hp \<longleftrightarrow> hex_digits (fst hp) \<and> length (fst hp) < 1000 \<and> snd hp \<noteq> []
     \<and> parse_base 16 (latin1 (fst hp)) = length (snd hp) \<and> length (snd hp) \<le> co_maxChunkSize opts
     \<and> length (snd hp) \<le> max_safe_integer"

lemma ends_crlf_append [simp]: "ends_crlf (s @ [0x0D, 0x0A])"
  by (simp add: ends_crlf_def)

lemma hex_no_lf: "hex_digits h \<Longrightarrow> 0x0A \<notin> set h"
  by (auto simp: hex_digits_def list_all_iff is_hex_def is_digit_def)

lemma readChunkLine_reads:
  assumes "0x0A \<notin> set h" "length h < 1000"
  shows "readChunkLine wire_ops (h @ CRLF @ t, e) = (Inr (latin1 h), (t, e))"
proof -
  have "wire_until LF CHUNK_LINE_MAX ((h @ [0x0D]) @ 0x0A # t, e) = (Inr ((h @ [0x0D]) @ [0x0A]), (t, e))"
    unfolding LF_def by (rule wire_until_line) (use assms in auto)
  then have "wire_until LF CHUNK_LINE_MAX (h @ CRLF @ t, e) = (Inr (h @ CRLF), (t, e))" by simp
  then show ?thesis by (simp add: readChunkLine_def bindA_def catchA_def)
qed

lemma size_line_digits: "hex_digits h \<Longrightarrow> size_line (latin1 h) = Some (latin1 h)"
proof -
  assume h: "hex_digits h"
  then have all: "\<forall>u \<in> set (latin1 h). is_hex u" by (auto simp: hex_digits_def latin1_def list_all_iff)
  then have tw: "takeWhile is_hex (latin1 h) = latin1 h" and dw: "dropWhile is_hex (latin1 h) = []"
    by simp_all
  have "latin1 h \<noteq> []" using h by (simp add: hex_digits_def latin1_def)
  then show ?thesis unfolding size_line_def Let_def tw dw by simp
qed

definition within_limit :: "chunked_options \<Rightarrow> nat \<Rightarrow> bool" where
  "within_limit opts n \<longleftrightarrow> (case co_maxBytes opts of None \<Rightarrow> True | Some m \<Rightarrow> n \<le> m)"

lemma within_limit_mono: "within_limit opts n \<Longrightarrow> k \<le> n \<Longrightarrow> within_limit opts k"
  by (auto simp: within_limit_def split: option.splits)

lemma chunk_size_ok:
  "chunk_ok opts (h, p) \<Longrightarrow> within_limit opts (tot + length p) \<Longrightarrow> chunk_size opts tot (latin1 h) = Inr (length p)"
  by (auto simp: chunk_size_def size_line_digits chunk_ok_def Let_def within_limit_def split: option.splits)

lemma read_crlf_here: "read_data_crlf wire_ops (CRLF @ t, e) = (Inr (), (t, e))"
  by (simp add: read_data_crlf_def bindA_def catchA_def wire_exactly_def max_safe_integer_def)

lemma readTrailers_none:
  "2 \<le> m \<Longrightarrow> readTrailers wire_ops m (CRLF @ t, e) = Some (Inr [], (t, e))"
proof -
  assume m: "2 \<le> m"
  have "wire_until LF m ([0x0D] @ 0x0A # t, e) = (Inr ([0x0D] @ [0x0A]), (t, e))"
    unfolding LF_def by (rule wire_until_line) (use m in auto)
  then show ?thesis
    by (simp add: readTrailers_def catchA_def Let_def trailer_line_def ends_crlf_def)
qed

lemma chunked_ref_body:
  "list_all (chunk_ok opts) hps \<Longrightarrow> within_limit opts (tot + length (concat (map snd hps))) \<Longrightarrow>
   2 \<le> co_maxTrailerBytes opts \<Longrightarrow>
   chunked_ref opts tot acc (chunk_body hps @ t, e) = (acc @ concat (map snd hps), Inr [], (t, e))"
proof (induction hps arbitrary: tot acc)
  case Nil
  have "readChunkLine wire_ops ([0x30] @ CRLF @ (CRLF @ t), e) = (Inr (latin1 [0x30]), (CRLF @ t, e))"
    by (rule readChunkLine_reads) auto
  then have line: "readChunkLine wire_ops (chunk_body [] @ t, e) = (Inr (latin1 [0x30]), (CRLF @ t, e))"
    by (simp add: chunk_body_def)
  have "hex_digits [0x30]" by (simp add: hex_digits_def is_hex_def is_digit_def)
  then have "chunk_size opts tot (latin1 [0x30]) = Inr 0"
    using size_line_digits [of "[0x30]"]
    by (simp add: chunk_size_def Let_def parse_base_def hex_value_def is_digit_def)
  with line readTrailers_none [OF Nil(3), of t e] show ?case
    by (subst chunked_ref.simps) simp
next
  case (Cons hp hps)
  obtain h p where hp: "hp = (h, p)" by (cases hp)
  have ok: "chunk_ok opts (h, p)" using Cons.prems(1) hp by simp
  let ?rest = "p @ CRLF @ (chunk_body hps @ t)"
  have "0x0A \<notin> set h" "length h < 1000" using ok hex_no_lf by (auto simp: chunk_ok_def)
  from readChunkLine_reads [OF this, of ?rest e]
  have line: "readChunkLine wire_ops (chunk_body (hp # hps) @ t, e) = (Inr (latin1 h), (?rest, e))"
    by (simp add: chunk_body_def chunk_bytes_def hp)
  have lim: "within_limit opts (tot + length p)"
    using Cons.prems(2) hp by (auto elim: within_limit_mono)
  have p: "length p \<noteq> 0" using ok by (simp add: chunk_ok_def)
  have "within_limit opts ((tot + length p) + length (concat (map snd hps)))"
    using Cons.prems(2) hp by (simp add: add.assoc)
  with Cons.IH [of "tot + length p" "acc @ p"] Cons.prems(1,3) hp
  have "chunked_ref opts (tot + length p) (acc @ p) (chunk_body hps @ t, e)
      = (acc @ concat (map snd (hp # hps)), Inr [], (t, e))" by simp
  then show ?case
    using chunked_ref_data [OF line chunk_size_ok [OF ok lim] p, of acc] read_crlf_here [of "chunk_body hps @ t" e]
    by (simp add: ref_data_def ref_crlf_def)
qed

text \<open>The payload never exceeds the limit.\<close>

lemma chunk_size_limit: "chunk_size opts tot line = Inr sz \<Longrightarrow> sz \<noteq> 0 \<Longrightarrow> within_limit opts (tot + sz)"
  by (auto simp: chunk_size_def Let_def within_limit_def split: option.splits if_splits)

lemma chunked_ref_limit:
  "within_limit opts tot \<Longrightarrow> chunked_ref opts tot acc w = (p, r, w') \<Longrightarrow>
   \<exists>q. p = acc @ q \<and> within_limit opts (tot + length q)"
proof (induction opts tot acc w rule: chunked_ref.induct)
  case (1 opts tot acc w)
  obtain r1 w1 where line: "readChunkLine wire_ops w = (r1, w1)" by (cases "readChunkLine wire_ops w")
  have stay: ?case if "p = acc" using that "1.prems"(1) by simp
  show ?case
  proof (cases "\<exists>l sz. r1 = Inr l \<and> chunk_size opts tot l = Inr sz \<and> sz \<noteq> 0")
    case False
    then have "p = acc"
      using "1.prems"(2) line by (subst (asm) chunked_ref.simps) (auto split: sum.splits if_splits)
    then show ?thesis by (rule stay)
  next
    case True
    then obtain l sz where l: "r1 = Inr l" "chunk_size opts tot l = Inr sz" "sz \<noteq> 0" by blast
    have ref: "chunked_ref opts tot acc w = ref_data opts sz tot acc w1"
      using line l by (intro chunked_ref_data) simp_all
    have lim: "within_limit opts (tot + sz)" by (rule chunk_size_limit [OF l(2,3)])
    show ?thesis
    proof (cases "length (fst w1) < sz")
      case True
      then have "p = acc @ fst w1" using "1.prems"(2) ref by (simp add: ref_data_def)
      moreover have "within_limit opts (tot + length (fst w1))" by (rule within_limit_mono [OF lim]) (use True in simp)
      ultimately show ?thesis by blast
    next
      case False
      obtain r2 w2 where crlf: "read_data_crlf wire_ops (drop sz (fst w1), snd w1) = (r2, w2)"
        by (cases "read_data_crlf wire_ops (drop sz (fst w1), snd w1)")
      have len: "length (take sz (fst w1)) = sz" using False by simp
      show ?thesis
      proof (cases r2)
        case (Inl e)
        then have "p = acc @ take sz (fst w1)"
          using "1.prems"(2) ref crlf False by (simp add: ref_data_def ref_crlf_def)
        with lim len show ?thesis by auto
      next
        case (Inr u)
        then have "chunked_ref opts (tot + sz) (acc @ take sz (fst w1)) w2 = (p, r, w')"
          using "1.prems"(2) ref crlf False by (simp add: ref_data_def ref_crlf_def)
        from "1.IH" [OF line [symmetric] l(1) l(2) l(3) False crlf [symmetric] Inr lim this]
        show ?thesis using len by (auto simp: add.assoc)
      qed
    qed
  qed
qed

end
