(* ===== verification/Response.thy ===== *)
theory Response
  imports Chunked_Correct
begin

text \<open>
  \<open>src/http1/response.js\<close>: the head parser over the operations of a reader, the framing decision
  and the body streams; and \<open>src/http1/request.js\<close>, the serialiser of request heads.
\<close>

subsection \<open>Head lines\<close>

text \<open>\<open>readHeadLine\<close>: the line without its CRLF and what is left of the budget.\<close>

definition readHeadLine :: "'s reader_ops \<Rightarrow> nat \<Rightarrow> http_code \<Rightarrow> ('s, tf_error, jsstr \<times> nat) action" where
  "readHeadLine R left code =
     bindA (rd_until R LF left)
       (\<lambda>raw. let line = latin1 raw
              in if \<not> ends_crlf line then throwA (http_error code)
                 else returnA (take (length line - 2) line, left - length raw))"

text \<open>\<open>STATUS_LINE_RE\<close>: version, status code and reason phrase.\<close>

definition status_line :: "jsstr \<Rightarrow> (jsstr \<times> nat \<times> jsstr) option" where
  "status_line line =
     (if 12 \<le> length line \<and> take 7 line = js ''HTTP/1.'' \<and> (line ! 7 = 0x30 \<or> line ! 7 = 0x31)
         \<and> line ! 8 = 0x20 \<and> list_all is_digit (take 3 (drop 9 line))
      then
        (let version = take 3 (drop 5 line); status = parse_base 10 (take 3 (drop 9 line))
         in case drop 12 line of
              [] \<Rightarrow> Some (version, status, [])
            | c # reason \<Rightarrow>
                if c = 0x20 \<and> list_all (\<lambda>u. u \<notin> {0x0A, 0x0D, 0x2028, 0x2029}) reason
                then Some (version, status, reason) else None)
      else None)"

definition check_status_line :: "jsstr \<Rightarrow> tf_error + (jsstr \<times> nat \<times> jsstr)" where
  "check_status_line line =
     (case status_line line of
        None \<Rightarrow> Inl (http_error HTTP_STATUS_LINE)
      | Some (version, status, reason) \<Rightarrow>
          if status < 100 then Inl (http_error HTTP_STATUS_LINE)
          else if \<not> is_field_value reason then Inl (http_error HTTP_STATUS_LINE)
          else Inr (version, status, reason))"

text \<open>One header line that is not empty: its name and its value.\<close>

definition header_line :: "jsstr \<Rightarrow> tf_error + (jsstr \<times> jsstr)" where
  "header_line line =
     (if hd line = 0x20 \<or> hd line = 0x09 then Inl (http_error HTTP_HEADER)
      else case index_unit 0x3A line of
             None \<Rightarrow> Inl (http_error HTTP_HEADER)
           | Some colon \<Rightarrow>
               if colon = 0 then Inl (http_error HTTP_HEADER)
               else
                 (let name = take colon line; val = strip_ows (drop (colon + 1) line)
                  in if \<not> is_token name then Inl (http_error HTTP_HEADER)
                     else if \<not> is_field_value val then Inl (http_error HTTP_HEADER)
                     else Inr (name, val)))"

text \<open>The loop over the header lines. Every turn consumes at least one octet of the budget.\<close>

fun header_loop ::
  "nat \<Rightarrow> 's reader_ops \<Rightarrow> nat \<Rightarrow> headers \<Rightarrow> jsstr list \<Rightarrow> 's
     \<Rightarrow> ((tf_error + (headers \<times> jsstr list \<times> nat)) \<times> 's) option" where
  "header_loop 0 R left hs setCookie s = None"
| "header_loop (Suc fuel) R left hs setCookie s =
     (case readHeadLine R left HTTP_HEADER s of
        (Inl e, s') \<Rightarrow> Some (Inl e, s')
      | (Inr (line, left'), s') \<Rightarrow>
          if line = [] then Some (Inr (hs, setCookie, left'), s')
          else
            (case bindE (header_line line) (\<lambda>(name, val).
                    bindE (headers_append name val hs) (\<lambda>hs'.
                      Inr (hs', if toLowerCase name = js ''set-cookie'' then setCookie @ [val] else setCookie))) of
               Inl e \<Rightarrow> Some (Inl e, s')
             | Inr (hs', setCookie') \<Rightarrow> header_loop fuel R left' hs' setCookie' s'))"

record one_head =
  oh_version :: jsstr
  oh_status :: nat
  oh_statusText :: jsstr
  oh_headers :: headers
  oh_setCookie :: "jsstr list"

definition readOneHead ::
  "'s reader_ops \<Rightarrow> nat \<Rightarrow> 's \<Rightarrow> ((tf_error + (one_head \<times> nat)) \<times> 's) option" where
  "readOneHead R left s =
     (case readHeadLine R left HTTP_STATUS_LINE s of
        (Inl e, s') \<Rightarrow> Some (Inl e, s')
      | (Inr (line, left'), s') \<Rightarrow>
          (case check_status_line line of
             Inl e \<Rightarrow> Some (Inl e, s')
           | Inr (version, status, reason) \<Rightarrow>
               (case header_loop (Suc left') R left' [] [] s' of
                  None \<Rightarrow> None
                | Some (Inl e, s'') \<Rightarrow> Some (Inl e, s'')
                | Some (Inr (hs, setCookie, left''), s'') \<Rightarrow>
                    Some (Inr (\<lparr> oh_version = version, oh_status = status, oh_statusText = reason,
                                 oh_headers = hs, oh_setCookie = setCookie \<rparr>, left''), s''))))"

text \<open>
  \<open>readResponseHead\<close>: heads with status 1xx are collected (without their cookies) and skipped; 101 is
  fatal. The budget is shared by all heads.
\<close>

fun response_head_loop ::
  "nat \<Rightarrow> 's reader_ops \<Rightarrow> nat \<Rightarrow> one_head list \<Rightarrow> 's
     \<Rightarrow> ((tf_error + (one_head \<times> one_head list)) \<times> 's) option" where
  "response_head_loop 0 R left info s = None"
| "response_head_loop (Suc fuel) R left info s =
     (case readOneHead R left s of
        None \<Rightarrow> None
      | Some (Inl e, s') \<Rightarrow> Some (Inl e, s')
      | Some (Inr (hd1, left'), s') \<Rightarrow>
          if 100 \<le> oh_status hd1 \<and> oh_status hd1 \<le> 199 then
            (if oh_status hd1 = 101 then Some (Inl (http_error HTTP_UPGRADE_UNEXPECTED), s')
             else response_head_loop fuel R left' (info @ [hd1\<lparr>oh_setCookie := []\<rparr>]) s')
          else Some (Inr (hd1, info), s'))"

definition readResponseHead ::
  "'s reader_ops \<Rightarrow> nat \<Rightarrow> 's \<Rightarrow> ((tf_error + (one_head \<times> one_head list)) \<times> 's) option" where
  "readResponseHead R maxHeaderBytes s = response_head_loop (Suc maxHeaderBytes) R maxHeaderBytes [] s"

subsection \<open>Framing\<close>

definition listElements :: "jsstr \<Rightarrow> jsstr list" where
  "listElements s = filter (\<lambda>p. p \<noteq> []) (map js_trim (split_unit 0x2C s))"

datatype framing_kind = NoBody | ContentLength nat | ChunkedBody | UntilClose

record framing =
  fr_kind :: framing_kind
  fr_keepAlive :: bool

definition framing_error :: tf_error where
  "framing_error = http_error HTTP_FRAMING_AMBIGUOUS"

definition te_framing :: "jsstr \<Rightarrow> tf_error + framing" where
  "te_framing te =
     (let codings = map toLowerCase (listElements te)
      in if codings = [] then Inl framing_error
         else if \<not> list_all (\<lambda>c. c = js ''chunked'' \<or> c = js ''identity'') codings then Inl framing_error
         else if last codings = js ''chunked'' then Inr \<lparr> fr_kind = ChunkedBody, fr_keepAlive = True \<rparr>
         else Inr \<lparr> fr_kind = UntilClose, fr_keepAlive = False \<rparr>)"

definition cl_framing :: "jsstr \<Rightarrow> tf_error + framing" where
  "cl_framing cl =
     (let values = map js_trim (split_unit 0x2C cl)
      in if \<not> list_all (\<lambda>v. v \<noteq> [] \<and> list_all is_digit v \<and> v = values ! 0) values then Inl framing_error
         else
           (let n = parse_base 10 (values ! 0)
            in if n > max_safe_integer then Inl framing_error
               else Inr \<lparr> fr_kind = ContentLength n, fr_keepAlive = True \<rparr>))"

definition bodyFraming :: "nat \<Rightarrow> jsstr option \<Rightarrow> headers \<Rightarrow> tf_error + framing" where
  "bodyFraming status method hs =
     (if method = Some (js ''HEAD'') \<or> (100 \<le> status \<and> status \<le> 199) \<or> status = 204 \<or> status = 304
      then Inr \<lparr> fr_kind = NoBody, fr_keepAlive = True \<rparr>
      else if method = Some (js ''CONNECT'') \<and> 200 \<le> status \<and> status \<le> 299
      then Inr \<lparr> fr_kind = NoBody, fr_keepAlive = False \<rparr>
      else
        (case (headers_get (js ''transfer-encoding'') hs, headers_get (js ''content-length'') hs) of
           (Some te, Some cl) \<Rightarrow> Inl framing_error
         | (Some te, None) \<Rightarrow> te_framing te
         | (None, Some cl) \<Rightarrow> cl_framing cl
         | (None, None) \<Rightarrow> Inr \<lparr> fr_kind = UntilClose, fr_keepAlive = False \<rparr>))"

subsection \<open>Bodies\<close>

text \<open>
  The state behind the stream that \<open>readResponseBody\<close> returns: the decoder, what remains, or what has
  arrived, with the promise \<open>completed\<close>.
\<close>

datatype body =
    EmptyBody
  | ChunkBody chunk_decoder
  | LengthBody nat "bool promise"
  | CloseBody nat "bool promise"

definition readResponseBody :: "framing_kind \<Rightarrow> nat option \<Rightarrow> tf_error + body" where
  "readResponseBody kind maxBytes =
     (case kind of
        NoBody \<Rightarrow> Inr EmptyBody
      | ChunkedBody \<Rightarrow> Inr (ChunkBody decodeChunked)
      | ContentLength n \<Rightarrow>
          if n > max_safe_integer then Inl (Thrown HttpError (Config CONFIG_INVALID))
          else if (case maxBytes of None \<Rightarrow> False | Some m \<Rightarrow> n > m) then Inl (Thrown LimitError (Limit LIMIT_BODY))
          else Inr (LengthBody n (if n = 0 then Resolved True else Pending))
      | UntilClose \<Rightarrow> Inr (CloseBody 0 Pending))"

definition length_pull ::
  "'s reader_ops \<Rightarrow> nat \<Rightarrow> bool promise \<Rightarrow> 's \<Rightarrow> pull_result \<times> body \<times> 's" where
  "length_pull R remaining completed s =
     (if remaining = 0 then (Close, LengthBody 0 (settle (Resolved True) completed), s)
      else case rd_some R (min remaining 65536) s of
             (Inl e, s') \<Rightarrow> (Error e, LengthBody remaining (settle (Rejected e) completed), s')
           | (Inr None, s') \<Rightarrow>
               (let e = http_error HTTP_BODY_TRUNCATED
                in (Error e, LengthBody remaining (settle (Rejected e) completed), s'))
           | (Inr (Some chunk), s') \<Rightarrow>
               (let remaining' = remaining - length chunk
                in if remaining' = 0
                   then (EnqueueClose chunk, LengthBody 0 (settle (Resolved True) completed), s')
                   else (Enqueue chunk, LengthBody remaining' completed, s')))"

definition close_pull ::
  "'s reader_ops \<Rightarrow> nat option \<Rightarrow> nat \<Rightarrow> bool promise \<Rightarrow> 's \<Rightarrow> pull_result \<times> body \<times> 's" where
  "close_pull R maxBytes tot completed s =
     (case rd_some R 65536 s of
        (Inl e, s') \<Rightarrow> (Error e, CloseBody tot (settle (Rejected e) completed), s')
      | (Inr None, s') \<Rightarrow> (Close, CloseBody tot (settle (Resolved True) completed), s')
      | (Inr (Some chunk), s') \<Rightarrow>
          (let tot' = tot + length chunk
           in if (case maxBytes of None \<Rightarrow> False | Some m \<Rightarrow> tot' > m)
              then (let e = Thrown LimitError (Limit LIMIT_BODY)
                    in (Error e, CloseBody tot' (settle (Rejected e) completed), s'))
              else (Enqueue chunk, CloseBody tot' completed, s')))"

definition body_pull ::
  "'s reader_ops \<Rightarrow> nat option \<Rightarrow> body \<times> 's \<Rightarrow> (pull_result \<times> body \<times> 's) option" where
  "body_pull R maxBytes bs =
     (case bs of
        (EmptyBody, s) \<Rightarrow> Some (Close, EmptyBody, s)
      | (ChunkBody c, s) \<Rightarrow>
          map_option (\<lambda>(r, c', s'). (r, ChunkBody c', s'))
            (chunk_pull R (default_chunked_options\<lparr>co_maxBytes := maxBytes\<rparr>) (c, s))
      | (LengthBody remaining completed, s) \<Rightarrow> Some (length_pull R remaining completed s)
      | (CloseBody tot completed, s) \<Rightarrow> Some (close_pull R maxBytes tot completed s))"

definition body_cancel :: "body \<Rightarrow> body" where
  "body_cancel b =
     (case b of
        EmptyBody \<Rightarrow> EmptyBody
      | ChunkBody c \<Rightarrow> ChunkBody (chunk_cancel c)
      | LengthBody n completed \<Rightarrow> LengthBody n (settle (Resolved False) completed)
      | CloseBody n completed \<Rightarrow> CloseBody n (settle (Resolved False) completed))"

text \<open>The promise \<open>completed\<close>, which a connection pool awaits before it reuses the socket.\<close>

definition body_completed :: "body \<Rightarrow> bool promise" where
  "body_completed b =
     (case b of
        EmptyBody \<Rightarrow> Resolved True
      | ChunkBody c \<Rightarrow>
          (case cd_trailers c of Pending \<Rightarrow> Pending | Resolved t \<Rightarrow> Resolved (t \<noteq> None) | Rejected e \<Rightarrow> Rejected e)
      | LengthBody n completed \<Rightarrow> completed
      | CloseBody n completed \<Rightarrow> completed)"

subsection \<open>Request heads\<close>

definition is_target :: "jsstr \<Rightarrow> bool" where
  "is_target s \<longleftrightarrow> s \<noteq> [] \<and> list_all (\<lambda>u. 0x21 \<le> u \<and> u \<le> 0x7E) s"

definition latin1Bytes :: "jsstr \<Rightarrow> bytes" where
  "latin1Bytes s = map word_of_nat s"

text \<open>The checks on one field, in the order of the source; the text it adds to the head.\<close>

definition request_field :: "jsstr \<times> jsstr \<Rightarrow> tf_error + jsstr" where
  "request_field nv =
     (case nv of (name, rawValue) \<Rightarrow>
        if \<not> is_token name then Inl (http_error HTTP_HEADER)
        else if list_ex (\<lambda>u. u \<in> {0x0D, 0x0A, 0x00}) rawValue then Inl (http_error HTTP_HEADER)
        else if list_ex (\<lambda>u. u > 0xFF) rawValue then Inl (http_error HTTP_HEADER)
        else if list_ex (\<lambda>u. (0x01 \<le> u \<and> u \<le> 0x08) \<or> u = 0x0B \<or> u = 0x0C \<or> (0x0E \<le> u \<and> u \<le> 0x1F) \<or> u = 0x7F)
                  rawValue then Inl (http_error HTTP_HEADER)
        else Inr (name @ js '': '' @ strip_ows rawValue @ [0x0D, 0x0A]))"

fun request_fields :: "(jsstr \<times> jsstr) list \<Rightarrow> jsstr \<Rightarrow> tf_error + jsstr" where
  "request_fields [] acc = Inr acc"
| "request_fields (f # fs) acc = bindE (request_field f) (\<lambda>line. request_fields fs (acc @ line))"

definition serializeRequestHead ::
  "jsstr \<Rightarrow> jsstr \<Rightarrow> (jsstr \<times> jsstr) list \<Rightarrow> jsstr \<Rightarrow> tf_error + bytes" where
  "serializeRequestHead method target hs httpVersion =
     (if \<not> is_token method then Inl (http_error HTTP_REQUEST_LINE)
      else if \<not> is_target target then Inl (http_error HTTP_REQUEST_LINE)
      else if httpVersion \<notin> {js ''1.0'', js ''1.1''} then Inl (http_error HTTP_REQUEST_LINE)
      else bindE (request_fields hs (method @ js '' '' @ target @ js '' HTTP/'' @ httpVersion @ [0x0D, 0x0A]))
             (\<lambda>acc. Inr (latin1Bytes (acc @ [0x0D, 0x0A]))))"

end
