(* ===== verification/Response_Correct.thy ===== *)
theory Response_Correct
  imports Response
begin

text \<open>
  The head parser always returns and does not depend on the fragmentation of the stream; the framing
  decision refuses every ambiguous head; a body stream delivers exactly the framed octets and leaves
  the reader at the first octet after them; a serialised request head reads back as its fields.
\<close>

subsection \<open>The head parser returns\<close>

lemma readHeadLine_consumes:
  assumes "readHeadLine wire_ops left c w = (Inr (line, left'), w')"
  shows "left' < left" "\<exists>k. 0 < k \<and> left' + k = left \<and> length (fst w') + k = length (fst w)"
proof -
  obtain raw w1 where u: "wire_until LF left w = (Inr raw, w1)" and l: "left' = left - length raw" "w' = w1"
    using assms by (auto simp: readHeadLine_def bindA_Inr_conv Let_def split: if_splits)
  from wire_until_length [OF u] have "0 < length raw" "length raw \<le> left" "fst w = raw @ fst w1" by auto
  then have "0 < length raw" "length raw \<le> left" "length (fst w1) + length raw = length (fst w)" by simp_all
  with l show "left' < left" by linarith
  show "\<exists>k. 0 < k \<and> left' + k = left \<and> length (fst w') + k = length (fst w)"
    using l \<open>0 < length raw\<close> \<open>length raw \<le> left\<close> \<open>length (fst w1) + length raw = length (fst w)\<close>
    by (intro exI [of _ "length raw"]) simp
qed

lemma header_loop_total: "left < fuel \<Longrightarrow> \<exists>r. header_loop fuel wire_ops left hs sc w = Some r"
proof (induction fuel arbitrary: left hs sc w)
  case (Suc fuel)
  obtain r w' where h: "readHeadLine wire_ops left HTTP_HEADER w = (r, w')"
    by (cases "readHeadLine wire_ops left HTTP_HEADER w")
  show ?case
  proof (cases r)
    case (Inl e)
    with h show ?thesis by simp
  next
    case (Inr ll)
    obtain line left' where ll: "ll = (line, left')" by (cases ll)
    from readHeadLine_consumes(1) [OF h [unfolded Inr ll]] have "left' < fuel" using Suc.prems by simp
    from Suc.IH [OF this] show ?thesis
      using h Inr ll by (simp split: sum.split)
  qed
qed simp

text \<open>Budget and input shrink together.\<close>

lemma header_loop_budget:
  "header_loop fuel wire_ops left hs sc w = Some (Inr (hs', sc', left'), w') \<Longrightarrow>
   left' \<le> left \<and> length (fst w') + (left - left') = length (fst w)"
proof (induction fuel arbitrary: left hs sc w)
  case (Suc fuel)
  obtain r w1 where h: "readHeadLine wire_ops left HTTP_HEADER w = (r, w1)"
    by (cases "readHeadLine wire_ops left HTTP_HEADER w")
  with Suc.prems obtain line left1 where r: "r = Inr (line, left1)" by (cases r) auto
  obtain k where k: "0 < k" "left1 + k = left" "length (fst w1) + k = length (fst w)"
    using readHeadLine_consumes(2) [OF h [unfolded r]] by blast
  show ?case
  proof (cases "line = []")
    case True
    with Suc.prems h r k show ?thesis by auto
  next
    case False
    with Suc.prems h r obtain hs1 sc1 where "header_loop fuel wire_ops left1 hs1 sc1 w1 = Some (Inr (hs', sc', left'), w')"
      by (auto split: sum.splits)
    from Suc.IH [OF this] k show ?thesis by auto
  qed
qed simp

lemma readOneHead_total: "\<exists>r. readOneHead wire_ops left w = Some r"
proof -
  obtain r w' where h: "readHeadLine wire_ops left HTTP_STATUS_LINE w = (r, w')"
    by (cases "readHeadLine wire_ops left HTTP_STATUS_LINE w")
  show ?thesis
  proof (cases r)
    case (Inl e)
    with h show ?thesis by (simp add: readOneHead_def)
  next
    case (Inr ll)
    obtain line left' where ll: "ll = (line, left')" by (cases ll)
    obtain q where "header_loop (Suc left') wire_ops left' [] [] w' = Some q"
      using header_loop_total [of left' "Suc left'"] by blast
    with h Inr ll show ?thesis
      by (simp add: readOneHead_def del: header_loop.simps split: sum.split prod.split)
  qed
qed

lemma readOneHead_budget:
  assumes "readOneHead wire_ops left w = Some (Inr (hd1, left'), w')"
  shows "left' < left \<and> length (fst w') + (left - left') = length (fst w)"
proof -
  obtain r w1 where h: "readHeadLine wire_ops left HTTP_STATUS_LINE w = (r, w1)"
    by (cases "readHeadLine wire_ops left HTTP_STATUS_LINE w")
  with assms obtain line left1 where r: "r = Inr (line, left1)"
    by (cases r) (auto simp: readOneHead_def)
  obtain k where k: "0 < k" "left1 + k = left" "length (fst w1) + k = length (fst w)"
    using readHeadLine_consumes(2) [OF h [unfolded r]] by blast
  from assms h r obtain hs sc where
    "header_loop (Suc left1) wire_ops left1 [] [] w1 = Some (Inr (hs, sc, left'), w')"
    by (auto simp: readOneHead_def simp del: header_loop.simps split: sum.splits option.splits)
  from header_loop_budget [OF this] k show ?thesis by auto
qed

lemma response_head_loop_total: "left < fuel \<Longrightarrow> \<exists>r. response_head_loop fuel wire_ops left info w = Some r"
proof (induction fuel arbitrary: left info w)
  case (Suc fuel)
  obtain r w' where h: "readOneHead wire_ops left w = Some (r, w')" using readOneHead_total by (metis surj_pair)
  show ?case
  proof (cases r)
    case (Inl e)
    with h show ?thesis by simp
  next
    case (Inr hl)
    obtain hd1 left' where hl: "hl = (hd1, left')" by (cases hl)
    have "left' < fuel" using readOneHead_budget [OF h [unfolded Inr hl]] Suc.prems by simp
    from Suc.IH [OF this] h Inr hl show ?thesis by simp
  qed
qed simp

lemma response_head_loop_budget:
  "response_head_loop fuel wire_ops left info w = Some (Inr r, w') \<Longrightarrow> length (fst w) \<le> length (fst w') + left"
proof (induction fuel arbitrary: left info w)
  case (Suc fuel)
  obtain q w1 where h: "readOneHead wire_ops left w = Some (q, w1)" using readOneHead_total by (metis surj_pair)
  with Suc.prems obtain hd1 left1 where q: "q = Inr (hd1, left1)" by (cases q) auto
  note b = readOneHead_budget [OF h [unfolded q]]
  show ?case
  proof (cases "100 \<le> oh_status hd1 \<and> oh_status hd1 \<le> 199")
    case True
    with Suc.prems h q obtain info' where "response_head_loop fuel wire_ops left1 info' w1 = Some (Inr r, w')"
      by (auto split: if_splits)
    from Suc.IH [OF this] b show ?thesis by auto
  next
    case False
    with Suc.prems h q b show ?thesis by auto
  qed
qed simp

lemma readResponseHead_total: "\<exists>r w'. readResponseHead wire_ops m w = Some (r, w')"
  using response_head_loop_total [of m "Suc m" "[]" w] unfolding readResponseHead_def by auto

subsection \<open>The head parser over any reader\<close>

definition over_limit :: "nat option \<Rightarrow> nat \<Rightarrow> bool" where
  "over_limit mx n \<longleftrightarrow> (case mx of None \<Rightarrow> False | Some m \<Rightarrow> n > m)"

context byte_source
begin

definition osim :: "('s \<Rightarrow> ('r \<times> 's) option) \<Rightarrow> (wire \<Rightarrow> ('r \<times> wire) option) \<Rightarrow> bool" where
  "osim m m' \<longleftrightarrow> (\<forall>s. ok s \<longrightarrow> (case m s of None \<Rightarrow> m' (view s) = None
                               | Some (r, s') \<Rightarrow> ok s' \<and> m' (view s) = Some (r, view s')))"

lemma osim_SomeD: "osim m m' \<Longrightarrow> ok s \<Longrightarrow> m s = Some (r, s') \<Longrightarrow> ok s' \<and> m' (view s) = Some (r, view s')"
  by (fastforce simp: osim_def)

lemma osim_NoneD: "osim m m' \<Longrightarrow> ok s \<Longrightarrow> m s = None \<Longrightarrow> m' (view s) = None"
  by (fastforce simp: osim_def)

lemma osimI:
  "(\<And>s. ok s \<Longrightarrow> m s = None \<Longrightarrow> m' (view s) = None) \<Longrightarrow>
   (\<And>s r s'. ok s \<Longrightarrow> m s = Some (r, s') \<Longrightarrow> ok s' \<and> m' (view s) = Some (r, view s')) \<Longrightarrow> osim m m'"
  by (auto simp: osim_def split: option.split)

text \<open>Running a simulated action, then a continuation.\<close>

lemma osim_after:
  assumes m: "sim m m'"
    and k: "\<And>r. osim (k r) (k' r)"
  shows "osim (\<lambda>s. case m s of (r, s') \<Rightarrow> k r s') (\<lambda>w. case m' w of (r, w') \<Rightarrow> k' r w')"
proof -
  have "case (case m s of (r, s') \<Rightarrow> k r s') of
          None \<Rightarrow> (case m' (view s) of (r, w') \<Rightarrow> k' r w') = None
        | Some (r, s') \<Rightarrow> ok s' \<and> (case m' (view s) of (r, w') \<Rightarrow> k' r w') = Some (r, view s')" if "ok s" for s
  proof -
    obtain r s1 where ms: "m s = (r, s1)" by (cases "m s")
    from simulatesD [OF m that ms] have s1: "ok s1" "m' (view s) = (r, view s1)" by auto
    from k [of r, unfolded osim_def, rule_format, OF s1(1)] ms s1(2) show ?thesis
      by (simp split: option.splits prod.splits)
  qed
  then show ?thesis by (simp add: osim_def)
qed

lemma osim_return: "osim (\<lambda>s. Some (r, s)) (\<lambda>w. Some (r, w))"
  by (simp add: osim_def)

lemma osim_bind:
  assumes m: "osim m m'" and k: "\<And>r. osim (k r) (k' r)"
  shows "osim (\<lambda>s. case m s of None \<Rightarrow> None | Some (r, s') \<Rightarrow> k r s')
              (\<lambda>w. case m' w of None \<Rightarrow> None | Some (r, w') \<Rightarrow> k' r w')"
proof (rule osimI)
  fix s assume s: "ok s" and none: "(case m s of None \<Rightarrow> None | Some (r, s') \<Rightarrow> k r s') = None"
  show "(case m' (view s) of None \<Rightarrow> None | Some (r, w') \<Rightarrow> k' r w') = None"
  proof (cases "m s")
    case None
    with osim_NoneD [OF m s] show ?thesis by simp
  next
    case (Some rs)
    obtain r s1 where rs: "rs = (r, s1)" by (cases rs)
    with Some osim_SomeD [OF m s] have "ok s1" "m' (view s) = Some (r, view s1)" by auto
    with osim_NoneD [OF k, of s1 r] none Some rs show ?thesis by simp
  qed
next
  fix s r s' assume s: "ok s" and run: "(case m s of None \<Rightarrow> None | Some (r, s') \<Rightarrow> k r s') = Some (r, s')"
  then obtain r1 s1 where m1: "m s = Some (r1, s1)" "k r1 s1 = Some (r, s')" by (auto split: option.splits)
  with osim_SomeD [OF m s] have s1: "ok s1" "m' (view s) = Some (r1, view s1)" by auto
  from osim_SomeD [OF k s1(1) m1(2)] s1(2)
  show "ok s' \<and> (case m' (view s) of None \<Rightarrow> None | Some (r, w') \<Rightarrow> k' r w') = Some (r, view s')" by simp
qed

lemma sim_readHeadLine: "sim (readHeadLine R left c) (readHeadLine wire_ops left c)"
  unfolding readHeadLine_def Let_def wire_ops_sel
  by (intro sim_bind sim_until sim_if sim_throw sim_return)

lemma header_loop_eq:
  "header_loop (Suc fuel) Q left hs sc = (\<lambda>s. case readHeadLine Q left HTTP_HEADER s of (r, s') \<Rightarrow>
     (case r of
        Inl e \<Rightarrow> (\<lambda>s'. Some (Inl e, s'))
      | Inr (line, left') \<Rightarrow>
          if line = [] then (\<lambda>s'. Some (Inr (hs, sc, left'), s'))
          else
            (case bindE (header_line line) (\<lambda>(name, val).
                    bindE (headers_append name val hs) (\<lambda>hs'.
                      Inr (hs', if toLowerCase name = js ''set-cookie'' then sc @ [val] else sc))) of
               Inl e \<Rightarrow> (\<lambda>s'. Some (Inl e, s'))
             | Inr (hs', sc') \<Rightarrow> header_loop fuel Q left' hs' sc')) s')"
  by (rule ext) (auto split: prod.split sum.split)

lemma osim_header_loop: "osim (header_loop fuel R left hs sc) (header_loop fuel wire_ops left hs sc)"
proof (induction fuel arbitrary: left hs sc)
  case 0
  show ?case by (simp add: osim_def)
next
  case (Suc fuel)
  show ?case unfolding header_loop_eq
    by (rule osim_after [OF sim_readHeadLine]) (auto split: sum.split intro: osim_return Suc.IH)
qed

lemma readOneHead_eq:
  "readOneHead Q left = (\<lambda>s. case readHeadLine Q left HTTP_STATUS_LINE s of (r, s') \<Rightarrow>
     (case bindE r (\<lambda>(line, left'). bindE (check_status_line line) (\<lambda>v. Inr (v, left'))) of
        Inl e \<Rightarrow> (\<lambda>s'. Some (Inl e, s'))
      | Inr ((version, status, reason), left') \<Rightarrow>
          (\<lambda>s'. case header_loop (Suc left') Q left' [] [] s' of
             None \<Rightarrow> None
           | Some (q, s'') \<Rightarrow>
               (\<lambda>s''. Some (bindE q (\<lambda>(hs, sc, left''). Inr (\<lparr> oh_version = version, oh_status = status,
                  oh_statusText = reason, oh_headers = hs, oh_setCookie = sc \<rparr>, left'')), s'')) s'')) s')"
  by (rule ext) (auto simp: readOneHead_def simp del: header_loop.simps split: prod.split sum.split option.split)

lemma osim_readOneHead: "osim (readOneHead R left) (readOneHead wire_ops left)"
  unfolding readOneHead_eq
  by (rule osim_after [OF sim_readHeadLine])
    (auto split: sum.split intro!: osim_return osim_bind osim_header_loop simp del: header_loop.simps)

lemma response_head_loop_eq:
  "response_head_loop (Suc fuel) Q left info = (\<lambda>s. case readOneHead Q left s of
     None \<Rightarrow> None
   | Some (r, s') \<Rightarrow>
       (case r of
          Inl e \<Rightarrow> (\<lambda>s'. Some (Inl e, s'))
        | Inr (hd1, left') \<Rightarrow>
            if 100 \<le> oh_status hd1 \<and> oh_status hd1 \<le> 199 then
              (if oh_status hd1 = 101 then (\<lambda>s'. Some (Inl (http_error HTTP_UPGRADE_UNEXPECTED), s'))
               else response_head_loop fuel Q left' (info @ [hd1\<lparr>oh_setCookie := []\<rparr>]))
            else (\<lambda>s'. Some (Inr (hd1, info), s'))) s')"
  by (rule ext) (auto split: prod.split sum.split option.split)

lemma osim_readResponseHead: "osim (readResponseHead R m) (readResponseHead wire_ops m)"
proof -
  have "osim (response_head_loop fuel R left info) (response_head_loop fuel wire_ops left info)" for fuel left info
  proof (induction fuel arbitrary: left info)
    case 0
    show ?case by (simp add: osim_def)
  next
    case (Suc fuel)
    show ?case unfolding response_head_loop_eq
      by (rule osim_bind [OF osim_readOneHead]) (auto split: sum.split intro: osim_return Suc.IH)
  qed
  then show ?thesis unfolding readResponseHead_def .
qed

lemma readResponseHead_returns:
  assumes "ok s"
  shows "\<exists>r s'. readResponseHead R m s = Some (r, s') \<and> ok s'
            \<and> readResponseHead wire_ops m (view s) = Some (r, view s')"
proof -
  obtain q w where "readResponseHead wire_ops m (view s) = Some (q, w)" using readResponseHead_total by blast
  then obtain r s' where "readResponseHead R m s = Some (r, s')"
    using osim_NoneD [OF osim_readResponseHead assms, of m] by (cases "readResponseHead R m s") auto
  with osim_SomeD [OF osim_readResponseHead assms this] show ?thesis by blast
qed

subsection \<open>Bodies over any reader\<close>

lemma length_body_drain:
  "ok s \<Longrightarrow> 0 < n \<Longrightarrow> length (fst (view s)) < fuel \<Longrightarrow>
   \<exists>k c s'. drain fuel (body_pull R mx) (LengthBody n Pending, s) acc =
       Some (acc @ take n (fst (view s)),
             (if n \<le> length (fst (view s)) then None else Some (chunk_end_error (snd (view s)))),
             (LengthBody k c, s'))
     \<and> ok s' \<and> view s' = (drop n (fst (view s)), snd (view s))
     \<and> c = (if n \<le> length (fst (view s)) then Resolved True else Rejected (chunk_end_error (snd (view s))))"
proof (induction fuel arbitrary: s n acc)
  case (Suc fuel)
  show ?case
  proof (cases "fst (view s) = []")
    case True
    obtain r s' where some: "rd_some R (min n 65536) s = (r, s')" by (cases "rd_some R (min n 65536) s")
    from some_end_law [OF Suc.prems(1) True some]
    have s': "ok s'" "wire_some (min n 65536) (view s) = (r, view s')" by auto
    show ?thesis
    proof (cases "snd (view s)")
      case CleanEnd
      with s' True have "r = Inr None" "view s' = view s" by (auto simp: wire_some_def)
      with some s' Suc.prems(2) True CleanEnd show ?thesis
        by (cases "view s") (simp add: body_pull_def length_pull_def chunk_end_error_def Let_def)
    next
      case (Fails e)
      with s' True have "r = Inl (TransportFailure e)" "view s' = view s" by (auto simp: wire_some_def)
      with some s' Suc.prems(2) True Fails show ?thesis
        by (cases "view s") (simp add: body_pull_def length_pull_def chunk_end_error_def)
    qed
  next
    case False
    obtain p s' where p: "rd_some R (min n 65536) s = (Inr (Some p), s')" "ok s'"
      "length p \<le> n" "p \<noteq> []" "fst (view s) = p @ fst (view s')" "snd (view s') = snd (view s)"
      using some_data_law [OF Suc.prems(1) False, of "min n 65536"] Suc.prems(2) by (auto simp del: min_def)
    have v: "view s' = (fst (view s'), snd (view s))" using p(6) by (metis prod.collapse)
    show ?thesis
    proof (cases "length p = n")
      case True
      then have "take n (fst (view s)) = p" "drop n (fst (view s)) = fst (view s')" "n \<le> length (fst (view s))"
        using p(5) by simp_all
      with True p v Suc.prems(2) show ?thesis
        by (simp add: body_pull_def length_pull_def Let_def)
    next
      case False
      then have lt: "0 < n - length p" using p(3) by simp
      have "length (fst (view s')) < fuel" using Suc.prems(3) p(4,5) by (cases p) auto
      from Suc.IH [OF p(2) lt this, of "acc @ p"] p lt v Suc.prems(2)
      show ?thesis by (auto simp: body_pull_def length_pull_def Let_def)
    qed
  qed
qed simp

lemma close_body_drain:
  "ok s \<Longrightarrow> length (fst (view s)) < fuel \<Longrightarrow> \<not> over_limit mx tot \<Longrightarrow>
   \<exists>p err t c s'. drain fuel (body_pull R mx) (CloseBody tot Pending, s) acc =
       Some (acc @ p, err, (CloseBody t c, s')) \<and> ok s'
     \<and> (if over_limit mx (tot + length (fst (view s)))
        then err = Some (Thrown LimitError (Limit LIMIT_BODY)) \<and> (\<exists>q. fst (view s) = p @ q)
             \<and> \<not> over_limit mx (tot + length p) \<and> c = Rejected (Thrown LimitError (Limit LIMIT_BODY))
        else p = fst (view s) \<and> fst (view s') = [] \<and>
             (case snd (view s) of CleanEnd \<Rightarrow> err = None \<and> c = Resolved True
              | Fails e \<Rightarrow> err = Some (TransportFailure e) \<and> c = Rejected (TransportFailure e)))"
proof (induction fuel arbitrary: s tot acc)
  case (Suc fuel)
  show ?case
  proof (cases "fst (view s) = []")
    case True
    obtain r s' where some: "rd_some R 65536 s = (r, s')" by (cases "rd_some R 65536 s")
    from some_end_law [OF Suc.prems(1) True some]
    have s': "ok s'" "wire_some 65536 (view s) = (r, view s')" by auto
    show ?thesis
    proof (cases "snd (view s)")
      case CleanEnd
      with s' True have "r = Inr None" "view s' = view s" by (auto simp: wire_some_def)
      with some s' True CleanEnd Suc.prems(3) show ?thesis by (simp add: body_pull_def close_pull_def)
    next
      case (Fails e)
      with s' True have "r = Inl (TransportFailure e)" "view s' = view s" by (auto simp: wire_some_def)
      with some s' True Fails Suc.prems(3) show ?thesis by (simp add: body_pull_def close_pull_def)
    qed
  next
    case False
    obtain p s' where p: "rd_some R 65536 s = (Inr (Some p), s')" "ok s'"
      "p \<noteq> []" "fst (view s) = p @ fst (view s')" "snd (view s') = snd (view s)"
      using some_data_law [OF Suc.prems(1) False, of 65536] by auto
    show ?thesis
    proof (cases "over_limit mx (tot + length p)")
      case True
      then have "over_limit mx (tot + length (fst (view s)))"
        using p(4) by (auto simp: over_limit_def split: option.splits)
      with True p Suc.prems(3) show ?thesis
        by (auto simp: body_pull_def close_pull_def Let_def over_limit_def split: option.splits)
    next
      case False
      have "length (fst (view s')) < fuel" using Suc.prems(2) p(3,4) by (cases p) auto
      note IH = Suc.IH [OF p(2) this False, of "acc @ p"]
      have step: "drain (Suc fuel) (body_pull R mx) (CloseBody tot Pending, s) acc
          = drain fuel (body_pull R mx) (CloseBody (tot + length p) Pending, s') (acc @ p)"
        using p False by (simp add: body_pull_def close_pull_def Let_def over_limit_def split: option.splits)
      have len: "tot + length (fst (view s)) = (tot + length p) + length (fst (view s'))" using p(4) by simp
      show ?thesis unfolding step len
        using IH p(4,5) by (auto split: if_splits source_end.splits simp: add.assoc)
    qed
  qed
qed simp

end

subsection \<open>Framing\<close>

text \<open>When a length is chosen, no transfer coding is present and every listed length is the same number.\<close>

lemma cl_framing_Inr:
  assumes "cl_framing cl = Inr f" and vs: "vs = map js_trim (split_unit 0x2C cl)"
  shows "list_all (\<lambda>v. v \<noteq> [] \<and> list_all is_digit v \<and> v = vs ! 0) vs"
    and "parse_base 10 (vs ! 0) \<le> max_safe_integer"
    and "f = \<lparr> fr_kind = ContentLength (parse_base 10 (vs ! 0)), fr_keepAlive = True \<rparr>"
proof -
  have f: "(if \<not> list_all (\<lambda>v. v \<noteq> [] \<and> list_all is_digit v \<and> v = vs ! 0) vs then Inl framing_error
     else if parse_base 10 (vs ! 0) > max_safe_integer then Inl framing_error
     else Inr \<lparr> fr_kind = ContentLength (parse_base 10 (vs ! 0)), fr_keepAlive = True \<rparr>) = (Inr f :: tf_error + framing)"
    using assms(1) unfolding cl_framing_def Let_def vs [symmetric] .
  then show all: "list_all (\<lambda>v. v \<noteq> [] \<and> list_all is_digit v \<and> v = vs ! 0) vs"
    by (rule contrapos_pp) (simp only: if_P Inl_Inr_False not_False_eq_True)
  from f have "(if parse_base 10 (vs ! 0) > max_safe_integer then Inl framing_error
     else Inr \<lparr> fr_kind = ContentLength (parse_base 10 (vs ! 0)), fr_keepAlive = True \<rparr>) = (Inr f :: tf_error + framing)"
    using all by (simp only: not_True_eq_False if_False)
  then show "parse_base 10 (vs ! 0) \<le> max_safe_integer"
    "f = \<lparr> fr_kind = ContentLength (parse_base 10 (vs ! 0)), fr_keepAlive = True \<rparr>"
    by (auto split: if_splits)
qed

lemma framing_content_length:
  assumes "bodyFraming status method hs = Inr f" "fr_kind f = ContentLength n"
  shows "headers_get (js ''transfer-encoding'') hs = None
    \<and> (\<exists>cl. headers_get (js ''content-length'') hs = Some cl
         \<and> (\<forall>v \<in> set (map js_trim (split_unit 0x2C cl)). list_all is_digit v \<and> parse_base 10 v = n))
    \<and> n \<le> max_safe_integer \<and> fr_keepAlive f"
proof -
  let ?te = "headers_get (js ''transfer-encoding'') hs" and ?cl = "headers_get (js ''content-length'') hs"
  have te: "te_framing te = Inr f \<Longrightarrow> fr_kind f \<noteq> ContentLength n" for te
    by (auto simp: te_framing_def Let_def split: if_splits)
  from assms have none: "?te = None" and "\<exists>cl. ?cl = Some cl \<and> cl_framing cl = Inr f"
    using te by (auto simp: bodyFraming_def split: if_splits option.splits)
  then obtain cl where cl: "?cl = Some cl" "cl_framing cl = Inr f" by blast
  define vs where "vs = map js_trim (split_unit 0x2C cl)"
  note f = cl_framing_Inr [OF cl(2) vs_def]
  have n: "parse_base 10 (vs ! 0) = n" using f(3) assms(2) by simp
  have "list_all is_digit v \<and> parse_base 10 v = n" if "v \<in> set vs" for v
    using f(1) that n unfolding list_all_iff by metis
  then show ?thesis using none cl n f(2,3) by (auto simp: vs_def)
qed

lemma framing_keep_alive:
  "bodyFraming status method hs = Inr f \<Longrightarrow> fr_keepAlive f \<Longrightarrow> fr_kind f \<noteq> UntilClose"
  by (auto simp: bodyFraming_def te_framing_def cl_framing_def Let_def split: if_splits option.splits)

lemma framing_both:
  "\<not> (method = Some (js ''HEAD'') \<or> (100 \<le> status \<and> status \<le> 199) \<or> status = 204 \<or> status = 304) \<Longrightarrow>
   \<not> (method = Some (js ''CONNECT'') \<and> 200 \<le> status \<and> status \<le> 299) \<Longrightarrow>
   headers_has (js ''transfer-encoding'') hs \<Longrightarrow> headers_has (js ''content-length'') hs \<Longrightarrow>
   bodyFraming status method hs = Inl framing_error"
  by (auto simp: bodyFraming_def headers_has_def split: if_splits)

subsection \<open>A serialised request head reads back\<close>

lemma strip_result: "strip P s = [] \<or> (\<not> P (hd (strip P s)) \<and> \<not> P (last (strip P s)))"
proof (cases "strip P s = []")
  case False
  let ?d = "dropWhile P s"
  have r: "strip P s = rev (dropWhile P (rev ?d))" by (simp add: strip_def)
  with False have ne: "dropWhile P (rev ?d) \<noteq> []" by simp
  then have "\<not> P (hd (dropWhile P (rev ?d)))" by (rule hd_dropWhile)
  then have l: "\<not> P (last (strip P s))" unfolding r using ne by (simp add: last_rev)
  obtain t where t: "rev ?d = t @ dropWhile P (rev ?d)" by (metis takeWhile_dropWhile_id)
  then have "?d = strip P s @ rev t" unfolding r by (metis rev_append rev_rev_ident)
  then have "hd ?d = hd (strip P s)" "?d \<noteq> []" using False by auto
  moreover from this(2) have "\<not> P (hd ?d)" by (rule hd_dropWhile)
  ultimately show ?thesis using l by simp
qed simp

lemma strip_stripped: "list_all P a \<Longrightarrow> strip P (a @ strip P s) = strip P s"
  using strip_padded [of P a "[]" "strip P s"] strip_result [of P s] by simp

lemma unat_latin1Bytes: "list_all (\<lambda>u. u < 256) s \<Longrightarrow> latin1 (latin1Bytes s) = s"
  by (induction s) (simp_all add: latin1Bytes_def latin1_def unsigned_of_nat take_bit_nat_eq_self)

lemma latin1Bytes_append [simp]: "latin1Bytes (a @ b) = latin1Bytes a @ latin1Bytes b"
  by (simp add: latin1Bytes_def)

lemma latin1Bytes_simps [simp]: "latin1Bytes [] = []" "latin1Bytes (u # s) = word_of_nat u # latin1Bytes s"
  by (simp_all add: latin1Bytes_def)

lemma latin1Bytes_crlf: "latin1Bytes [0x0D, 0x0A] = [0x0D, 0x0A]"
  by (simp add: latin1Bytes_def)

lemma length_latin1Bytes [simp]: "length (latin1Bytes s) = length s"
  by (simp add: latin1Bytes_def)

lemma latin1Bytes_no_lf:
  assumes "list_all (\<lambda>u. u < 256) s" "0x0A \<notin> set s"
  shows "0x0A \<notin> set (latin1Bytes s)"
proof
  assume "0x0A \<in> set (latin1Bytes s)"
  then have "unat (0x0A :: byte) \<in> set (latin1 (latin1Bytes s))" unfolding latin1_def by (simp only: set_map image_eqI)
  then show False using assms by (simp add: unat_latin1Bytes)
qed

text \<open>A line of Latin-1 characters without a line feed reads back.\<close>

lemma readHeadLine_reads:
  assumes "list_all (\<lambda>u. u < 256) s" "0x0A \<notin> set s" "length s + 2 \<le> left"
  shows "readHeadLine wire_ops left c (latin1Bytes (s @ [0x0D, 0x0A]) @ t, e)
       = (Inr (s, left - (length s + 2)), (t, e))"
proof -
  let ?h = "latin1Bytes s @ [0x0D]"
  have "wire_until LF left (?h @ 0x0A # t, e) = (Inr (?h @ [0x0A]), (t, e))"
    unfolding LF_def by (rule wire_until_line) (use latin1Bytes_no_lf [OF assms(1,2)] assms(3) in auto)
  then have "wire_until LF left (latin1Bytes (s @ [0x0D, 0x0A]) @ t, e) = (Inr (latin1Bytes s @ [0x0D, 0x0A]), (t, e))"
    by (simp add: latin1Bytes_crlf)
  moreover have "latin1 (latin1Bytes s @ [0x0D, 0x0A]) = s @ [0x0D, 0x0A]"
    by (simp add: unat_latin1Bytes [OF assms(1)])
  ultimately show ?thesis by (simp add: readHeadLine_def bindA_def Let_def)
qed

lemma request_field_ok:
  assumes "request_field (n, v) = Inr line"
  shows "is_token n" "line = n @ js '': '' @ strip_ows v @ [0x0D, 0x0A]" "is_field_value v"
    "list_all (\<lambda>u. u < 256) n" "list_all (\<lambda>u. u < 256) v" "0x0A \<notin> set v" "0x0A \<notin> set n" "0x0D \<notin> set v"
proof -
  show n: "is_token n" and "line = n @ js '': '' @ strip_ows v @ [0x0D, 0x0A]"
    using assms by (auto simp: request_field_def split: if_splits)
  have v: "u \<notin> {0x0D, 0x0A, 0x00} \<and> u \<le> 0xFF \<and>
      \<not> ((0x01 \<le> u \<and> u \<le> 0x08) \<or> u = 0x0B \<or> u = 0x0C \<or> (0x0E \<le> u \<and> u \<le> 0x1F) \<or> u = 0x7F)"
    if "u \<in> set v" for u
    using assms that by (auto simp: request_field_def list_ex_iff split: if_splits)
  then show "0x0A \<notin> set v" "0x0D \<notin> set v" by blast+
  have "u < 256" if "u \<in> set v" for u using v [OF that] by simp
  then show "list_all (\<lambda>u. u < 256) v" by (simp add: list_all_iff)
  have "field_char u" if "u \<in> set v" for u using v [OF that] unfolding field_char_def by (simp; linarith)
  then show "is_field_value v" by (simp add: is_field_value_def list_all_iff)
  have "\<forall>u \<in> set n. tchar u" using n by (simp add: is_token_def list_all_iff)
  then have "u < 256" "u \<noteq> 0x0A" if "u \<in> set n" for u
    using that tchar_not_space(1,3) [of u] by (auto simp: js_space_def)
  then show "list_all (\<lambda>u. u < 256) n" "0x0A \<notin> set n" by (auto simp: list_all_iff)
qed

lemma token_no_colon: "is_token n \<Longrightarrow> 0x3A \<notin> set n"
  by (auto simp: is_token_def list_all_iff tchar_def is_digit_def is_upper_def is_lower_def)

lemma token_hd: "is_token n \<Longrightarrow> hd (n @ s) \<noteq> 0x20 \<and> hd (n @ s) \<noteq> 0x09 \<and> n \<noteq> []"
  by (cases n) (auto simp: is_token_def dest: tchar_not_space(2) simp: is_ows_def)

lemma is_field_value_strip: "is_field_value v \<Longrightarrow> is_field_value (strip P v)"
  using strip_incl [of P v] by (auto simp: is_field_value_def list_all_iff)

lemma header_line_reads:
  assumes "request_field (n, v) = Inr line"
  shows "header_line (n @ js '': '' @ strip_ows v) = Inr (n, strip_ows v)"
proof -
  note r = request_field_ok [OF assms]
  have colon: "index_unit 0x3A (n @ 0x3A # 0x20 # strip_ows v) = Some (length n)"
    by (rule index_unit_append) (rule token_no_colon [OF r(1)])
  have "strip is_ows ([0x20] @ strip is_ows v) = strip is_ows v" by (rule strip_stripped) (simp add: is_ows_def)
  then have val: "strip_ows (0x20 # strip_ows v) = strip_ows v" by (simp add: strip_ows_def)
  have "is_field_value (strip_ows v)" unfolding strip_ows_def by (rule is_field_value_strip [OF r(3)])
  with colon val r(1) token_hd [OF r(1), of "[]"]
  show ?thesis by (simp add: header_line_def)
qed

lemma strip_http_space_ows:
  assumes "0x0A \<notin> set v" "0x0D \<notin> set v"
  shows "strip http_space (strip_ows v) = strip_ows v"
proof (rule strip_id)
  have "set (strip_ows v) \<subseteq> set v" unfolding strip_ows_def by (rule strip_incl)
  then have same: "u \<in> set (strip_ows v) \<Longrightarrow> http_space u = is_ows u" for u
    using assms by (auto simp: http_space_def is_ows_def)
  show "strip_ows v = [] \<or> (\<not> http_space (hd (strip_ows v)) \<and> \<not> http_space (last (strip_ows v)))"
  proof (cases "strip_ows v = []")
    case False
    with strip_result [of is_ows v] same [of "hd (strip_ows v)"] same [of "last (strip_ows v)"]
    show ?thesis by (simp add: strip_ows_def)
  qed simp
qed

definition read_fields :: "(jsstr \<times> jsstr) list \<Rightarrow> headers" where
  "read_fields hs = map (\<lambda>(n, v). (toLowerCase n, strip_ows v)) hs"

definition read_cookies :: "(jsstr \<times> jsstr) list \<Rightarrow> jsstr list" where
  "read_cookies hs = map (\<lambda>(n, v). strip_ows v) (filter (\<lambda>(n, v). toLowerCase n = js ''set-cookie'') hs)"

lemma request_fields_split:
  "request_fields hs acc = Inr doc \<Longrightarrow>
   \<exists>rest. doc = acc @ rest \<and> request_fields hs [] = Inr rest"
proof (induction hs arbitrary: acc doc)
  case (Cons f fs)
  then obtain line where l: "request_field f = Inr line" "request_fields fs (acc @ line) = Inr doc"
    by (auto simp: bindE_Inr_conv)
  from Cons.IH [OF l(2)] obtain rest where rest: "doc = (acc @ line) @ rest" "request_fields fs [] = Inr rest" by blast
  have "request_fields fs (line @ []) = Inr (line @ rest)"
    using rest(2)
  proof -
    have "request_fields fs (a @ b) = map_sum id ((@) a) (request_fields fs b)" for a b
    proof (induction fs arbitrary: b)
      case (Cons g gs)
      show ?case
      proof (cases "request_field g")
        case (Inr x)
        then show ?thesis using Cons.IH [of "b @ x"] by simp
      qed simp
    qed simp
    from this [of line "[]"] rest(2) show ?thesis by simp
  qed
  with l rest show ?case by simp
qed simp

lemma request_fields_Cons:
  assumes "request_fields (f # fs) [] = Inr doc"
  obtains line rest where "request_field f = Inr line" "request_fields fs [] = Inr rest" "doc = line @ rest"
proof -
  obtain line where l: "request_field f = Inr line" "request_fields fs line = Inr doc"
    using assms by (auto simp: bindE_Inr_conv)
  from request_fields_split [OF l(2)] l(1) that show ?thesis by blast
qed

lemma header_loop_reads:
  "request_fields hs [] = Inr doc \<Longrightarrow> length doc + 2 \<le> left \<Longrightarrow> length hs < fuel \<Longrightarrow>
   header_loop fuel wire_ops left acc sc (latin1Bytes (doc @ [0x0D, 0x0A]) @ t, e)
     = Some (Inr (acc @ read_fields hs, sc @ read_cookies hs, left - (length doc + 2)), (t, e))"
proof (induction hs arbitrary: doc left acc sc fuel)
  case Nil
  then obtain fuel' where "fuel = Suc fuel'" by (cases fuel) auto
  with Nil readHeadLine_reads [of "[]" left HTTP_HEADER t e] show ?case
    by (simp add: read_fields_def read_cookies_def)
next
  case (Cons f hs)
  obtain n v where f: "f = (n, v)" by (cases f)
  obtain line rest where l: "request_field f = Inr line" "request_fields hs [] = Inr rest" "doc = line @ rest"
    using request_fields_Cons [OF Cons.prems(1)] by blast
  note r = request_field_ok [OF l(1) [unfolded f]]
  obtain fuel' where fuel: "fuel = Suc fuel'" "length hs < fuel'" using Cons.prems(3) by (cases fuel) auto
  let ?s = "n @ js '': '' @ strip_ows v"
  have line: "line = ?s @ [0x0D, 0x0A]" using r(2) by simp
  have sv: "set (strip_ows v) \<subseteq> set v" unfolding strip_ows_def by (rule strip_incl)
  have "list_all (\<lambda>u. u < 256) ?s" "0x0A \<notin> set ?s"
    using r(4-7) sv by (auto simp: list_all_iff)
  then have rd: "readHeadLine wire_ops left HTTP_HEADER (latin1Bytes (?s @ [0x0D, 0x0A]) @ (latin1Bytes (rest @ [0x0D, 0x0A]) @ t), e)
       = (Inr (?s, left - (length ?s + 2)), (latin1Bytes (rest @ [0x0D, 0x0A]) @ t, e))"
    using Cons.prems(2) l(3) line by (intro readHeadLine_reads) simp_all
  have app: "headers_append n (strip_ows v) acc = Inr (acc @ [(toLowerCase n, strip_ows v)])"
    using headers_append_checked [OF r(1), of "strip_ows v" acc] is_field_value_strip [OF r(3), of is_ows]
      strip_http_space_ows [OF r(6,8)] by (simp add: strip_ows_def)
  have ne: "?s \<noteq> []" by simp
  let ?sc = "if toLowerCase n = js ''set-cookie'' then sc @ [strip_ows v] else sc"
  have "header_loop fuel wire_ops left acc sc (latin1Bytes (doc @ [0x0D, 0x0A]) @ t, e)
      = header_loop fuel' wire_ops (left - (length ?s + 2)) (acc @ [(toLowerCase n, strip_ows v)]) ?sc
          (latin1Bytes (rest @ [0x0D, 0x0A]) @ t, e)"
    using rd header_line_reads [OF l(1) [unfolded f]] app l(3) line by (simp add: fuel(1) split: sum.split)
  also have "\<dots> = Some (Inr ((acc @ [(toLowerCase n, strip_ows v)]) @ read_fields hs, ?sc @ read_cookies hs,
      left - (length ?s + 2) - (length rest + 2)), (t, e))"
    using Cons.prems(2) l(3) line fuel(2) by (intro Cons.IH [OF l(2)]) simp_all
  finally show ?case using l(3) line by (simp add: f read_fields_def read_cookies_def)
qed

lemma request_head_reads_back:
  assumes "serializeRequestHead m u hs ver = Inr b"
  shows "\<exists>fields. b = latin1Bytes (m @ js '' '' @ u @ js '' HTTP/'' @ ver @ [0x0D, 0x0A]) @ fields
      \<and> (\<forall>left t e. length fields \<le> left \<longrightarrow>
           header_loop (Suc left) wire_ops left [] [] (fields @ t, e)
             = Some (Inr (read_fields hs, read_cookies hs, left - length fields), (t, e)))"
proof -
  let ?line = "m @ js '' '' @ u @ js '' HTTP/'' @ ver @ [0x0D, 0x0A]"
  obtain doc where "request_fields hs ?line = Inr doc" and b: "b = latin1Bytes (doc @ [0x0D, 0x0A])"
    using assms by (auto simp: serializeRequestHead_def bindE_Inr_conv split: if_splits)
  from request_fields_split [OF this(1)]
  obtain rest where rest: "doc = ?line @ rest" "request_fields hs [] = Inr rest" by blast
  have len: "length hs \<le> length rest" using rest(2)
  proof (induction hs arbitrary: rest)
    case (Cons f hs)
    obtain n v where f: "f = (n, v)" by (cases f)
    obtain l r where lr: "request_field f = Inr l" "request_fields hs [] = Inr r" "rest = l @ r"
      using request_fields_Cons [OF Cons.prems] by blast
    have "1 \<le> length l" using request_field_ok(2) [OF lr(1) [unfolded f]] by simp
    with Cons.IH [OF lr(2)] lr(3) show ?case by simp
  qed simp
  show ?thesis
  proof (intro exI [of _ "latin1Bytes (rest @ [0x0D, 0x0A])"] conjI allI impI)
    show "b = latin1Bytes ?line @ latin1Bytes (rest @ [0x0D, 0x0A])" using b rest(1) by simp
  next
    fix left t e assume "length (latin1Bytes (rest @ [0x0D, 0x0A])) \<le> left"
    with header_loop_reads [OF rest(2), of left "Suc left" "[]" "[]" t e] len
    show "header_loop (Suc left) wire_ops left [] [] (latin1Bytes (rest @ [0x0D, 0x0A]) @ t, e)
        = Some (Inr (read_fields hs, read_cookies hs, left - length (latin1Bytes (rest @ [0x0D, 0x0A]))), (t, e))"
      by simp
  qed
qed

end
