(* ===== verification/Http2_Messages.thy ===== *)
theory Http2_Messages
  imports Frames Hpack_Roundtrip Response_Correct
begin

text \<open>
  The stateless part of \<open>src/http2/connection.js\<close>: the field list of a request, the checks on the
  decoded field list of a response and of trailers, and the declared content length.
\<close>

subsection \<open>Requests\<close>

definition PSEUDO_HEADER_ORDER :: "jsstr list" where
  "PSEUDO_HEADER_ORDER = [js '':method'', js '':scheme'', js '':authority'', js '':path'']"

record h2_request_head =
  rq_method :: jsstr
  rq_scheme :: jsstr
  rq_authority :: jsstr
  rq_path :: jsstr
  rq_headers :: "(jsstr \<times> jsstr) list"

definition pseudo :: "h2_request_head \<Rightarrow> jsstr \<Rightarrow> jsstr option" where
  "pseudo r = [js '':method'' \<mapsto> rq_method r, js '':scheme'' \<mapsto> rq_scheme r,
               js '':authority'' \<mapsto> rq_authority r, js '':path'' \<mapsto> rq_path r]"

text \<open>The caller's indexing map is consulted first.\<close>

definition indexingFor :: "(jsstr \<Rightarrow> indexing option) \<Rightarrow> jsstr \<Rightarrow> indexing" where
  "indexingFor m name =
     (case m name of Some i \<Rightarrow> i | None \<Rightarrow> if name = js '':path'' then Without else Incremental)"

text \<open>The two loops over the pseudo-headers: the given order without repetitions, then those left.\<close>

fun ordered_pseudo :: "h2_request_head \<Rightarrow> jsstr list \<Rightarrow> jsstr list \<Rightarrow> (jsstr \<times> jsstr) list \<times> jsstr list" where
  "ordered_pseudo r [] seen = ([], seen)"
| "ordered_pseudo r (name # order) seen =
     (case pseudo r name of
        None \<Rightarrow> ordered_pseudo r order seen
      | Some v \<Rightarrow>
          if name \<in> set seen then ordered_pseudo r order seen
          else (case ordered_pseudo r order (name # seen) of (fs, seen') \<Rightarrow> ((name, v) # fs, seen')))"

definition buildRequestFields ::
  "h2_request_head \<Rightarrow> jsstr list option \<Rightarrow> (jsstr \<Rightarrow> indexing option) \<Rightarrow> hpack_field list" where
  "buildRequestFields r order idx =
     (let given = ordered_pseudo r (case order of None \<Rightarrow> PSEUDO_HEADER_ORDER | Some p \<Rightarrow> p) [];
          missing = filter (\<lambda>name. name \<notin> set (snd given)) PSEUDO_HEADER_ORDER;
          fields = fst given @ map (\<lambda>name. (name, the (pseudo r name))) missing @ rq_headers r
      in map (\<lambda>(name, v). \<lparr> hf_name = name, hf_value = v, hf_indexing = Some (indexingFor idx name) \<rparr>) fields)"

subsection \<open>Responses\<close>

definition FORBIDDEN_H2_HEADERS :: "jsstr list" where
  "FORBIDDEN_H2_HEADERS =
     [js ''connection'', js ''proxy-connection'', js ''keep-alive'', js ''transfer-encoding'', js ''upgrade'']"

text \<open>\<open>assertHeaderNameGrammar\<close>: either violation has the same code.\<close>

definition name_unit_ok :: "nat \<Rightarrow> bool" where
  "name_unit_ok u \<longleftrightarrow> \<not> (0x41 \<le> u \<and> u \<le> 0x5A) \<and> \<not> u \<le> 0x20 \<and> u \<noteq> 0x7F \<and> u \<noteq> 0x3A"

definition assertHeaderNameGrammar :: "jsstr \<Rightarrow> tf_error + unit" where
  "assertHeaderNameGrammar name = guardE (list_all name_unit_ok name) (frame_error HTTP2_HEADER)"

record h2_head =
  h2_status :: nat
  h2_headers :: headers
  h2_setCookie :: "jsstr list"

fun response_fields ::
  "header list \<Rightarrow> nat option \<Rightarrow> bool \<Rightarrow> headers \<Rightarrow> jsstr list
     \<Rightarrow> tf_error + (nat option \<times> headers \<times> jsstr list)" where
  "response_fields [] status sawRegular hs setCookie = Inr (status, hs, setCookie)"
| "response_fields ((name, val) # pairs) status sawRegular hs setCookie =
     (if length name = 0 then Inl (frame_error HTTP2_HEADER)
      else if name ! 0 = 0x3A then
        (if sawRegular then Inl (frame_error HTTP2_HEADER)
         else if name \<noteq> js '':status'' then Inl (frame_error HTTP2_HEADER)
         else if status \<noteq> None then Inl (frame_error HTTP2_HEADER)
         else if \<not> (length val = 3 \<and> list_all is_digit val) then Inl (frame_error HTTP2_HEADER)
         else response_fields pairs (Some (parse_base 10 val)) sawRegular hs setCookie)
      else
        bindE (assertHeaderNameGrammar name) (\<lambda>_.
          if name \<in> set FORBIDDEN_H2_HEADERS then Inl (frame_error HTTP2_HEADER)
          else if name = js ''te'' \<and> toLowerCase val \<noteq> js ''trailers'' then Inl (frame_error HTTP2_HEADER)
          else bindE (headers_append name val hs) (\<lambda>hs'.
            response_fields pairs status True hs'
              (if name = js ''set-cookie'' then setCookie @ [val] else setCookie))))"

definition parseResponseHeaders :: "header list \<Rightarrow> tf_error + h2_head" where
  "parseResponseHeaders pairs =
     bindE (response_fields pairs None False [] []) (\<lambda>(status, hs, setCookie).
       case status of
         None \<Rightarrow> Inl (frame_error HTTP2_HEADER)
       | Some st \<Rightarrow> Inr \<lparr> h2_status = st, h2_headers = hs, h2_setCookie = setCookie \<rparr>)"

fun trailer_fields :: "header list \<Rightarrow> headers \<Rightarrow> tf_error + headers" where
  "trailer_fields [] trailers = Inr trailers"
| "trailer_fields ((name, val) # pairs) trailers =
     (if length name = 0 \<or> name ! 0 = 0x3A then Inl (frame_error HTTP2_TRAILER)
      else
        bindE (assertHeaderNameGrammar name) (\<lambda>_.
          if name \<in> set FORBIDDEN_H2_HEADERS then Inl (frame_error HTTP2_TRAILER)
          else bindE (headers_append name val trailers) (trailer_fields pairs)))"

definition parseTrailers :: "header list \<Rightarrow> tf_error + headers" where
  "parseTrailers pairs = trailer_fields pairs []"

text \<open>\<open>contentLengthOf\<close>: absent, one length, or malformed.\<close>

datatype content_length = CLAbsent | CLLength nat | CLMalformed

definition contentLengthOf :: "headers \<Rightarrow> content_length" where
  "contentLengthOf hs =
     (case headers_get (js ''content-length'') hs of
        None \<Rightarrow> CLAbsent
      | Some raw \<Rightarrow>
          (let parts = map js_trim (split_unit 0x2C raw)
           in if \<not> list_all (\<lambda>p. p \<noteq> [] \<and> list_all is_digit p) parts then CLMalformed
              else if \<not> list_all (\<lambda>p. p = parts ! 0) parts then CLMalformed
              else let n = parse_base 10 (parts ! 0)
                   in if n \<le> max_safe_integer then CLLength n else CLMalformed))"

subsection \<open>Lemmas\<close>

lemma pseudo_names: "pseudo r name \<noteq> None \<longleftrightarrow> name \<in> set PSEUDO_HEADER_ORDER"
  by (auto simp: pseudo_def PSEUDO_HEADER_ORDER_def)

lemma distinct_pseudo: "distinct PSEUDO_HEADER_ORDER"
  by (simp add: PSEUDO_HEADER_ORDER_def)

lemma ordered_pseudo_names:
  "ordered_pseudo r order seen = (fs, seen') \<Longrightarrow>
   set seen' = set seen \<union> fst ` set fs \<and> distinct (map fst fs) \<and> set seen \<inter> fst ` set fs = {}
   \<and> (\<forall>(n, v) \<in> set fs. pseudo r n = Some v)"
proof (induction order arbitrary: seen fs seen')
  case (Cons name order)
  show ?case
  proof (cases "pseudo r name = None \<or> name \<in> set seen")
    case True
    with Cons.prems have "ordered_pseudo r order seen = (fs, seen')" by (auto split: option.splits if_splits)
    from Cons.IH [OF this] show ?thesis .
  next
    case False
    then obtain v where v: "pseudo r name = Some v" by auto
    obtain fs1 seen1 where o: "ordered_pseudo r order (name # seen) = (fs1, seen1)"
      by (cases "ordered_pseudo r order (name # seen)")
    with Cons.prems False v have "fs = (name, v) # fs1" "seen' = seen1" by auto
    with Cons.IH [OF o] v False show ?thesis by (auto simp: image_iff)
  qed
qed simp

text \<open>Whatever order the caller gives, each of the four pseudo-headers is sent exactly once, before
  every regular field.\<close>

lemma request_fields_shape:
  "\<exists>ps. buildRequestFields r order idx = map (\<lambda>(n, v).
          \<lparr> hf_name = n, hf_value = v, hf_indexing = Some (indexingFor idx n) \<rparr>) (ps @ rq_headers r)
     \<and> distinct (map fst ps) \<and> set ps = {(n, v). pseudo r n = Some v}"
proof -
  obtain fs seen where o: "ordered_pseudo r (case order of None \<Rightarrow> PSEUDO_HEADER_ORDER | Some p \<Rightarrow> p) [] = (fs, seen)"
    by (cases "ordered_pseudo r (case order of None \<Rightarrow> PSEUDO_HEADER_ORDER | Some p \<Rightarrow> p) []")
  note names = ordered_pseudo_names [OF o]
  let ?ps = "fs @ map (\<lambda>name. (name, the (pseudo r name))) (filter (\<lambda>name. name \<notin> set seen) PSEUDO_HEADER_ORDER)"
  have "map fst ?ps = map fst fs @ filter (\<lambda>name. name \<notin> set seen) PSEUDO_HEADER_ORDER" by (simp add: comp_def)
  then have "distinct (map fst ?ps)" using names distinct_pseudo by (auto simp del: map_append)
  moreover have "set ?ps = {(n, v). pseudo r n = Some v}"
  proof (intro equalityI subsetI)
    fix nv assume "nv \<in> set ?ps"
    with names show "nv \<in> {(n, v). pseudo r n = Some v}"
      using pseudo_names [of r] by (cases nv) fastforce
  next
    fix nv assume "nv \<in> {(n, v). pseudo r n = Some v}"
    then obtain n v where nv: "nv = (n, v)" "pseudo r n = Some v" by blast
    then have mem: "n \<in> set PSEUDO_HEADER_ORDER" using pseudo_names [of r n] by simp
    show "nv \<in> set ?ps"
    proof (cases "n \<in> set seen")
      case True
      then obtain v' where "(n, v') \<in> set fs" using names by auto
      then have "(n, v) \<in> set fs" using names nv(2) by fastforce
      then show ?thesis using nv(1) by simp
    next
      case False
      then show ?thesis using nv mem by (auto simp: image_iff)
    qed
  qed
  moreover have "buildRequestFields r order idx = map (\<lambda>(n, v).
      \<lparr> hf_name = n, hf_value = v, hf_indexing = Some (indexingFor idx n) \<rparr>) (?ps @ rq_headers r)"
    using o by (simp add: buildRequestFields_def Let_def)
  ultimately show ?thesis by blast
qed

text \<open>Accepted response fields.\<close>

definition regular_name :: "jsstr \<Rightarrow> bool" where
  "regular_name n \<longleftrightarrow> n \<noteq> [] \<and> list_all name_unit_ok n \<and> n \<notin> set FORBIDDEN_H2_HEADERS"

lemma lower_name: "is_token n \<Longrightarrow> list_all name_unit_ok n \<Longrightarrow> toLowerCase n = n"
  unfolding toLowerCase_def
  by (rule map_idI) (auto simp: list_all_iff is_token_def tchar_def lower_unit_def name_unit_ok_def is_upper_def
      is_lower_def is_digit_def)

lemma headers_append_snoc:
  "headers_append n v hs = Inr hs' \<Longrightarrow> list_all name_unit_ok n \<Longrightarrow> hs' = hs @ [(n, strip http_space v)]"
  by (auto simp: headers_append_def Let_def lower_name split: if_splits)

lemma response_fields_ok:
  "response_fields pairs st saw hs sc = Inr (st', hs', sc') \<Longrightarrow> list_all (\<lambda>(n, v). regular_name n) hs \<Longrightarrow>
   list_all (\<lambda>(n, v). regular_name n) hs' \<and> (st \<noteq> None \<longrightarrow> st' = st)
   \<and> (st = None \<longrightarrow> st' \<noteq> None \<longrightarrow> (\<exists>v. list_all is_digit v \<and> length v = 3 \<and> (js '':status'', v) \<in> set pairs
        \<and> st' = Some (parse_base 10 v)))"
proof (induction pairs st saw hs sc rule: response_fields.induct)
  case (2 name val pairs status saw hs sc)
  from "2.prems"(1) have ne: "name \<noteq> []" by auto
  show ?case
  proof (cases "name ! 0 = 0x3A")
    case True
    with "2.prems"(1) ne have c: "\<not> saw" "name = js '':status''" "status = None" "length val = 3" "list_all is_digit val"
      and r: "response_fields pairs (Some (parse_base 10 val)) saw hs sc = Inr (st', hs', sc')"
      by (auto split: if_splits)
    have "\<not> length name = 0" using ne by simp
    from "2.IH"(1) [OF this True c(1) _ _ _ r "2.prems"(2)] c show ?thesis by auto
  next
    case False
    with "2.prems"(1) ne obtain u hs1 where
      g: "assertHeaderNameGrammar name = Inr u" "name \<notin> set FORBIDDEN_H2_HEADERS"
        "\<not> (name = js ''te'' \<and> toLowerCase val \<noteq> js ''trailers'')" "headers_append name val hs = Inr hs1"
      and r: "response_fields pairs status True hs1 (if name = js ''set-cookie'' then sc @ [val] else sc) = Inr (st', hs', sc')"
      by (auto simp: bindE_Inr_conv split: if_splits)
    have ln: "list_all name_unit_ok name" using g(1) by (simp add: assertHeaderNameGrammar_def)
    have l0: "\<not> length name = 0" using ne by simp
    have "list_all (\<lambda>(n, v). regular_name n) hs1"
      using headers_append_snoc [OF g(4) ln] "2.prems"(2) ln ne g(2) by (simp add: regular_name_def)
    from "2.IH"(2) [OF l0 False g(1-4) r this] show ?thesis by auto
  qed
qed auto

lemma parseResponseHeaders_ok:
  assumes "parseResponseHeaders pairs = Inr h"
  shows "list_all (\<lambda>(n, v). regular_name n) (h2_headers h) \<and> h2_status h < 1000"
proof -
  obtain st hs sc where r: "response_fields pairs None False [] [] = Inr (Some st, hs, sc)"
    "h = \<lparr> h2_status = st, h2_headers = hs, h2_setCookie = sc \<rparr>"
    using assms by (auto simp: parseResponseHeaders_def bindE_Inr_conv split: option.splits)
  from response_fields_ok [OF r(1)] obtain v where v: "list_all is_digit v" "length v = 3" "st = parse_base 10 v"
    and ok: "list_all (\<lambda>(n, v). regular_name n) hs" by auto
  have "list_all (\<lambda>u. hex_value u < 10) v" using v(1) by (auto simp: list_all_iff is_digit_def hex_value_def)
  from parse_base_bound [OF _ this] v(2,3) have "st < 1000" by simp
  with ok r(2) show ?thesis by simp
qed

lemma trailer_fields_ok:
  "trailer_fields pairs hs = Inr hs' \<Longrightarrow> list_all (\<lambda>(n, v). regular_name n) hs \<Longrightarrow>
   list_all (\<lambda>(n, v). regular_name n) hs'"
proof (induction pairs hs rule: trailer_fields.induct)
  case (2 name val pairs trailers)
  from "2.prems"(1) obtain u t1 where
    g: "\<not> (length name = 0 \<or> name ! 0 = 0x3A)" "assertHeaderNameGrammar name = Inr u"
      "name \<notin> set FORBIDDEN_H2_HEADERS" "headers_append name val trailers = Inr t1" "trailer_fields pairs t1 = Inr hs'"
    by (auto simp: bindE_Inr_conv split: if_splits)
  have ln: "list_all name_unit_ok name" using g(2) by (simp add: assertHeaderNameGrammar_def)
  have "list_all (\<lambda>(n, v). regular_name n) t1"
    using headers_append_snoc [OF g(4) ln] "2.prems"(2) ln g(1,3) by (simp add: regular_name_def)
  from "2.IH" [OF g this] show ?case .
qed simp

end
