(* ===== verification/Http2_State.thy ===== *)
theory Http2_State
  imports Http2_Messages
begin

text \<open>
  \<open>src/http2/connection.js\<close>, the state of an \<open>Http2Connection\<close> and of its streams, its constructor
  and the primitives that the handlers are made of. A stream object outlives its entry in the
  table of live streams (its body stream and its sender hold on to it), so the objects are a
  function of the id and the table is the list of live ids in the order of the \<open>Map\<close>. Frames
  written are kept as the calls of the serialisers, in the order of the write chain.
\<close>

subsection \<open>Frames written\<close>

datatype out_frame =
    OPreface
  | OSettings "(nat \<times> nat) list" bool
  | OHeaders nat bytes bool bool "priority option"
  | OContinuation nat bytes bool
  | OData nat bytes bool
  | OWindowUpdate nat nat
  | ORst nat nat
  | OPing bytes bool
  | OGoaway nat nat

fun out_bytes :: "out_frame \<Rightarrow> bytes" where
  "out_bytes OPreface = CONNECTION_PREFACE"
| "out_bytes (OSettings es ack) = settingsFrame es ack"
| "out_bytes (OHeaders i b endStream endHeaders prio) = headersFrame i b endStream endHeaders prio"
| "out_bytes (OContinuation i b endHeaders) = continuationFrame i b endHeaders"
| "out_bytes (OData i b endStream) = dataFrame i b endStream"
| "out_bytes (OWindowUpdate i n) = windowUpdateFrame i n"
| "out_bytes (ORst i code) = rstStreamFrame i code"
| "out_bytes (OPing b ack) = pingFrame b ack"
| "out_bytes (OGoaway lastId code) = goawayFrame lastId code []"

subsection \<open>Streams\<close>

text \<open>
  The sender of a request body, \<open>_sendBody\<close>: not started or finished, about to run its loop with the
  octets left, waiting for a window, or waiting for the write of a frame.
\<close>

datatype sender = NoSender | Ready bytes | Blocked bytes | Writing bytes

record h2_stream =
  s_id :: nat
  s_method :: jsstr
  s_status :: nat
  s_head :: "h2_head promise"
  s_responseReceived :: bool
  s_recvQueue :: "bytes list"
  s_recvEnded :: bool
  s_declaredLength :: content_length
  s_receivedLength :: nat
  s_bodyError :: "tf_error option"
  s_pullWaiter :: bool
  s_completed :: "bool promise"
  s_trailers :: "headers option promise"
  s_trailerFields :: "headers option"
  s_recvWindow :: int
  s_recvConsumed :: nat
  s_sendWindow :: int
  s_sendWaiters :: "nat list"
  s_localEnded :: bool
  s_cancelled :: bool
  s_closed :: bool
  s_rstSent :: bool
  s_sender :: sender
  s_abortable :: bool
  s_bodyOpen :: bool

definition new_stream :: "nat \<Rightarrow> jsstr \<Rightarrow> nat \<Rightarrow> nat \<Rightarrow> h2_stream" where
  "new_stream i meth recvWindow sendWindow =
     \<lparr> s_id = i, s_method = meth, s_status = 0, s_head = Pending, s_responseReceived = False,
       s_recvQueue = [], s_recvEnded = False, s_declaredLength = CLAbsent, s_receivedLength = 0,
       s_bodyError = None, s_pullWaiter = False, s_completed = Pending, s_trailers = Pending,
       s_trailerFields = None, s_recvWindow = int recvWindow, s_recvConsumed = 0,
       s_sendWindow = int sendWindow, s_sendWaiters = [], s_localEnded = False, s_cancelled = False,
       s_closed = False, s_rstSent = False, s_sender = NoSender, s_abortable = False, s_bodyOpen = True \<rparr>"

subsection \<open>The connection\<close>

record h2_options =
  op_settings :: "(nat \<times> nat) list option"
  op_initialWindowSize :: "nat option"
  op_connectionWindow :: "nat option"
  op_maxConcurrentStreams :: "nat option"
  op_maxHeaderTableSize :: "nat option"
  op_maxHeaderListSize :: "nat option"
  op_maxHeaderBlockBytes :: "nat option"
  op_pseudoHeaderOrder :: "jsstr list option"
  op_hpackIndexing :: "jsstr \<Rightarrow> indexing option"
  op_headersPriority :: "priority option"
  op_onClose :: bool

definition default_h2_options :: h2_options where
  "default_h2_options =
     \<lparr> op_settings = None, op_initialWindowSize = None, op_connectionWindow = None,
       op_maxConcurrentStreams = None, op_maxHeaderTableSize = None, op_maxHeaderListSize = None,
       op_maxHeaderBlockBytes = None, op_pseudoHeaderOrder = None, op_hpackIndexing = Map.empty,
       op_headersPriority = None, op_onClose = True \<rparr>"

definition HEADER_FRAGMENT_OVERHEAD :: nat where [simp]: "HEADER_FRAGMENT_OVERHEAD = 256"

text \<open>A header block in assembly.\<close>

record continuation =
  k_streamId :: nat
  k_fragments :: "bytes list"
  k_bytes :: nat
  k_frames :: nat
  k_endStream :: bool

record h2_conn =
  c_ourInitialWindow :: nat
  c_ourConnWindow :: nat
  c_ourMaxConcurrent :: nat
  c_ourHeaderTableSize :: nat
  c_peerInitialWindow :: nat
  c_peerMaxFrameSize :: nat
  c_peerMaxConcurrent :: "nat option"
  c_peerHeaderTableSize :: nat
  c_connRecvWindow :: int
  c_connConsumed :: nat
  c_connSendWindow :: int
  c_connSendWaiters :: "nat list"
  c_decoder :: hpack_decoder
  c_live :: "nat list"
  c_objs :: "nat \<Rightarrow> h2_stream"
  c_nextStreamId :: nat
  c_lastPeerStreamId :: nat
  c_continuation :: "continuation option"
  c_maxHeaderBlockBytes :: nat
  c_settingsFlight :: "(nat \<times> nat) list option"
  c_pseudoHeaderOrder :: "jsstr list option"
  c_hpackIndexing :: "jsstr \<Rightarrow> indexing option"
  c_headersPriority :: "priority option"
  c_expectFirstSettings :: bool
  c_fatal :: "tf_error option"
  c_goaway :: "(nat \<times> nat) option"
  c_closed :: bool
  c_onClose :: bool
  c_onCloseCalls :: "tf_error option list"
  c_transportClosed :: bool
  c_out :: "out_frame list"

text \<open>\<open>_write\<close>: frames of one call stay together.\<close>

definition emit :: "out_frame list \<Rightarrow> h2_conn \<Rightarrow> h2_conn" where
  "emit fs c = c\<lparr>c_out := c_out c @ fs\<rparr>"

text \<open>\<open>a ?? b\<close>.\<close>

definition or_else :: "'a option \<Rightarrow> 'a option \<Rightarrow> 'a option" where
  "or_else a b = (case a of None \<Rightarrow> b | Some x \<Rightarrow> Some x)"

definition first_setting :: "nat \<Rightarrow> (nat \<times> nat) list \<Rightarrow> nat option" where
  "first_setting i es = map_option snd (find (\<lambda>e. fst e = i) es)"

definition last_setting :: "nat \<Rightarrow> (nat \<times> nat) list \<Rightarrow> nat option" where
  "last_setting i es = fold (\<lambda>e acc. if fst e = i then Some (snd e) else acc) es None"

definition sendPreface :: "h2_conn \<Rightarrow> h2_conn" where
  "sendPreface c =
     (let settings = (case c_settingsFlight c of
            Some es \<Rightarrow> es
          | None \<Rightarrow> [(SETTINGS_MAX_CONCURRENT_STREAMS, c_ourMaxConcurrent c),
                     (SETTINGS_INITIAL_WINDOW_SIZE, c_ourInitialWindow c), (SETTINGS_ENABLE_PUSH, 0)]);
          flight = [OPreface, OSettings settings False]
            @ (if c_ourConnWindow c > DEFAULT_INITIAL_WINDOW
               then [OWindowUpdate 0 (c_ourConnWindow c - DEFAULT_INITIAL_WINDOW)] else [])
      in emit flight (c\<lparr>c_connRecvWindow := int (c_ourConnWindow c)\<rparr>))"

definition new_Http2Connection :: "h2_options \<Rightarrow> h2_conn" where
  "new_Http2Connection opts =
     (let settings = (case op_settings opts of None \<Rightarrow> [] | Some es \<Rightarrow> es);
          advertised = first_setting SETTINGS_INITIAL_WINDOW_SIZE settings;
          ourInitial = (case or_else (op_initialWindowSize opts) advertised of
                          None \<Rightarrow> CLIENT_INITIAL_WINDOW_SIZE | Some n \<Rightarrow> n);
          tableSize = (case or_else (op_maxHeaderTableSize opts) (last_setting SETTINGS_HEADER_TABLE_SIZE settings) of
                          None \<Rightarrow> DEFAULT_HEADER_TABLE_SIZE | Some n \<Rightarrow> n)
      in sendPreface
        \<lparr> c_ourInitialWindow = ourInitial,
          c_ourConnWindow = (case op_connectionWindow opts of None \<Rightarrow> CLIENT_CONNECTION_WINDOW | Some n \<Rightarrow> n),
          c_ourMaxConcurrent = (case op_maxConcurrentStreams opts of None \<Rightarrow> CLIENT_MAX_CONCURRENT_STREAMS | Some n \<Rightarrow> n),
          c_ourHeaderTableSize = tableSize,
          c_peerInitialWindow = DEFAULT_INITIAL_WINDOW,
          c_peerMaxFrameSize = DEFAULT_MAX_FRAME_SIZE,
          c_peerMaxConcurrent = None,
          c_peerHeaderTableSize = DEFAULT_HEADER_TABLE_SIZE,
          c_connRecvWindow = int DEFAULT_INITIAL_WINDOW,
          c_connConsumed = 0,
          c_connSendWindow = int DEFAULT_INITIAL_WINDOW,
          c_connSendWaiters = [],
          c_decoder = new_HpackDecoder tableSize (case op_maxHeaderListSize opts of None \<Rightarrow> 262144 | Some n \<Rightarrow> n),
          c_live = [],
          c_objs = (\<lambda>_. new_stream 0 [] 0 0),
          c_nextStreamId = 1,
          c_lastPeerStreamId = 0,
          c_continuation = None,
          c_maxHeaderBlockBytes = (case op_maxHeaderBlockBytes opts of None \<Rightarrow> 262144 | Some n \<Rightarrow> n),
          c_settingsFlight = op_settings opts,
          c_pseudoHeaderOrder = op_pseudoHeaderOrder opts,
          c_hpackIndexing = op_hpackIndexing opts,
          c_headersPriority = op_headersPriority opts,
          c_expectFirstSettings = True,
          c_fatal = None,
          c_goaway = None,
          c_closed = False,
          c_onClose = op_onClose opts,
          c_onCloseCalls = [],
          c_transportClosed = False,
          c_out = [] \<rparr>)"

definition canDispatch :: "h2_conn \<Rightarrow> bool" where
  "canDispatch c \<longleftrightarrow> c_fatal c = None \<and> \<not> c_closed c \<and> c_goaway c = None
     \<and> (case c_peerMaxConcurrent c of None \<Rightarrow> True | Some m \<Rightarrow> length (c_live c) < m)
     \<and> c_nextStreamId c \<le> 0x7fffffff"

definition activeStreams :: "h2_conn \<Rightarrow> nat" where
  "activeStreams c = length (c_live c)"

subsection \<open>Waking\<close>

definition modify :: "nat \<Rightarrow> (h2_stream \<Rightarrow> h2_stream) \<Rightarrow> h2_conn \<Rightarrow> h2_conn" where
  "modify i f c = c\<lparr>c_objs := (c_objs c)(i := f (c_objs c i))\<rparr>"

definition wakePull :: "nat \<Rightarrow> h2_conn \<Rightarrow> h2_conn" where
  "wakePull i = modify i (\<lambda>s. s\<lparr>s_pullWaiter := False\<rparr>)"

text \<open>Settling the promise a sender waits for. A list of waiters holds the ids of their streams.\<close>

definition unblock :: "h2_stream \<Rightarrow> h2_stream" where
  "unblock s = (case s_sender s of Blocked rest \<Rightarrow> s\<lparr>s_sender := Ready rest\<rparr> | _ \<Rightarrow> s)"

definition wake :: "nat list \<Rightarrow> h2_conn \<Rightarrow> h2_conn" where
  "wake waiters c = fold (\<lambda>i. modify i unblock) waiters c"

definition wakeSendWaiters :: "nat option \<Rightarrow> h2_conn \<Rightarrow> h2_conn" where
  "wakeSendWaiters target c =
     (let c1 = (case target of
            None \<Rightarrow> c
          | Some i \<Rightarrow> wake (s_sendWaiters (c_objs c i)) (modify i (\<lambda>s. s\<lparr>s_sendWaiters := []\<rparr>) c))
      in wake (c_connSendWaiters c1) (c1\<lparr>c_connSendWaiters := []\<rparr>))"

subsection \<open>Teardown of a stream\<close>

definition removeStream :: "nat \<Rightarrow> h2_conn \<Rightarrow> h2_conn" where
  "removeStream i c =
     (if s_closed (c_objs c i) then c
      else wakeSendWaiters (Some i) (wakePull i
             ((modify i (\<lambda>s. s\<lparr>s_closed := True\<rparr>) c)\<lparr>c_live := removeAll i (c_live c)\<rparr>)))"

definition reject_promises :: "tf_error \<Rightarrow> h2_stream \<Rightarrow> h2_stream" where
  "reject_promises e s =
     s\<lparr>s_bodyError := (case s_bodyError s of None \<Rightarrow> Some e | Some e' \<Rightarrow> Some e'),
       s_head := settle (Rejected e) (s_head s),
       s_completed := settle (Rejected e) (s_completed s),
       s_trailers := settle (Rejected e) (s_trailers s)\<rparr>"

definition rejectStream :: "nat \<Rightarrow> tf_error \<Rightarrow> h2_conn \<Rightarrow> h2_conn" where
  "rejectStream i e c = wakePull i (modify i (reject_promises e) c)"

definition sendRst :: "nat \<Rightarrow> nat \<Rightarrow> h2_conn \<Rightarrow> h2_conn" where
  "sendRst i code c =
     (if s_rstSent (c_objs c i) then c
      else (let c1 = modify i (\<lambda>s. s\<lparr>s_rstSent := True\<rparr>) c
            in if c_fatal c = None \<and> \<not> c_closed c then emit [ORst i code] c1 else c1))"

definition maybeCloseStream :: "nat \<Rightarrow> h2_conn \<Rightarrow> h2_conn" where
  "maybeCloseStream i c =
     (if s_recvEnded (c_objs c i) \<and> s_localEnded (c_objs c i) then removeStream i c else c)"

definition failStream :: "nat \<Rightarrow> tf_error \<Rightarrow> h2_conn \<Rightarrow> h2_conn" where
  "failStream i e c = rejectStream i e (removeStream i c)"

definition resetStream :: "nat \<Rightarrow> nat \<Rightarrow> tf_error \<Rightarrow> h2_conn \<Rightarrow> h2_conn" where
  "resetStream i code e c = rejectStream i e (removeStream i (sendRst i code c))"

subsection \<open>Teardown of the connection\<close>

definition connection_error :: tf_error where
  "connection_error = frame_error HTTP2_PROTOCOL"

definition fail_all :: "tf_error \<Rightarrow> h2_conn \<Rightarrow> h2_conn" where
  "fail_all e c = fold (\<lambda>i. failStream i e) (c_live c) c"

definition die :: "tf_error option \<Rightarrow> h2_conn \<Rightarrow> h2_conn" where
  "die err c =
     (if c_fatal c \<noteq> None then c
      else
        (let f = (case err of None \<Rightarrow> connection_error | Some e \<Rightarrow> e);
             c1 = c\<lparr>c_fatal := Some f\<rparr>;
             c2 = (if c_closed c1 then c1
                   else emit [OGoaway (c_lastPeerStreamId c) (if err = None then H2_NO_ERROR else H2_PROTOCOL_ERROR)]
                          (c1\<lparr>c_closed := True\<rparr>));
             c3 = (fail_all f c2)\<lparr>c_transportClosed := True\<rparr>
         in if c_onClose c3 then c3\<lparr>c_onClose := False, c_onCloseCalls := c_onCloseCalls c3 @ [err]\<rparr> else c3))"

definition close_connection :: "h2_conn \<Rightarrow> h2_conn" where
  "close_connection c =
     (if c_closed c then c
      else
        (let c1 = emit [OGoaway (c_lastPeerStreamId c) H2_NO_ERROR] (c\<lparr>c_closed := True\<rparr>);
             c2 = (if c_fatal c1 = None then c1\<lparr>c_fatal := Some connection_error\<rparr> else c1);
             c3 = (fail_all connection_error c2)\<lparr>c_transportClosed := True\<rparr>
         in if c_onClose c3 then c3\<lparr>c_onClose := False, c_onCloseCalls := c_onCloseCalls c3 @ [None]\<rparr> else c3))"

subsection \<open>Receive windows\<close>

text \<open>\<open>Math.max(1, w >> 1)\<close>: the shift reads the window as a signed 32-bit number.\<close>

definition half_window :: "nat \<Rightarrow> nat" where
  "half_window w = max 1 (if w mod 4294967296 < 2147483648 then w mod 4294967296 div 2 else 0)"

definition replenish :: "nat \<Rightarrow> nat \<Rightarrow> h2_conn \<Rightarrow> h2_conn" where
  "replenish i n c =
     (let c1 = modify i (\<lambda>s. s\<lparr>s_recvConsumed := s_recvConsumed s + n, s_recvWindow := s_recvWindow s + int n\<rparr>) c;
          s = c_objs c1 i
      in if s_recvConsumed s \<ge> half_window (c_ourInitialWindow c) \<and> \<not> s_closed s
         then emit [OWindowUpdate (s_id s) (s_recvConsumed s)] (modify i (\<lambda>s. s\<lparr>s_recvConsumed := 0\<rparr>) c1)
         else c1)"

definition replenishConn :: "nat \<Rightarrow> h2_conn \<Rightarrow> h2_conn" where
  "replenishConn n c =
     (let c1 = c\<lparr>c_connConsumed := c_connConsumed c + n, c_connRecvWindow := c_connRecvWindow c + int n\<rparr>
      in if c_connConsumed c1 \<ge> half_window (c_ourConnWindow c)
         then emit [OWindowUpdate 0 (c_connConsumed c1)] (c1\<lparr>c_connConsumed := 0\<rparr>)
         else c1)"

definition consumeStream :: "nat \<Rightarrow> nat \<Rightarrow> h2_conn \<Rightarrow> h2_conn" where
  "consumeStream i n c = replenishConn n (replenish i n c)"

subsection \<open>The body stream\<close>

text \<open>
  \<open>pull\<close>: \<open>None\<close> when it waits. It is called only while the stream is readable; the consumption is
  accounted for at the moment of the call because the stream's own buffer is empty.
\<close>

definition h2_body_pull :: "nat \<Rightarrow> h2_conn \<Rightarrow> pull_result option \<times> h2_conn" where
  "h2_body_pull i c =
     (let s = c_objs c i in
      if \<not> s_bodyOpen s then (None, c)
      else
        case s_recvQueue s of
          chunk # rest \<Rightarrow>
            (Some (Enqueue chunk), consumeStream i (length chunk) (modify i (\<lambda>s. s\<lparr>s_recvQueue := rest\<rparr>) c))
        | [] \<Rightarrow>
            (case s_bodyError s of
               Some e \<Rightarrow>
                 (Some (Error e),
                  modify i (\<lambda>s. s\<lparr>s_completed := settle (Rejected e) (s_completed s), s_bodyOpen := False\<rparr>) c)
             | None \<Rightarrow>
                 if s_recvEnded s then
                   (Some Close,
                    modify i (\<lambda>s. s\<lparr>s_completed := settle (Resolved True) (s_completed s),
                                  s_trailers := settle (Resolved (s_trailerFields s)) (s_trailers s),
                                  s_bodyOpen := False\<rparr>) c)
                 else (None, modify i (\<lambda>s. s\<lparr>s_pullWaiter := True\<rparr>) c)))"

definition h2_body_cancel :: "nat \<Rightarrow> h2_conn \<Rightarrow> h2_conn" where
  "h2_body_cancel i c =
     (if \<not> s_bodyOpen (c_objs c i) then c
      else removeStream i (sendRst i H2_CANCEL
             (modify i (\<lambda>s. s\<lparr>s_bodyOpen := False, s_cancelled := True,
                             s_completed := settle (Resolved False) (s_completed s),
                             s_trailers := settle (Resolved None) (s_trailers s)\<rparr>) c)))"

subsection \<open>Sending\<close>

text \<open>The cuts of a header block after its first frame.\<close>

function continuation_frames :: "nat \<Rightarrow> nat \<Rightarrow> bytes \<Rightarrow> out_frame list" where
  "continuation_frames m i rest =
     (if rest = [] \<or> m = 0 then []
      else OContinuation i (take m rest) (drop m rest = []) # continuation_frames m i (drop m rest))"
  by pat_completeness auto
termination by (relation "measure (\<lambda>(m, i, rest). length rest)") auto

declare continuation_frames.simps [simp del]

definition sendHeaderBlock :: "nat \<Rightarrow> bytes \<Rightarrow> bool \<Rightarrow> h2_conn \<Rightarrow> h2_conn" where
  "sendHeaderBlock i block endStream c =
     (let m = c_peerMaxFrameSize c; prio = c_headersPriority c
      in if length block \<le> m then emit [OHeaders i block endStream True prio] c
         else emit (OHeaders i (take m block) endStream False prio # continuation_frames m i (drop m block)) c)"

text \<open>The loop of \<open>_sendBody\<close> from the point where it tests its condition to where it next waits.\<close>

definition send_body :: "nat \<Rightarrow> h2_conn \<Rightarrow> h2_conn" where
  "send_body i c =
     (let s = c_objs c i in
      case s_sender s of
        Ready rest \<Rightarrow>
          if rest = [] \<or> s_closed s \<or> s_cancelled s then modify i (\<lambda>s. s\<lparr>s_sender := NoSender\<rparr>) c
          else
            (let room = min (s_sendWindow s) (c_connSendWindow c)
             in if room \<le> 0 then
                  (case c_fatal c of
                     Some e \<Rightarrow> failStream i e (modify i (\<lambda>s. s\<lparr>s_sender := NoSender\<rparr>) c)
                   | None \<Rightarrow>
                       (modify i (\<lambda>s. s\<lparr>s_sender := Blocked rest, s_sendWaiters := s_sendWaiters s @ [i]\<rparr>) c)
                         \<lparr>c_connSendWaiters := c_connSendWaiters c @ [i]\<rparr>)
                else
                  (let n = min (min (nat room) (c_peerMaxFrameSize c)) (length rest);
                       rest' = drop n rest
                   in emit [OData i (take n rest) (rest' = [])]
                        ((modify i (\<lambda>s. s\<lparr>s_sender := Writing rest', s_sendWindow := s_sendWindow s - int n\<rparr>) c)
                           \<lparr>c_connSendWindow := c_connSendWindow c - int n\<rparr>)))
      | _ \<Rightarrow> c)"

text \<open>The write of a frame of the body settles.\<close>

definition body_written :: "nat \<Rightarrow> h2_conn \<Rightarrow> h2_conn" where
  "body_written i c =
     (case s_sender (c_objs c i) of
        Writing rest \<Rightarrow>
          if rest = [] then
            maybeCloseStream i (modify i (\<lambda>s. s\<lparr>s_sender := NoSender, s_localEnded := True\<rparr>) c)
          else send_body i (modify i (\<lambda>s. s\<lparr>s_sender := Ready rest\<rparr>) c)
      | _ \<Rightarrow> c)"

definition body_write_failed :: "nat \<Rightarrow> tf_error \<Rightarrow> h2_conn \<Rightarrow> h2_conn" where
  "body_write_failed i e c =
     (case s_sender (c_objs c i) of
        Writing rest \<Rightarrow> failStream i e (modify i (\<lambda>s. s\<lparr>s_sender := NoSender\<rparr>) c)
      | _ \<Rightarrow> c)"

definition createStream :: "nat \<Rightarrow> jsstr \<Rightarrow> h2_conn \<Rightarrow> h2_conn" where
  "createStream i meth c =
     c\<lparr>c_objs := (c_objs c)(i := new_stream i meth (c_ourInitialWindow c) (c_peerInitialWindow c)),
       c_live := c_live c @ [i]\<rparr>"

text \<open>
  A request: \<open>rq_signal\<close> is absent, not yet aborted, or aborted with a reason.
\<close>

record h2_request = h2_request_head +
  rq_body :: "bytes option"
  rq_signal :: "tf_error option option"

definition request :: "h2_request \<Rightarrow> h2_conn \<Rightarrow> (tf_error + nat) \<times> h2_conn" where
  "request rq c =
     (case c_fatal c of
        Some e \<Rightarrow> (Inl e, c)
      | None \<Rightarrow>
          if c_closed c then (Inl connection_error, c)
          else if c_goaway c \<noteq> None then (Inl (Thrown Http2Retryable (Http2 HTTP2_GOAWAY)), c)
          else if (case c_peerMaxConcurrent c of None \<Rightarrow> False | Some m \<Rightarrow> length (c_live c) \<ge> m)
          then (Inl (Thrown Http2Retryable (Http2 HTTP2_STREAM_STATE)), c)
          else
            (let i = c_nextStreamId c;
                 c1 = createStream i (rq_method rq) (c\<lparr>c_nextStreamId := i + 2\<rparr>)
             in case rq_signal rq of
                  Some (Some reason) \<Rightarrow> (Inr i, resetStream i H2_CANCEL reason c1)
                | _ \<Rightarrow>
                    (let body = (case rq_body rq of None \<Rightarrow> [] | Some b \<Rightarrow> b);
                         fields = buildRequestFields (h2_request_head.truncate rq) (c_pseudoHeaderOrder c) (c_hpackIndexing c);
                         c2 = modify i (\<lambda>s. s\<lparr>s_abortable := rq_signal rq \<noteq> None\<rparr>) c1;
                         c3 = sendHeaderBlock i (encodeHeaderBlock fields) (body = []) c2;
                         c4 = modify i (\<lambda>s. s\<lparr>s_localEnded := body = []\<rparr>) c3
                     in (Inr i, if body = [] then c4
                                else send_body i (modify i (\<lambda>s. s\<lparr>s_sender := Ready body\<rparr>) c4)))))"

text \<open>The listener on the caller's signal.\<close>

definition on_abort :: "nat \<Rightarrow> tf_error \<Rightarrow> h2_conn \<Rightarrow> h2_conn" where
  "on_abort i reason c =
     (if s_abortable (c_objs c i) \<and> \<not> s_closed (c_objs c i) then resetStream i H2_CANCEL reason c else c)"

end
