(* ===== verification/Http2_Connection.thy ===== *)
theory Http2_Connection
  imports Http2_State
begin

text \<open>
  \<open>src/http2/connection.js\<close>, the handlers of received frames, the dispatcher and the read loop; the
  events a connection reacts to and the run over a list of events.
\<close>

subsection \<open>Settings\<close>

text \<open>The loop over the streams after a change of the initial window.\<close>

definition shift_send_window :: "int \<Rightarrow> nat \<Rightarrow> h2_conn \<Rightarrow> h2_conn" where
  "shift_send_window delta i c =
     (let c1 = modify i (\<lambda>s. s\<lparr>s_sendWindow := s_sendWindow s + delta\<rparr>) c
      in if s_sendWindow (c_objs c1 i) > 0 then wakeSendWaiters (Some i) c1 else c1)"

text \<open>One entry; the flag tells that the handler returned early.\<close>

definition apply_setting :: "nat \<times> nat \<Rightarrow> h2_conn \<Rightarrow> bool \<times> h2_conn" where
  "apply_setting e c =
     (case e of (i, val) \<Rightarrow>
        if i = SETTINGS_INITIAL_WINDOW_SIZE then
          (if val > MAX_WINDOW then (True, die (Some (frame_error HTTP2_FLOW_CONTROL)) c)
           else (False, fold (shift_send_window (int val - int (c_peerInitialWindow c))) (c_live c)
                          (c\<lparr>c_peerInitialWindow := val\<rparr>)))
        else if i = SETTINGS_MAX_FRAME_SIZE then
          (if val < DEFAULT_MAX_FRAME_SIZE \<or> val > MAX_ALLOWED_FRAME_SIZE
           then (True, die (Some (frame_error HTTP2_PROTOCOL)) c)
           else (False, c\<lparr>c_peerMaxFrameSize := val\<rparr>))
        else if i = SETTINGS_MAX_CONCURRENT_STREAMS then (False, c\<lparr>c_peerMaxConcurrent := Some val\<rparr>)
        else if i = SETTINGS_HEADER_TABLE_SIZE then (False, c\<lparr>c_peerHeaderTableSize := val\<rparr>)
        else if i = SETTINGS_ENABLE_PUSH \<and> val \<noteq> 0 \<and> val \<noteq> 1
        then (True, die (Some (frame_error HTTP2_PROTOCOL)) c)
        else (False, c))"

fun apply_settings :: "(nat \<times> nat) list \<Rightarrow> h2_conn \<Rightarrow> bool \<times> h2_conn" where
  "apply_settings [] c = (False, c)"
| "apply_settings (e # es) c =
     (case apply_setting e c of (True, c') \<Rightarrow> (True, c') | (False, c') \<Rightarrow> apply_settings es c')"

definition onSettings :: "nat \<Rightarrow> nat \<Rightarrow> bytes \<Rightarrow> h2_conn \<Rightarrow> h2_conn" where
  "onSettings flags i payload c =
     (if i \<noteq> 0 then die (Some (frame_error HTTP2_PROTOCOL)) c
      else if has_flag flags FLAG_ACK then
        (if length payload \<noteq> 0 then die (Some (frame_error HTTP2_FRAME_SIZE)) c else c)
      else case parseSettings payload of
             Inl e \<Rightarrow> die (Some e) c
           | Inr entries \<Rightarrow>
               (case apply_settings entries c of
                  (True, c') \<Rightarrow> c'
                | (False, c') \<Rightarrow> emit [OSettings [] True] c'))"

subsection \<open>The end of the receive half\<close>

definition body_exempt :: "h2_stream \<Rightarrow> bool" where
  "body_exempt s \<longleftrightarrow> s_method s = js ''HEAD'' \<or> s_status s = 204 \<or> s_status s = 304"

text \<open>\<open>receivedLength !== declaredLength\<close>: a number is never equal to the malformed mark.\<close>

definition length_mismatch :: "h2_stream \<Rightarrow> bool" where
  "length_mismatch s \<longleftrightarrow>
     (case s_declaredLength s of CLAbsent \<Rightarrow> False | CLLength n \<Rightarrow> s_receivedLength s \<noteq> n | CLMalformed \<Rightarrow> True)"

definition endRecv :: "nat \<Rightarrow> h2_conn \<Rightarrow> bool \<times> h2_conn" where
  "endRecv i c =
     (if \<not> body_exempt (c_objs c i) \<and> length_mismatch (c_objs c i)
      then (False, resetStream i H2_PROTOCOL_ERROR (frame_error HTTP2_PROTOCOL) c)
      else (True, modify i (\<lambda>s. s\<lparr>s_recvEnded := True\<rparr>) c))"

subsection \<open>Header blocks\<close>

definition deliverResponseHead :: "nat \<Rightarrow> header list \<Rightarrow> bool \<Rightarrow> h2_conn \<Rightarrow> h2_conn" where
  "deliverResponseHead i pairs endStream c =
     (case parseResponseHeaders pairs of
        Inl e \<Rightarrow> resetStream i H2_PROTOCOL_ERROR e c
      | Inr head1 \<Rightarrow>
          if 100 \<le> h2_status head1 \<and> h2_status head1 \<le> 199 then
            (if endStream then resetStream i H2_PROTOCOL_ERROR (frame_error HTTP2_HEADER) c else c)
          else
            (let c1 = modify i (\<lambda>s. s\<lparr>s_responseReceived := True, s_status := h2_status head1,
                                     s_declaredLength := contentLengthOf (h2_headers head1)\<rparr>) c
             in if s_declaredLength (c_objs c1 i) = CLMalformed
                then resetStream i H2_PROTOCOL_ERROR (frame_error HTTP2_PROTOCOL) c1
                else
                  (let c2 = modify i (\<lambda>s. s\<lparr>s_receivedLength := 0\<rparr>) c1;
                       settle_head = modify i (\<lambda>s. s\<lparr>s_head := settle (Resolved head1) (s_head s)\<rparr>)
                   in if endStream then
                        (case endRecv i c2 of
                           (False, c3) \<Rightarrow> c3
                         | (True, c3) \<Rightarrow>
                             maybeCloseStream i (settle_head (wakePull i
                               (modify i (\<lambda>s. s\<lparr>s_completed := settle (Resolved True) (s_completed s),
                                               s_trailers := settle (Resolved None) (s_trailers s)\<rparr>) c3))))
                      else settle_head c2)))"

definition deliverTrailers :: "nat \<Rightarrow> header list \<Rightarrow> bool \<Rightarrow> h2_conn \<Rightarrow> h2_conn" where
  "deliverTrailers i pairs endStream c =
     (if \<not> endStream then resetStream i H2_PROTOCOL_ERROR (frame_error HTTP2_TRAILER) c
      else case parseTrailers pairs of
             Inl e \<Rightarrow> resetStream i H2_PROTOCOL_ERROR e c
           | Inr trailers \<Rightarrow>
               (case endRecv i (modify i (\<lambda>s. s\<lparr>s_trailerFields := Some trailers\<rparr>) c) of
                  (False, c1) \<Rightarrow> c1
                | (True, c1) \<Rightarrow> maybeCloseStream i (wakePull i c1)))"

definition completeHeaderBlock :: "nat \<Rightarrow> bytes \<Rightarrow> bool \<Rightarrow> h2_conn \<Rightarrow> h2_conn" where
  "completeHeaderBlock i block endStream c =
     (case hpack_decode block (c_decoder c) of
        (Inl e, d) \<Rightarrow> die (Some e) (c\<lparr>c_decoder := d\<rparr>)
      | (Inr pairs, d) \<Rightarrow>
          (let c1 = c\<lparr>c_decoder := d\<rparr>
           in if i \<notin> set (c_live c1) then c1
              else if \<not> s_responseReceived (c_objs c1 i) then deliverResponseHead i pairs endStream c1
              else deliverTrailers i pairs endStream c1))"

text \<open>\<open>_headerBlockWithinCap\<close>, applied to the block just stored.\<close>

definition headerBlockWithinCap :: "continuation \<Rightarrow> h2_conn \<Rightarrow> bool \<times> h2_conn" where
  "headerBlockWithinCap k c =
     (if k_bytes k \<le> c_maxHeaderBlockBytes c then (True, c)
      else (False, die (Some (frame_error HTTP2_PROTOCOL)) (c\<lparr>c_continuation := None\<rparr>)))"

definition onHeaders :: "nat \<Rightarrow> nat \<Rightarrow> bytes \<Rightarrow> h2_conn \<Rightarrow> h2_conn" where
  "onHeaders flags i payload c =
     (if i = 0 \<or> even i then die (Some (frame_error HTTP2_PROTOCOL)) c
      else case headersBlockFragment payload flags of
             Inl e \<Rightarrow> die (Some e) c
           | Inr fragment \<Rightarrow>
               (let endStream = has_flag flags FLAG_END_STREAM
                in if has_flag flags FLAG_END_HEADERS then completeHeaderBlock i fragment endStream c
                   else
                     (let k = \<lparr> k_streamId = i, k_fragments = [fragment],
                                k_bytes = length fragment + HEADER_FRAGMENT_OVERHEAD, k_frames = 1,
                                k_endStream = endStream \<rparr>
                      in snd (headerBlockWithinCap k (c\<lparr>c_continuation := Some k\<rparr>)))))"

definition onContinuation :: "nat \<Rightarrow> bytes \<Rightarrow> continuation \<Rightarrow> h2_conn \<Rightarrow> h2_conn" where
  "onContinuation flags payload k c =
     (let k' = k\<lparr>k_fragments := k_fragments k @ [payload],
                 k_bytes := k_bytes k + length payload + HEADER_FRAGMENT_OVERHEAD,
                 k_frames := k_frames k + 1\<rparr>
      in case headerBlockWithinCap k' (c\<lparr>c_continuation := Some k'\<rparr>) of
           (False, c') \<Rightarrow> c'
         | (True, c') \<Rightarrow>
             if has_flag flags FLAG_END_HEADERS
             then completeHeaderBlock (k_streamId k') (concat (k_fragments k')) (k_endStream k')
                    (c'\<lparr>c_continuation := None\<rparr>)
             else c')"

subsection \<open>Data\<close>

definition data_of :: "nat \<Rightarrow> bytes \<Rightarrow> tf_error + bytes" where
  "data_of flags payload = (if has_flag flags FLAG_PADDED then stripPadding payload else Inr payload)"

text \<open>The part of \<open>_onData\<close> after the checks of the windows.\<close>

definition accept_data :: "nat \<Rightarrow> nat \<Rightarrow> nat \<Rightarrow> bytes \<Rightarrow> h2_conn \<Rightarrow> h2_conn" where
  "accept_data flags i flowLen data c =
     (let overhead = flowLen - length data;
          c1 = (if overhead > 0 then replenish i overhead (replenishConn overhead c) else c);
          c2 = modify i (\<lambda>s. s\<lparr>s_receivedLength := s_receivedLength s + length data\<rparr>) c1;
          s = c_objs c2 i
      in if (case s_declaredLength s of CLLength n \<Rightarrow> s_receivedLength s > n | _ \<Rightarrow> False)
         then resetStream i H2_PROTOCOL_ERROR (frame_error HTTP2_PROTOCOL) c2
         else
           (let c3 = (if length data > 0
                      then wakePull i (modify i (\<lambda>s. s\<lparr>s_recvQueue := s_recvQueue s @ [data]\<rparr>) c2) else c2)
            in if has_flag flags FLAG_END_STREAM then
                 (case endRecv i c3 of
                    (False, c4) \<Rightarrow> c4
                  | (True, c4) \<Rightarrow> maybeCloseStream i (wakePull i c4))
               else c3))"

definition onData :: "nat \<Rightarrow> nat \<Rightarrow> bytes \<Rightarrow> h2_conn \<Rightarrow> h2_conn" where
  "onData flags i payload c =
     (if i = 0 then die (Some (frame_error HTTP2_PROTOCOL)) c
      else
        (let flowLen = length payload;
             c1 = c\<lparr>c_connRecvWindow := c_connRecvWindow c - int flowLen\<rparr>
         in if c_connRecvWindow c1 < 0 then die (Some (frame_error HTTP2_FLOW_CONTROL)) c1
            else if i \<notin> set (c_live c1) \<or> s_closed (c_objs c1 i) then replenishConn flowLen c1
            else if \<not> s_responseReceived (c_objs c1 i)
            then resetStream i H2_PROTOCOL_ERROR (frame_error HTTP2_STREAM_STATE) c1
            else case data_of flags payload of
                   Inl e \<Rightarrow> die (Some e) c1
                 | Inr data \<Rightarrow>
                     (let c2 = modify i (\<lambda>s. s\<lparr>s_recvWindow := s_recvWindow s - int flowLen\<rparr>) c1
                      in if s_recvWindow (c_objs c2 i) < 0
                         then resetStream i H2_FLOW_CONTROL_ERROR (frame_error HTTP2_FLOW_CONTROL) c2
                         else accept_data flags i flowLen data c2)))"

subsection \<open>Windows, resets, pings\<close>

definition onWindowUpdate :: "nat \<Rightarrow> bytes \<Rightarrow> h2_conn \<Rightarrow> h2_conn" where
  "onWindowUpdate i payload c =
     (case parseWindowUpdate payload of
        Inl e \<Rightarrow> die (Some e) c
      | Inr inc \<Rightarrow>
          if inc = 0 then
            (if i = 0 then die (Some (frame_error HTTP2_PROTOCOL)) c
             else if i \<in> set (c_live c) then resetStream i H2_PROTOCOL_ERROR (frame_error HTTP2_PROTOCOL) c
             else c)
          else if i = 0 then
            (let c1 = c\<lparr>c_connSendWindow := c_connSendWindow c + int inc\<rparr>
             in if c_connSendWindow c1 > int MAX_WINDOW then die (Some (frame_error HTTP2_FLOW_CONTROL)) c1
                else wakeSendWaiters None c1)
          else if i \<notin> set (c_live c) then c
          else
            (let c1 = modify i (\<lambda>s. s\<lparr>s_sendWindow := s_sendWindow s + int inc\<rparr>) c
             in if s_sendWindow (c_objs c1 i) > int MAX_WINDOW
                then resetStream i H2_FLOW_CONTROL_ERROR (frame_error HTTP2_FLOW_CONTROL) c1
                else wakeSendWaiters (Some i) c1))"

definition onRstStream :: "nat \<Rightarrow> bytes \<Rightarrow> h2_conn \<Rightarrow> h2_conn" where
  "onRstStream i payload c =
     (case parseRstStream payload of
        Inl e \<Rightarrow> die (Some e) c
      | Inr code \<Rightarrow>
          if i = 0 then die (Some (frame_error HTTP2_PROTOCOL)) c
          else if i \<notin> set (c_live c) then c
          else failStream i
                 (Thrown (if code = H2_REFUSED_STREAM \<and> \<not> s_responseReceived (c_objs c i)
                          then Http2Retryable else Http2Error) (Http2 HTTP2_STREAM_CLOSED)) c)"

definition onPing :: "nat \<Rightarrow> nat \<Rightarrow> bytes \<Rightarrow> h2_conn \<Rightarrow> h2_conn" where
  "onPing flags i payload c =
     (if i \<noteq> 0 then die (Some (frame_error HTTP2_PROTOCOL)) c
      else if length payload \<noteq> 8 then die (Some (frame_error HTTP2_FRAME_SIZE)) c
      else if has_flag flags FLAG_ACK then c
      else emit [OPing payload True] c)"

definition onGoaway :: "bytes \<Rightarrow> h2_conn \<Rightarrow> h2_conn" where
  "onGoaway payload c =
     (case parseGoaway payload of
        Inl e \<Rightarrow> die (Some e) c
      | Inr g \<Rightarrow>
          (let c1 = c\<lparr>c_goaway := Some (lastStreamId g, errorCode g)\<rparr>;
               c2 = fold (\<lambda>i d. if s_id (c_objs d i) > lastStreamId g \<and> \<not> s_responseReceived (c_objs d i)
                                then failStream i (Thrown Http2Retryable (Http2 HTTP2_GOAWAY)) d else d)
                      (c_live c1) c1
           in if c_onClose c2 then c2\<lparr>c_onCloseCalls := c_onCloseCalls c2 @ [None]\<rparr> else c2))"

subsection \<open>The dispatcher\<close>

definition dispatch_by_type :: "frame \<Rightarrow> h2_conn \<Rightarrow> h2_conn" where
  "dispatch_by_type f c =
     (let t = ftype f; i = fstream f; flags = fflags f; payload = fpayload f in
      if t = FRAME_SETTINGS then onSettings flags i payload c
      else if t = FRAME_HEADERS then onHeaders flags i payload c
      else if t = FRAME_DATA then onData flags i payload c
      else if t = FRAME_WINDOW_UPDATE then onWindowUpdate i payload c
      else if t = FRAME_RST_STREAM then onRstStream i payload c
      else if t = FRAME_PING then onPing flags i payload c
      else if t = FRAME_GOAWAY then onGoaway payload c
      else if t = FRAME_PUSH_PROMISE then die (Some (frame_error HTTP2_PUSH_UNEXPECTED)) c
      else if t = FRAME_PRIORITY then
        (if length payload \<noteq> 5 then die (Some (frame_error HTTP2_FRAME_SIZE)) c else c)
      else if t = FRAME_CONTINUATION then die (Some (frame_error HTTP2_PROTOCOL)) c
      else c)"

definition dispatchFrame :: "frame \<Rightarrow> h2_conn \<Rightarrow> h2_conn" where
  "dispatchFrame f c =
     (case c_continuation c of
        Some k \<Rightarrow>
          if ftype f \<noteq> FRAME_CONTINUATION \<or> fstream f \<noteq> k_streamId k
          then die (Some (frame_error HTTP2_PROTOCOL)) c
          else onContinuation (fflags f) (fpayload f) k c
      | None \<Rightarrow>
          if c_expectFirstSettings c then
            (if ftype f \<noteq> FRAME_SETTINGS then die (Some (frame_error HTTP2_PROTOCOL)) c
             else dispatch_by_type f (c\<lparr>c_expectFirstSettings := False\<rparr>))
          else dispatch_by_type f c)"

subsection \<open>The read loop\<close>

text \<open>One turn of \<open>_readLoop\<close>, after its read: \<open>None\<close> is the end of the transport.\<close>

definition read_turn :: "tf_error + frame option \<Rightarrow> h2_conn \<Rightarrow> h2_conn" where
  "read_turn r c =
     (case r of
        Inl e \<Rightarrow> die (Some e) c
      | Inr None \<Rightarrow> die (if c_live c = [] then None else Some (frame_error HTTP2_PROTOCOL)) c
      | Inr (Some f) \<Rightarrow> if c_fatal c \<noteq> None then c else dispatchFrame f c)"

fun readLoop :: "nat \<Rightarrow> 's reader_ops \<Rightarrow> h2_conn \<Rightarrow> 's \<Rightarrow> (h2_conn \<times> 's) option" where
  "readLoop 0 R c s = None"
| "readLoop (Suc fuel) R c s =
     (case readFrame R DEFAULT_MAX_FRAME_SIZE s of
        (r, s') \<Rightarrow>
          (let c' = read_turn r c
           in case r of
                Inr (Some f) \<Rightarrow> if c_fatal c \<noteq> None then Some (c', s') else readLoop fuel R c' s'
              | _ \<Rightarrow> Some (c', s')))"

subsection \<open>Events\<close>

text \<open>
  Everything a connection reacts to. The handlers run to completion, so any list of events is a
  possible interleaving of the peer, the callers, the consumers of the bodies and the senders.
\<close>

datatype h2_event =
    Received "tf_error + frame option"
  | Request h2_request
  | Pull nat
  | CancelBody nat
  | Abort nat tf_error
  | RunSender nat
  | BodyWritten nat
  | BodyWriteFailed nat tf_error
  | CloseConnection

definition opened :: "h2_conn \<Rightarrow> nat \<Rightarrow> bool" where
  "opened c i \<longleftrightarrow> odd i \<and> i < c_nextStreamId c"

text \<open>A body is handed out with the response head, so it is pulled or cancelled only after.\<close>

definition handed_out :: "h2_conn \<Rightarrow> nat \<Rightarrow> bool" where
  "handed_out c i \<longleftrightarrow> opened c i \<and> (case s_head (c_objs c i) of Resolved _ \<Rightarrow> True | _ \<Rightarrow> False)"

fun h2_step :: "h2_event \<Rightarrow> h2_conn \<Rightarrow> h2_conn" where
  "h2_step (Received r) c = read_turn r c"
| "h2_step (Request rq) c = snd (request rq c)"
| "h2_step (Pull i) c = (if handed_out c i then snd (h2_body_pull i c) else c)"
| "h2_step (CancelBody i) c = (if handed_out c i then h2_body_cancel i c else c)"
| "h2_step (Abort i e) c = (if opened c i then on_abort i e c else c)"
| "h2_step (RunSender i) c = (if opened c i then send_body i c else c)"
| "h2_step (BodyWritten i) c = (if opened c i then body_written i c else c)"
| "h2_step (BodyWriteFailed i e) c = (if opened c i then body_write_failed i e c else c)"
| "h2_step CloseConnection c = close_connection c"

definition h2_run :: "h2_event list \<Rightarrow> h2_conn \<Rightarrow> h2_conn" where
  "h2_run es c = fold h2_step es c"

lemma h2_run_simps [simp]: "h2_run [] c = c" "h2_run (e # es) c = h2_run es (h2_step e c)"
  by (simp_all add: h2_run_def)

lemma h2_run_append: "h2_run (es @ fs) c = h2_run fs (h2_run es c)"
  by (simp add: h2_run_def)

end
