(* ===== verification/Http2_Invariant.thy ===== *)
theory Http2_Invariant
  imports Http2_Connection
begin

text \<open>
  The state invariant of an HTTP/2 connection and its preservation by every event. \<open>h2_mid\<close> is the
  part that also holds while a connection is being torn down; \<open>but i\<close> leaves out what is owed for
  the stream \<open>i\<close> in the middle of its handler.
\<close>

subsection \<open>Closed forms of the primitives\<close>

lemma unblock_fields [simp]:
  "unblock s = s\<lparr>s_sender := (case s_sender s of Blocked r \<Rightarrow> Ready r | x \<Rightarrow> x)\<rparr>"
  by (simp add: unblock_def split: sender.split)

lemma wake_eq:
  "wake ws c = c\<lparr>c_objs := \<lambda>j. if j \<in> set ws then unblock (c_objs c j) else c_objs c j\<rparr>"
proof (induction ws arbitrary: c)
  case Nil
  show ?case by (simp add: wake_def)
next
  case (Cons i ws)
  have "wake (i # ws) c = wake ws (modify i unblock c)" by (simp add: wake_def)
  also have "\<dots> = c\<lparr>c_objs := \<lambda>j. if j \<in> set (i # ws) then unblock (c_objs c j) else c_objs c j\<rparr>"
    unfolding Cons.IH by (simp add: modify_def fun_eq_iff split: sender.split)
  finally show ?case .
qed

definition woken :: "nat option \<Rightarrow> h2_conn \<Rightarrow> nat \<Rightarrow> bool" where
  "woken target c j \<longleftrightarrow> j \<in> set (c_connSendWaiters c)
     \<or> (case target of None \<Rightarrow> False | Some i \<Rightarrow> j \<in> set (s_sendWaiters (c_objs c i)))"

definition sender_after :: "nat option \<Rightarrow> h2_conn \<Rightarrow> nat \<Rightarrow> sender" where
  "sender_after target c j =
     (if woken target c j then (case s_sender (c_objs c j) of Blocked r \<Rightarrow> Ready r | x \<Rightarrow> x)
      else s_sender (c_objs c j))"

definition waiters_after :: "nat option \<Rightarrow> h2_conn \<Rightarrow> nat \<Rightarrow> nat list" where
  "waiters_after target c j = (if target = Some j then [] else s_sendWaiters (c_objs c j))"

lemma wakeSendWaiters_eq:
  "wakeSendWaiters target c = c\<lparr>c_connSendWaiters := [],
     c_objs := \<lambda>j. (c_objs c j)\<lparr>s_sender := sender_after target c j, s_sendWaiters := waiters_after target c j\<rparr>\<rparr>"
  by (cases target)
    (auto simp: wakeSendWaiters_def wake_eq modify_def sender_after_def waiters_after_def woken_def fun_eq_iff Let_def
      split: sender.split)

lemma removeStream_eq:
  "removeStream i c =
     (if s_closed (c_objs c i) then c
      else let c1 = c\<lparr>c_objs := (c_objs c)(i := (c_objs c i)\<lparr>s_closed := True, s_pullWaiter := False\<rparr>)\<rparr>
           in c1\<lparr>c_live := removeAll i (c_live c), c_connSendWaiters := [],
                 c_objs := \<lambda>j. (c_objs c1 j)\<lparr>s_sender := sender_after (Some i) c j, s_sendWaiters := waiters_after (Some i) c j\<rparr>\<rparr>)"
  by (auto simp: removeStream_def wakeSendWaiters_eq wakePull_def modify_def Let_def sender_after_def
      waiters_after_def woken_def fun_eq_iff)

subsection \<open>The invariant\<close>

definition stream_ok :: "h2_stream \<Rightarrow> bool" where
  "stream_ok s \<longleftrightarrow>
     (s_responseReceived s \<or> s_closed s \<longrightarrow> s_head s \<noteq> Pending)
     \<and> (s_recvEnded s \<longrightarrow> s_responseReceived s)
     \<and> (s_pullWaiter s \<longrightarrow> s_recvQueue s = [] \<and> s_bodyError s = None \<and> \<not> s_recvEnded s)
     \<and> (s_closed s \<longrightarrow> s_recvEnded s \<or> s_bodyError s \<noteq> None \<or> s_cancelled s)
     \<and> (s_bodyError s \<noteq> None \<or> s_cancelled s \<longrightarrow> s_closed s \<and> s_completed s \<noteq> Pending \<and> s_trailers s \<noteq> Pending)
     \<and> (s_recvEnded s \<longrightarrow> s_bodyError s = None \<longrightarrow> \<not> body_exempt s \<longrightarrow> \<not> length_mismatch s)"

definition continuation_ok :: "h2_conn \<Rightarrow> bool" where
  "continuation_ok c \<longleftrightarrow>
     (\<forall>k. c_continuation c = Some k \<longrightarrow>
        k_bytes k = (\<Sum>b\<leftarrow>k_fragments k. length b + HEADER_FRAGMENT_OVERHEAD)
        \<and> k_bytes k \<le> c_maxHeaderBlockBytes c \<and> k_frames k = length (k_fragments k) \<and> odd (k_streamId k))"

definition table_of_streams_ok :: "h2_conn \<Rightarrow> bool" where
  "table_of_streams_ok c \<longleftrightarrow> odd (c_nextStreamId c) \<and> distinct (c_live c)
     \<and> (\<forall>i. i \<in> set (c_live c) \<longleftrightarrow> opened c i \<and> \<not> s_closed (c_objs c i))
     \<and> (\<forall>i. opened c i \<longrightarrow> s_id (c_objs c i) = i)"

definition h2_but :: "nat \<Rightarrow> h2_conn \<Rightarrow> bool" where
  "h2_but i c \<longleftrightarrow> table_of_streams_ok c \<and> continuation_ok c
     \<and> (\<forall>j. opened c j \<longrightarrow> j \<noteq> i \<longrightarrow> stream_ok (c_objs c j))
     \<and> (s_recvEnded (c_objs c i) \<longrightarrow> s_responseReceived (c_objs c i))"

definition h2_mid :: "h2_conn \<Rightarrow> bool" where
  "h2_mid c \<longleftrightarrow> table_of_streams_ok c \<and> continuation_ok c \<and> (\<forall>j. opened c j \<longrightarrow> stream_ok (c_objs c j))"

definition alive :: "h2_conn \<Rightarrow> bool" where
  "alive c \<longleftrightarrow> (c_fatal c = None \<longleftrightarrow> \<not> c_closed c) \<and> (c_fatal c \<noteq> None \<longrightarrow> c_live c = [])"

definition h2_ok :: "h2_conn \<Rightarrow> bool" where
  "h2_ok c \<longleftrightarrow> h2_mid c \<and> alive c"

definition h2_okb :: "nat \<Rightarrow> h2_conn \<Rightarrow> bool" where
  "h2_okb i c \<longleftrightarrow> h2_but i c \<and> alive c"

text \<open>Each part reads few fields.\<close>

lemma table_cong:
  assumes "c_nextStreamId c' = c_nextStreamId c" "c_live c' = c_live c"
    "\<And>j. s_closed (c_objs c' j) = s_closed (c_objs c j)" "\<And>j. s_id (c_objs c' j) = s_id (c_objs c j)"
  shows "table_of_streams_ok c' = table_of_streams_ok c"
  using assms by (simp add: table_of_streams_ok_def opened_def)

lemma continuation_cong:
  assumes "c_continuation c' = c_continuation c" "c_maxHeaderBlockBytes c' = c_maxHeaderBlockBytes c"
  shows "continuation_ok c' = continuation_ok c"
  using assms by (simp only: continuation_ok_def)

lemma opened_cong: "c_nextStreamId c' = c_nextStreamId c \<Longrightarrow> opened c' j = opened c j"
  by (simp add: opened_def)

lemma table_remove:
  assumes "table_of_streams_ok c" "c_nextStreamId c' = c_nextStreamId c" "c_live c' = removeAll i (c_live c)"
    "\<And>j. s_closed (c_objs c' j) = (j = i \<or> s_closed (c_objs c j))" "\<And>j. s_id (c_objs c' j) = s_id (c_objs c j)"
  shows "table_of_streams_ok c'"
  using assms(1) by (auto simp: table_of_streams_ok_def opened_def assms(2-5) distinct_removeAll)

lemma h2_mid_cong:
  assumes "c_nextStreamId c' = c_nextStreamId c" "c_live c' = c_live c" "c_objs c' = c_objs c"
    "c_continuation c' = c_continuation c" "c_maxHeaderBlockBytes c' = c_maxHeaderBlockBytes c"
  shows "h2_mid c' = h2_mid c" "h2_but i c' = h2_but i c"
  using table_cong [of c' c] continuation_cong [of c' c] opened_cong [of c' c] assms
  by (simp_all add: h2_mid_def h2_but_def)

lemma h2_mid_but: "h2_mid c \<Longrightarrow> opened c i \<Longrightarrow> h2_but i c"
  unfolding h2_mid_def h2_but_def stream_ok_def by blast

lemma h2_but_mid: "h2_but i c \<Longrightarrow> stream_ok (c_objs c i) \<Longrightarrow> h2_mid c"
  unfolding h2_mid_def h2_but_def by metis

lemma h2_mid_stream: "h2_mid c \<Longrightarrow> opened c i \<Longrightarrow> stream_ok (c_objs c i)"
  by (simp add: h2_mid_def)

lemma live_opened: "h2_mid c \<Longrightarrow> i \<in> set (c_live c) \<longleftrightarrow> opened c i \<and> \<not> s_closed (c_objs c i)"
  by (simp add: h2_mid_def table_of_streams_ok_def)

lemma h2_but_live: "h2_but k c \<Longrightarrow> i \<in> set (c_live c) \<longleftrightarrow> opened c i \<and> \<not> s_closed (c_objs c i)"
  by (simp add: h2_but_def table_of_streams_ok_def)

lemma modify_fields [simp]:
  "c_objs (modify i f c) = (c_objs c)(i := f (c_objs c i))" "c_live (modify i f c) = c_live c"
  "c_nextStreamId (modify i f c) = c_nextStreamId c" "c_continuation (modify i f c) = c_continuation c"
  "c_maxHeaderBlockBytes (modify i f c) = c_maxHeaderBlockBytes c" "c_fatal (modify i f c) = c_fatal c"
  "c_closed (modify i f c) = c_closed c" "c_out (modify i f c) = c_out c"
  "c_connRecvWindow (modify i f c) = c_connRecvWindow c" "c_connConsumed (modify i f c) = c_connConsumed c"
  "c_connSendWindow (modify i f c) = c_connSendWindow c" "c_connSendWaiters (modify i f c) = c_connSendWaiters c"
  "c_peerMaxFrameSize (modify i f c) = c_peerMaxFrameSize c" "c_ourConnWindow (modify i f c) = c_ourConnWindow c"
  "c_ourInitialWindow (modify i f c) = c_ourInitialWindow c" "opened (modify i f c) j = opened c j"
  by (simp_all add: modify_def opened_def)

lemma emit_fields [simp]:
  "c_objs (emit fs c) = c_objs c" "c_live (emit fs c) = c_live c"
  "c_nextStreamId (emit fs c) = c_nextStreamId c" "c_continuation (emit fs c) = c_continuation c"
  "c_maxHeaderBlockBytes (emit fs c) = c_maxHeaderBlockBytes c" "c_fatal (emit fs c) = c_fatal c"
  "c_closed (emit fs c) = c_closed c" "c_out (emit fs c) = c_out c @ fs"
  "c_connRecvWindow (emit fs c) = c_connRecvWindow c" "c_connConsumed (emit fs c) = c_connConsumed c"
  "c_connSendWindow (emit fs c) = c_connSendWindow c" "c_connSendWaiters (emit fs c) = c_connSendWaiters c"
  "c_peerMaxFrameSize (emit fs c) = c_peerMaxFrameSize c" "c_ourConnWindow (emit fs c) = c_ourConnWindow c"
  "c_ourInitialWindow (emit fs c) = c_ourInitialWindow c" "opened (emit fs c) j = opened c j"
  by (simp_all add: emit_def opened_def)

lemma h2_but_modify:
  assumes "h2_but i c"
    and "s_closed (f (c_objs c i)) = s_closed (c_objs c i)" "s_id (f (c_objs c i)) = s_id (c_objs c i)"
    and "s_recvEnded (f (c_objs c i)) \<longrightarrow> s_responseReceived (f (c_objs c i))"
  shows "h2_but i (modify i f c)"
  using assms table_cong [of "modify i f c" c] continuation_cong [of "modify i f c" c] by (simp add: h2_but_def)

lemma h2_mid_modify:
  assumes "h2_mid c" "opened c i"
    and "stream_ok (c_objs c i) \<Longrightarrow> s_closed (f (c_objs c i)) = s_closed (c_objs c i)
      \<and> s_id (f (c_objs c i)) = s_id (c_objs c i) \<and> stream_ok (f (c_objs c i))"
  shows "h2_mid (modify i f c)"
  using assms table_cong [of "modify i f c" c] continuation_cong [of "modify i f c" c] by (simp add: h2_mid_def)

text \<open>Fields that the invariant does not read.\<close>

lemma stream_ok_sender [simp]:
  "stream_ok (s\<lparr>s_sender := x\<rparr>) = stream_ok s" "stream_ok (s\<lparr>s_sendWaiters := w\<rparr>) = stream_ok s"
  "stream_ok (s\<lparr>s_sendWindow := n\<rparr>) = stream_ok s" "stream_ok (s\<lparr>s_recvWindow := n\<rparr>) = stream_ok s"
  "stream_ok (s\<lparr>s_recvConsumed := m\<rparr>) = stream_ok s" "stream_ok (s\<lparr>s_rstSent := b\<rparr>) = stream_ok s"
  "stream_ok (s\<lparr>s_localEnded := b\<rparr>) = stream_ok s" "stream_ok (s\<lparr>s_abortable := b\<rparr>) = stream_ok s"
  by (simp_all add: stream_ok_def body_exempt_def length_mismatch_def cong: content_length.case_cong)

lemma h2_mid_updates [simp]:
  "h2_mid (c\<lparr>c_out := o1\<rparr>) = h2_mid c" "h2_mid (c\<lparr>c_connRecvWindow := w\<rparr>) = h2_mid c"
  "h2_mid (c\<lparr>c_connConsumed := n\<rparr>) = h2_mid c" "h2_mid (c\<lparr>c_connSendWindow := w\<rparr>) = h2_mid c"
  "h2_mid (c\<lparr>c_connSendWaiters := ws\<rparr>) = h2_mid c" "h2_mid (c\<lparr>c_decoder := d\<rparr>) = h2_mid c"
  "h2_mid (c\<lparr>c_peerInitialWindow := n\<rparr>) = h2_mid c" "h2_mid (c\<lparr>c_peerMaxFrameSize := n\<rparr>) = h2_mid c"
  "h2_mid (c\<lparr>c_peerMaxConcurrent := m\<rparr>) = h2_mid c" "h2_mid (c\<lparr>c_peerHeaderTableSize := n\<rparr>) = h2_mid c"
  "h2_mid (c\<lparr>c_expectFirstSettings := b\<rparr>) = h2_mid c" "h2_mid (c\<lparr>c_fatal := f\<rparr>) = h2_mid c"
  "h2_mid (c\<lparr>c_goaway := g\<rparr>) = h2_mid c" "h2_mid (c\<lparr>c_closed := b\<rparr>) = h2_mid c"
  "h2_mid (c\<lparr>c_onClose := b\<rparr>) = h2_mid c" "h2_mid (c\<lparr>c_onCloseCalls := cs\<rparr>) = h2_mid c"
  "h2_mid (c\<lparr>c_transportClosed := b\<rparr>) = h2_mid c" "h2_mid (emit fs c) = h2_mid c"
  by (rule h2_mid_cong; simp)+

lemma h2_but_updates [simp]:
  "h2_but i (c\<lparr>c_out := o1\<rparr>) = h2_but i c" "h2_but i (c\<lparr>c_connRecvWindow := w\<rparr>) = h2_but i c"
  "h2_but i (c\<lparr>c_connConsumed := n\<rparr>) = h2_but i c" "h2_but i (c\<lparr>c_connSendWindow := w\<rparr>) = h2_but i c"
  "h2_but i (c\<lparr>c_connSendWaiters := ws\<rparr>) = h2_but i c" "h2_but i (c\<lparr>c_decoder := d\<rparr>) = h2_but i c"
  "h2_but i (emit fs c) = h2_but i c"
  by (rule h2_mid_cong; simp)+

lemma h2_mid_no_continuation: "h2_mid c \<Longrightarrow> h2_mid (c\<lparr>c_continuation := None\<rparr>)"
  using table_cong [of "c\<lparr>c_continuation := None\<rparr>" c] by (simp add: h2_mid_def continuation_ok_def opened_def)

lemma h2_mid_wake: "h2_mid c \<Longrightarrow> h2_mid (wakeSendWaiters target c)"
  using table_cong [of "wakeSendWaiters target c" c] continuation_cong [of "wakeSendWaiters target c" c]
  by (simp add: h2_mid_def wakeSendWaiters_eq opened_def)

subsection \<open>Teardown\<close>

lemma sendRst_fields [simp]:
  "c_objs (sendRst i code c) = (c_objs c)(i := (c_objs c i)\<lparr>s_rstSent := True\<rparr>)"
  "c_live (sendRst i code c) = c_live c" "c_nextStreamId (sendRst i code c) = c_nextStreamId c"
  by (auto simp: sendRst_def Let_def fun_eq_iff)

lemma h2_but_sendRst: "h2_but i c \<Longrightarrow> h2_but i (sendRst i code c)"
  unfolding sendRst_def Let_def by (auto intro!: h2_but_modify) (auto simp: h2_but_def)

lemma removeStream_fields:
  "c_nextStreamId (removeStream i c) = c_nextStreamId c"
  "c_continuation (removeStream i c) = c_continuation c"
  "c_maxHeaderBlockBytes (removeStream i c) = c_maxHeaderBlockBytes c"
  "c_fatal (removeStream i c) = c_fatal c" "c_closed (removeStream i c) = c_closed c"
  by (simp_all add: removeStream_eq Let_def)

text \<open>What is left of the streams when one is removed.\<close>

definition removed_obj :: "nat \<Rightarrow> h2_conn \<Rightarrow> nat \<Rightarrow> h2_stream" where
  "removed_obj i c j =
     (if j = i then (c_objs c i)\<lparr>s_closed := True, s_pullWaiter := False\<rparr> else c_objs c j)
       \<lparr>s_sender := sender_after (Some i) c j, s_sendWaiters := waiters_after (Some i) c j\<rparr>"

lemma removeStream_objs:
  assumes "\<not> s_closed (c_objs c i)"
  shows "c_objs (removeStream i c) j = removed_obj i c j" "c_live (removeStream i c) = removeAll i (c_live c)"
  unfolding removeStream_eq Let_def removed_obj_def if_not_P [OF assms] by simp_all

lemma removed_obj_fields [simp]:
  "s_closed (removed_obj i c j) = (j = i \<or> s_closed (c_objs c j))" "s_id (removed_obj i c j) = s_id (c_objs c j)"
  "s_recvEnded (removed_obj i c j) = s_recvEnded (c_objs c j)"
  "s_responseReceived (removed_obj i c j) = s_responseReceived (c_objs c j)"
  "j \<noteq> i \<Longrightarrow> stream_ok (removed_obj i c j) = stream_ok (c_objs c j)"
  "stream_ok (removed_obj i c i) = stream_ok ((c_objs c i)\<lparr>s_closed := True, s_pullWaiter := False\<rparr>)"
  unfolding removed_obj_def by simp_all

lemma h2_but_removeStream:
  assumes "h2_but i c" "\<not> s_closed (c_objs c i)"
  shows "h2_but i (removeStream i c)"
proof -
  note o = removeStream_objs [OF assms(2)]
  have "table_of_streams_ok c" using assms(1) by (simp add: h2_but_def)
  then have "table_of_streams_ok (removeStream i c)"
    by (rule table_remove [of c _ i]) (simp_all add: h2_but_def removeStream_fields o)
  moreover have "continuation_ok (removeStream i c)"
    using assms(1) continuation_cong [of "removeStream i c" c] by (simp add: h2_but_def removeStream_fields)
  ultimately show ?thesis
    using assms(1) opened_cong [of "removeStream i c" c] by (simp add: h2_but_def o removeStream_fields)
qed

lemma settle_settled [simp]:
  "settle (Rejected e) p \<noteq> Pending" "settle (Resolved x) q \<noteq> Pending"
  by (cases p; simp) (cases q; simp)

lemma stream_ok_rejected:
  assumes "s_closed s" "s_recvEnded s \<longrightarrow> s_responseReceived s"
  shows "stream_ok ((reject_promises e s)\<lparr>s_pullWaiter := False\<rparr>)"
proof -
  obtain e' where e': "(case s_bodyError s of None \<Rightarrow> Some e | Some e' \<Rightarrow> Some e') = Some e'"
    by (cases "s_bodyError s") simp_all
  show ?thesis using assms unfolding stream_ok_def reject_promises_def e' by simp
qed

lemma h2_mid_reject:
  assumes "h2_but i c" "s_closed (c_objs c i)"
  shows "h2_mid (rejectStream i e c)"
proof (rule h2_but_mid [of i])
  show "h2_but i (rejectStream i e c)" using assms(1) unfolding rejectStream_def wakePull_def
    by (intro h2_but_modify) (auto simp: reject_promises_def h2_but_def)
  show "stream_ok (c_objs (rejectStream i e c) i)"
    using assms(1) stream_ok_rejected [OF assms(2)] by (simp add: rejectStream_def wakePull_def h2_but_def)
qed

lemma h2_mid_failStream:
  assumes "h2_but i c" "\<not> s_closed (c_objs c i)"
  shows "h2_mid (failStream i e c)"
  unfolding failStream_def
  using h2_but_removeStream [OF assms] by (rule h2_mid_reject) (simp add: removeStream_objs [OF assms(2)])

lemma h2_mid_resetStream:
  assumes "h2_but i c" "\<not> s_closed (c_objs c i)"
  shows "h2_mid (resetStream i code e c)"
  using h2_mid_failStream [OF h2_but_sendRst [OF assms(1)]] assms(2) by (simp add: resetStream_def failStream_def)

lemma h2_mid_removeStream:
  assumes "h2_but i c" "stream_ok ((c_objs c i)\<lparr>s_closed := True, s_pullWaiter := False\<rparr>)"
    "s_closed (c_objs c i) \<Longrightarrow> stream_ok (c_objs c i)"
  shows "h2_mid (removeStream i c)"
proof (cases "s_closed (c_objs c i)")
  case True
  then show ?thesis using h2_but_mid [OF assms(1) assms(3)] by (simp add: removeStream_def)
next
  case False
  show ?thesis using h2_but_mid [OF h2_but_removeStream [OF assms(1) False]] assms(2)
    by (simp add: removeStream_objs [OF False])
qed

lemma alive_cong:
  "c_fatal c' = c_fatal c \<Longrightarrow> c_closed c' = c_closed c \<Longrightarrow> c_live c' = c_live c \<Longrightarrow> alive c' = alive c"
  by (simp add: alive_def)

lemma alive_updates [simp]:
  "alive (c\<lparr>c_out := o1\<rparr>) = alive c" "alive (c\<lparr>c_connRecvWindow := w\<rparr>) = alive c"
  "alive (c\<lparr>c_connConsumed := n\<rparr>) = alive c" "alive (c\<lparr>c_connSendWindow := w\<rparr>) = alive c"
  "alive (c\<lparr>c_connSendWaiters := ws\<rparr>) = alive c" "alive (c\<lparr>c_decoder := d\<rparr>) = alive c"
  "alive (c\<lparr>c_peerInitialWindow := n\<rparr>) = alive c" "alive (c\<lparr>c_peerMaxFrameSize := n\<rparr>) = alive c"
  "alive (c\<lparr>c_peerMaxConcurrent := m\<rparr>) = alive c" "alive (c\<lparr>c_peerHeaderTableSize := n\<rparr>) = alive c"
  "alive (c\<lparr>c_expectFirstSettings := b\<rparr>) = alive c" "alive (c\<lparr>c_goaway := g\<rparr>) = alive c"
  "alive (c\<lparr>c_onCloseCalls := cs\<rparr>) = alive c" "alive (c\<lparr>c_continuation := k\<rparr>) = alive c"
  "alive (c\<lparr>c_objs := os\<rparr>) = alive c" "alive (emit fs c) = alive c" "alive (modify i f c) = alive c"
  by (rule alive_cong; simp)+

lemma alive_wake [simp]: "alive (wakeSendWaiters target c) = alive c"
  by (simp add: wakeSendWaiters_eq)

lemma sendRst_state [simp]: "c_fatal (sendRst i k c) = c_fatal c" "c_closed (sendRst i k c) = c_closed c"
  by (simp_all add: sendRst_def Let_def)

lemma removeStream_live: "c_live (removeStream i c) = (if s_closed (c_objs c i) then c_live c else removeAll i (c_live c))"
  by (simp add: removeStream_eq Let_def)

lemma alive_removeStream: "alive c \<Longrightarrow> alive (removeStream i c)"
  by (auto simp: alive_def removeStream_fields removeStream_live)

lemma rejectStream_state [simp]:
  "c_fatal (rejectStream i e c) = c_fatal c" "c_closed (rejectStream i e c) = c_closed c"
  "c_live (rejectStream i e c) = c_live c"
  by (simp_all add: rejectStream_def wakePull_def)

lemma alive_teardown:
  "alive c \<Longrightarrow> alive (failStream i e c)" "alive c \<Longrightarrow> alive (resetStream i k e c)"
  using alive_removeStream [of c i] alive_removeStream [of "sendRst i k c" i] alive_cong [of "sendRst i k c" c]
  by (simp_all add: failStream_def resetStream_def alive_cong [of "rejectStream i e x" x for x])

lemma h2_okb_reset: "h2_okb i c \<Longrightarrow> \<not> s_closed (c_objs c i) \<Longrightarrow> h2_ok (resetStream i code e c)"
  by (simp add: h2_ok_def h2_okb_def h2_mid_resetStream alive_teardown)

lemma h2_okb_fail: "h2_okb i c \<Longrightarrow> \<not> s_closed (c_objs c i) \<Longrightarrow> h2_ok (failStream i e c)"
  by (simp add: h2_ok_def h2_okb_def h2_mid_failStream alive_teardown)

lemma h2_okb_ok: "h2_okb i c \<Longrightarrow> stream_ok (c_objs c i) \<Longrightarrow> h2_ok c"
  unfolding h2_ok_def h2_okb_def using h2_but_mid by blast

lemma h2_ok_okb: "h2_ok c \<Longrightarrow> opened c i \<Longrightarrow> h2_okb i c"
  by (simp add: h2_ok_def h2_okb_def h2_mid_but)

lemma h2_ok_live: "h2_ok c \<Longrightarrow> i \<in> set (c_live c) \<Longrightarrow> h2_okb i c \<and> \<not> s_closed (c_objs c i) \<and> opened c i \<and> stream_ok (c_objs c i)"
  by (simp add: h2_ok_def h2_okb_def h2_mid_but live_opened h2_mid_stream)

lemma h2_okb_modify:
  assumes "h2_okb i c"
    and "s_closed (f (c_objs c i)) = s_closed (c_objs c i)" "s_id (f (c_objs c i)) = s_id (c_objs c i)"
    and "s_recvEnded (f (c_objs c i)) \<longrightarrow> s_responseReceived (f (c_objs c i))"
  shows "h2_okb i (modify i f c)"
  using h2_but_modify [of i c f] assms by (simp add: h2_okb_def)

lemma h2_ok_modify:
  assumes "h2_ok c" "opened c i"
    and "stream_ok (c_objs c i) \<Longrightarrow> s_closed (f (c_objs c i)) = s_closed (c_objs c i)
      \<and> s_id (f (c_objs c i)) = s_id (c_objs c i) \<and> stream_ok (f (c_objs c i))"
  shows "h2_ok (modify i f c)"
  using h2_mid_modify [of c i f] assms by (simp add: h2_ok_def)

lemma h2_okb_remove:
  assumes "h2_okb i c" "stream_ok ((c_objs c i)\<lparr>s_closed := True, s_pullWaiter := False\<rparr>)"
    "s_closed (c_objs c i) \<Longrightarrow> stream_ok (c_objs c i)"
  shows "h2_ok (removeStream i c)"
  using assms by (simp add: h2_ok_def h2_okb_def h2_mid_removeStream alive_removeStream)

lemma h2_ok_updates [simp]:
  "h2_ok (c\<lparr>c_out := o1\<rparr>) = h2_ok c" "h2_ok (c\<lparr>c_connRecvWindow := w\<rparr>) = h2_ok c"
  "h2_ok (c\<lparr>c_connConsumed := n\<rparr>) = h2_ok c" "h2_ok (c\<lparr>c_connSendWindow := w\<rparr>) = h2_ok c"
  "h2_ok (c\<lparr>c_connSendWaiters := ws\<rparr>) = h2_ok c" "h2_ok (c\<lparr>c_decoder := d\<rparr>) = h2_ok c"
  "h2_ok (c\<lparr>c_peerInitialWindow := n\<rparr>) = h2_ok c" "h2_ok (c\<lparr>c_peerMaxFrameSize := n\<rparr>) = h2_ok c"
  "h2_ok (c\<lparr>c_peerMaxConcurrent := m\<rparr>) = h2_ok c" "h2_ok (c\<lparr>c_peerHeaderTableSize := n\<rparr>) = h2_ok c"
  "h2_ok (c\<lparr>c_expectFirstSettings := b\<rparr>) = h2_ok c" "h2_ok (c\<lparr>c_goaway := g\<rparr>) = h2_ok c"
  "h2_ok (c\<lparr>c_onCloseCalls := cs\<rparr>) = h2_ok c" "h2_ok (emit fs c) = h2_ok c"
  by (simp_all add: h2_ok_def)

lemma h2_okb_updates [simp]:
  "h2_okb i (c\<lparr>c_connRecvWindow := w\<rparr>) = h2_okb i c" "h2_okb i (c\<lparr>c_connSendWindow := w\<rparr>) = h2_okb i c"
  "h2_okb i (c\<lparr>c_decoder := d\<rparr>) = h2_okb i c" "h2_okb i (emit fs c) = h2_okb i c"
  "h2_okb i (c\<lparr>c_connConsumed := n\<rparr>) = h2_okb i c"
  by (simp_all add: h2_okb_def)

lemma h2_ok_no_continuation: "h2_ok c \<Longrightarrow> h2_ok (c\<lparr>c_continuation := None\<rparr>)"
  by (simp add: h2_ok_def h2_mid_no_continuation)

lemma h2_ok_wake: "h2_ok c \<Longrightarrow> h2_ok (wakeSendWaiters target c)"
  by (simp add: h2_ok_def h2_mid_wake)

subsection \<open>The end of a connection\<close>

lemma failStream_live: "\<not> s_closed (c_objs c i) \<Longrightarrow> c_live (failStream i e c) = removeAll i (c_live c)"
  by (simp add: failStream_def removeStream_live)

lemma fold_fail:
  "h2_mid c \<Longrightarrow> distinct xs \<Longrightarrow> set xs \<subseteq> set (c_live c) \<Longrightarrow>
   h2_mid (fold (\<lambda>i. failStream i e) xs c) \<and> set (c_live (fold (\<lambda>i. failStream i e) xs c)) = set (c_live c) - set xs"
proof (induction xs arbitrary: c)
  case (Cons i xs)
  have i: "opened c i" "\<not> s_closed (c_objs c i)" using live_opened [OF Cons.prems(1)] Cons.prems(3) by auto
  have m: "h2_mid (failStream i e c)" by (rule h2_mid_failStream) (use i h2_mid_but [OF Cons.prems(1)] in simp_all)
  have "set xs \<subseteq> set (c_live (failStream i e c))" using Cons.prems(2,3) failStream_live [OF i(2)] by auto
  from Cons.IH [OF m _ this] Cons.prems(2) show ?case by (auto simp: failStream_live [OF i(2)])
qed simp

lemma fail_all_ok:
  assumes "h2_mid c"
  shows "h2_mid (fail_all e c)" "c_live (fail_all e c) = []"
proof -
  have "distinct (c_live c)" using assms by (simp add: h2_mid_def table_of_streams_ok_def)
  from fold_fail [OF assms this subset_refl] show "h2_mid (fail_all e c)" "c_live (fail_all e c) = []"
    by (auto simp: fail_all_def)
qed

lemma failStream_state [simp]:
  "c_fatal (failStream i e c) = c_fatal c" "c_closed (failStream i e c) = c_closed c"
  by (simp_all add: failStream_def removeStream_fields)

lemma fail_all_state [simp]: "c_fatal (fail_all e c) = c_fatal c" "c_closed (fail_all e c) = c_closed c"
proof -
  have "c_fatal (fold (\<lambda>i. failStream i e) xs d) = c_fatal d \<and> c_closed (fold (\<lambda>i. failStream i e) xs d) = c_closed d" for xs d
    by (induction xs arbitrary: d) simp_all
  then show "c_fatal (fail_all e c) = c_fatal c" "c_closed (fail_all e c) = c_closed c" by (simp_all add: fail_all_def)
qed

lemma h2_dead:
  assumes "h2_mid c" "c_live c = []" "c_fatal c \<noteq> None" "c_closed c"
  shows "h2_ok c"
  using assms by (simp add: h2_ok_def alive_def)

lemma die_ok:
  assumes "h2_ok c"
  shows "h2_ok (die err c)" "c_fatal (die err c) \<noteq> None"
proof -
  have "h2_ok (die err c) \<and> c_fatal (die err c) \<noteq> None"
  proof (cases "c_fatal c")
    case None
    have c: "\<not> c_closed c" "h2_mid c" using assms None by (simp_all add: h2_ok_def alive_def)
    show ?thesis using c None
      by (auto simp: die_def Let_def fail_all_ok intro!: h2_dead)
  qed (use assms in \<open>simp add: die_def\<close>)
  then show "h2_ok (die err c)" "c_fatal (die err c) \<noteq> None" by simp_all
qed

lemma close_connection_ok: "h2_ok c \<Longrightarrow> h2_ok (close_connection c)"
proof -
  assume ok: "h2_ok c"
  show ?thesis
  proof (cases "c_closed c")
    case False
    have c: "c_fatal c = None" "h2_mid c" using ok False by (simp_all add: h2_ok_def alive_def)
    show ?thesis using c False by (auto simp: close_connection_def Let_def fail_all_ok intro!: h2_dead)
  qed (use ok in \<open>simp add: close_connection_def\<close>)
qed

end
