(* ===== verification/Http2_Preservation.thy ===== *)
theory Http2_Preservation
  imports Http2_Invariant
begin

text \<open>
  Every event of an HTTP/2 connection preserves its invariant, so it holds in every reachable state.
\<close>

lemma exempt_updates [simp]:
  "body_exempt (s\<lparr>s_recvQueue := q\<rparr>) = body_exempt s" "body_exempt (s\<lparr>s_recvEnded := b\<rparr>) = body_exempt s"
  "body_exempt (s\<lparr>s_completed := p\<rparr>) = body_exempt s" "body_exempt (s\<lparr>s_trailers := t\<rparr>) = body_exempt s"
  "body_exempt (s\<lparr>s_trailerFields := f\<rparr>) = body_exempt s" "body_exempt (s\<lparr>s_head := h\<rparr>) = body_exempt s"
  "body_exempt (s\<lparr>s_pullWaiter := b\<rparr>) = body_exempt s" "body_exempt (s\<lparr>s_closed := b\<rparr>) = body_exempt s"
  "body_exempt (s\<lparr>s_bodyOpen := b\<rparr>) = body_exempt s" "body_exempt (s\<lparr>s_cancelled := b\<rparr>) = body_exempt s"
  "body_exempt (s\<lparr>s_receivedLength := n\<rparr>) = body_exempt s"
  "body_exempt (s\<lparr>s_rstSent := b\<rparr>) = body_exempt s"
  "body_exempt (s\<lparr>s_localEnded := b\<rparr>) = body_exempt s"
  "body_exempt (s\<lparr>s_bodyError := e\<rparr>) = body_exempt s"
  "body_exempt (s\<lparr>s_sender := x\<rparr>) = body_exempt s"
  "body_exempt (s\<lparr>s_sendWaiters := ws\<rparr>) = body_exempt s"
  "body_exempt (s\<lparr>s_recvWindow := w\<rparr>) = body_exempt s"
  "body_exempt (s\<lparr>s_sendWindow := w\<rparr>) = body_exempt s"
  "body_exempt (s\<lparr>s_recvConsumed := n\<rparr>) = body_exempt s"
  "body_exempt (s\<lparr>s_responseReceived := b\<rparr>) = body_exempt s"
  by (simp_all add: body_exempt_def)

lemma mismatch_updates [simp]:
  "length_mismatch (s\<lparr>s_recvQueue := q\<rparr>) = length_mismatch s" "length_mismatch (s\<lparr>s_recvEnded := b\<rparr>) = length_mismatch s"
  "length_mismatch (s\<lparr>s_completed := p\<rparr>) = length_mismatch s" "length_mismatch (s\<lparr>s_trailers := t\<rparr>) = length_mismatch s"
  "length_mismatch (s\<lparr>s_trailerFields := f\<rparr>) = length_mismatch s" "length_mismatch (s\<lparr>s_head := h\<rparr>) = length_mismatch s"
  "length_mismatch (s\<lparr>s_pullWaiter := b\<rparr>) = length_mismatch s" "length_mismatch (s\<lparr>s_closed := b\<rparr>) = length_mismatch s"
  "length_mismatch (s\<lparr>s_bodyOpen := b\<rparr>) = length_mismatch s" "length_mismatch (s\<lparr>s_cancelled := b\<rparr>) = length_mismatch s"
  "length_mismatch (s\<lparr>s_rstSent := b\<rparr>) = length_mismatch s"
  "length_mismatch (s\<lparr>s_localEnded := b\<rparr>) = length_mismatch s"
  "length_mismatch (s\<lparr>s_bodyError := e\<rparr>) = length_mismatch s"
  "length_mismatch (s\<lparr>s_sender := x\<rparr>) = length_mismatch s"
  "length_mismatch (s\<lparr>s_sendWaiters := ws\<rparr>) = length_mismatch s"
  "length_mismatch (s\<lparr>s_recvWindow := w\<rparr>) = length_mismatch s"
  "length_mismatch (s\<lparr>s_sendWindow := w\<rparr>) = length_mismatch s"
  "length_mismatch (s\<lparr>s_recvConsumed := n\<rparr>) = length_mismatch s"
  "length_mismatch (s\<lparr>s_responseReceived := b\<rparr>) = length_mismatch s"
  by (simp_all add: length_mismatch_def cong: content_length.case_cong)

lemma parts_of_stream_ok:
  assumes "stream_ok s"
  shows "s_responseReceived s \<or> s_closed s \<Longrightarrow> s_head s \<noteq> Pending"
    "s_recvEnded s \<Longrightarrow> s_responseReceived s" "\<not> s_closed s \<Longrightarrow> s_bodyError s = None \<and> \<not> s_cancelled s"
    "s_closed s \<Longrightarrow> s_recvEnded s \<or> s_bodyError s \<noteq> None \<or> s_cancelled s"
  using assms unfolding stream_ok_def by blast+

subsection \<open>Consumption\<close>

lemma replenish_ok: "h2_ok c \<Longrightarrow> opened c i \<Longrightarrow> h2_ok (replenish i n c)"
  unfolding replenish_def Let_def by (auto intro!: h2_ok_modify)

definition consumed_after :: "nat \<Rightarrow> nat \<Rightarrow> h2_conn \<Rightarrow> nat" where
  "consumed_after i n c =
     (let k = s_recvConsumed (c_objs c i) + n
      in if k \<ge> half_window (c_ourInitialWindow c) \<and> \<not> s_closed (c_objs c i) then 0 else k)"

lemma replenish_fields [simp]:
  "opened (replenish i n c) j = opened c j" "c_live (replenish i n c) = c_live c"
  "c_objs (replenish i n c) = (c_objs c)(i := (c_objs c i)
     \<lparr>s_recvConsumed := consumed_after i n c, s_recvWindow := s_recvWindow (c_objs c i) + int n\<rparr>)"
  by (simp_all add: replenish_def Let_def consumed_after_def fun_eq_iff)

lemma replenishConn_ok [simp]: "h2_ok (replenishConn n c) = h2_ok c" "h2_okb i (replenishConn n c) = h2_okb i c"
  by (simp_all add: replenishConn_def Let_def)

lemma replenishConn_fields [simp]:
  "c_objs (replenishConn n c) = c_objs c" "c_live (replenishConn n c) = c_live c"
  "opened (replenishConn n c) i = opened c i" "c_ourInitialWindow (replenishConn n c) = c_ourInitialWindow c"
  by (simp_all add: replenishConn_def Let_def opened_def)

lemma body_pull_ok:
  assumes "h2_ok c" "opened c i"
  shows "h2_ok (snd (h2_body_pull i c))"
proof -
  let ?s = "c_objs c i"
  have s: "stream_ok ?s" using assms by (simp add: h2_ok_def h2_mid_def)
  consider "\<not> s_bodyOpen ?s" | (chunk) ch rest where "s_bodyOpen ?s" "s_recvQueue ?s = ch # rest"
    | (err) e where "s_bodyOpen ?s" "s_recvQueue ?s = []" "s_bodyError ?s = Some e"
    | (ended) "s_bodyOpen ?s" "s_recvQueue ?s = []" "s_bodyError ?s = None" "s_recvEnded ?s"
    | (wait) "s_bodyOpen ?s" "s_recvQueue ?s = []" "s_bodyError ?s = None" "\<not> s_recvEnded ?s"
    by (cases "s_recvQueue ?s"; cases "s_bodyError ?s") auto
  then show ?thesis
  proof cases
    case chunk
    have "h2_ok (modify i (\<lambda>s. s\<lparr>s_recvQueue := rest\<rparr>) c)"
      using assms chunk by (intro h2_ok_modify) (auto simp: stream_ok_def)
    then show ?thesis using chunk assms(2) replenish_ok [of "modify i (\<lambda>s. s\<lparr>s_recvQueue := rest\<rparr>) c" i]
      by (simp add: h2_body_pull_def Let_def consumeStream_def)
  next
    case err
    have "h2_ok (modify i (\<lambda>s. s\<lparr>s_completed := settle (Rejected e) (s_completed s), s_bodyOpen := False\<rparr>) c)"
      using assms err by (intro h2_ok_modify) (auto simp: stream_ok_def)
    then show ?thesis using err by (simp add: h2_body_pull_def Let_def)
  next
    case ended
    have "h2_ok (modify i (\<lambda>s. s\<lparr>s_completed := settle (Resolved True) (s_completed s),
        s_trailers := settle (Resolved (s_trailerFields s)) (s_trailers s), s_bodyOpen := False\<rparr>) c)"
      using assms ended by (intro h2_ok_modify) (auto simp: stream_ok_def)
    then show ?thesis using ended by (simp add: h2_body_pull_def Let_def)
  next
    case wait
    have "h2_ok (modify i (\<lambda>s. s\<lparr>s_pullWaiter := True\<rparr>) c)"
      using assms wait by (intro h2_ok_modify) (auto simp: stream_ok_def)
    then show ?thesis using wait by (simp add: h2_body_pull_def Let_def)
  qed (use assms in \<open>simp add: h2_body_pull_def\<close>)
qed

lemma h2_okb_sendRst: "h2_okb i c \<Longrightarrow> h2_okb i (sendRst i k c)"
  using h2_but_sendRst alive_cong [of "sendRst i k c" c] by (simp add: h2_okb_def)

lemma body_cancel_ok:
  assumes "h2_ok c" "handed_out c i"
  shows "h2_ok (h2_body_cancel i c)"
proof (cases "s_bodyOpen (c_objs c i)")
  case True
  let ?f = "\<lambda>s. s\<lparr>s_bodyOpen := False, s_cancelled := True, s_completed := settle (Resolved False) (s_completed s),
              s_trailers := settle (Resolved None) (s_trailers s)\<rparr>"
  have o: "opened c i" "s_head (c_objs c i) \<noteq> Pending"
    using assms(2) by (auto simp: handed_out_def split: promise.splits)
  have s: "stream_ok (c_objs c i)" using assms(1) o(1) by (simp add: h2_ok_def h2_mid_def)
  have "h2_okb i (modify i ?f c)"
    using h2_ok_okb [OF assms(1) o(1)] parts_of_stream_ok(2) [OF s] by (intro h2_okb_modify) auto
  then have b: "h2_okb i (sendRst i H2_CANCEL (modify i ?f c))" by (rule h2_okb_sendRst)
  have "h2_ok (removeStream i (sendRst i H2_CANCEL (modify i ?f c)))"
    by (rule h2_okb_remove [OF b]) (use s o(2) in \<open>auto simp: stream_ok_def\<close>)
  then show ?thesis using True by (simp add: h2_body_cancel_def)
qed (use assms in \<open>simp add: h2_body_cancel_def\<close>)

lemma on_abort_ok: "h2_ok c \<Longrightarrow> opened c i \<Longrightarrow> h2_ok (on_abort i e c)"
  by (simp add: on_abort_def h2_okb_reset h2_ok_okb)

subsection \<open>Sending\<close>

lemma maybeCloseStream_ok:
  assumes "h2_okb i c" "stream_ok (c_objs c i)"
  shows "h2_ok (maybeCloseStream i c)"
proof (cases "s_recvEnded (c_objs c i) \<and> s_localEnded (c_objs c i)")
  case True
  have "stream_ok ((c_objs c i)\<lparr>s_closed := True, s_pullWaiter := False\<rparr>)"
    using assms(2) True by (auto simp: stream_ok_def)
  from h2_okb_remove [OF assms(1) this assms(2)] True show ?thesis by (simp add: maybeCloseStream_def)
next
  case False
  then show ?thesis using h2_okb_ok [OF assms] by (simp only: maybeCloseStream_def if_False)
qed

lemma sendHeaderBlock_ok [simp]: "h2_ok (sendHeaderBlock i b e c) = h2_ok c"
  "opened (sendHeaderBlock i b e c) j = opened c j" "c_objs (sendHeaderBlock i b e c) = c_objs c"
  by (simp_all add: sendHeaderBlock_def Let_def)

lemma h2_ok_stream: "h2_ok c \<Longrightarrow> opened c i \<Longrightarrow> stream_ok (c_objs c i)"
  by (simp add: h2_ok_def h2_mid_def)

lemma alive_not_fatal: "h2_ok c \<Longrightarrow> opened c i \<Longrightarrow> \<not> s_closed (c_objs c i) \<Longrightarrow> c_fatal c = None"
  using live_opened [of c i] by (auto simp: h2_ok_def alive_def)

lemma send_body_ok:
  assumes "h2_ok c" "opened c i"
  shows "h2_ok (send_body i c)"
proof -
  have m: "h2_ok (modify i (\<lambda>s. s\<lparr>s_sender := x\<rparr>) c)" for x
    by (rule h2_ok_modify [OF assms]) simp
  have b: "h2_ok (modify i (\<lambda>s. s\<lparr>s_sender := x, s_sendWaiters := s_sendWaiters s @ [i]\<rparr>) c)" for x
    by (rule h2_ok_modify [OF assms]) simp
  have w: "h2_ok (modify i (\<lambda>s. s\<lparr>s_sender := x, s_sendWindow := s_sendWindow s - n\<rparr>) c)" for x n
    by (rule h2_ok_modify [OF assms]) simp
  show ?thesis
  proof (cases "s_sender (c_objs c i)")
    case (Ready rest)
    have nf: "c_fatal c = None" if "\<not> s_closed (c_objs c i)" using alive_not_fatal [OF assms that] .
    show ?thesis using m b w nf by (auto simp: send_body_def Let_def Ready)
  qed (use assms in \<open>simp_all add: send_body_def\<close>)
qed

lemma body_written_ok:
  assumes "h2_ok c" "opened c i"
  shows "h2_ok (body_written i c)"
proof (cases "s_sender (c_objs c i)")
  case (Writing rest)
  have s: "stream_ok (c_objs c i)" using assms by (rule h2_ok_stream)
  show ?thesis
  proof (cases "rest = []")
    case True
    let ?c = "modify i (\<lambda>s. s\<lparr>s_sender := NoSender, s_localEnded := True\<rparr>) c"
    have "h2_okb i ?c" using h2_ok_okb [OF assms] parts_of_stream_ok(2) [OF s] by (intro h2_okb_modify) auto
    from maybeCloseStream_ok [OF this] s show ?thesis by (simp add: body_written_def Writing True)
  next
    case False
    have "h2_ok (modify i (\<lambda>s. s\<lparr>s_sender := Ready rest\<rparr>) c)" by (rule h2_ok_modify [OF assms]) simp
    from send_body_ok [OF this, of i] assms(2) False show ?thesis by (simp add: body_written_def Writing)
  qed
qed (use assms in \<open>simp_all add: body_written_def\<close>)

text \<open>A failure of a stream that is already closed only settles what is pending.\<close>

lemma failStream_ok:
  assumes "h2_ok c" "opened c i"
  shows "h2_ok (failStream i e c)"
proof (cases "s_closed (c_objs c i)")
  case True
  have "h2_mid (rejectStream i e c)"
    using h2_ok_okb [OF assms] True by (intro h2_mid_reject) (simp_all add: h2_okb_def)
  moreover have "alive (rejectStream i e c)"
    using assms(1) alive_cong [of "rejectStream i e c" c] by (simp add: h2_ok_def)
  ultimately show ?thesis using True by (simp add: failStream_def removeStream_def h2_ok_def)
next
  case False
  then show ?thesis using h2_okb_fail [OF h2_ok_okb [OF assms]] by simp
qed

lemma body_write_failed_ok:
  assumes "h2_ok c" "opened c i"
  shows "h2_ok (body_write_failed i e c)"
proof (cases "s_sender (c_objs c i)")
  case (Writing rest)
  have "h2_ok (modify i (\<lambda>s. s\<lparr>s_sender := NoSender\<rparr>) c)" by (rule h2_ok_modify [OF assms]) simp
  from failStream_ok [OF this, of i] assms(2) show ?thesis by (simp add: body_write_failed_def Writing)
qed (use assms in \<open>simp_all add: body_write_failed_def\<close>)

subsection \<open>Requests\<close>

lemma stream_ok_new: "stream_ok (new_stream i m r w)"
  by (simp add: stream_ok_def new_stream_def)

lemma createStream_ok:
  assumes "h2_ok c" "c_fatal c = None"
    and c': "c' = createStream (c_nextStreamId c) m (c\<lparr>c_nextStreamId := c_nextStreamId c + 2\<rparr>)"
  shows "h2_ok c'"
proof -
  let ?n = "c_nextStreamId c"
  have t: "table_of_streams_ok c" "continuation_ok c" "\<forall>j. opened c j \<longrightarrow> stream_ok (c_objs c j)" "alive c"
    using assms(1) by (simp_all add: h2_ok_def h2_mid_def)
  then have odd: "odd ?n" and live: "\<And>i. i \<in> set (c_live c) \<longleftrightarrow> opened c i \<and> \<not> s_closed (c_objs c i)"
    and ids: "\<And>i. opened c i \<Longrightarrow> s_id (c_objs c i) = i" and dist: "distinct (c_live c)"
    by (simp_all add: table_of_streams_ok_def)
  have op: "opened c' j \<longleftrightarrow> opened c j \<or> j = ?n" for j
    using odd by (auto simp: opened_def createStream_def c') presburger+
  have nn: "\<not> opened c ?n" by (simp add: opened_def)
  then have nl: "?n \<notin> set (c_live c)" using live by simp
  have obj: "c_objs c' = (c_objs c)(?n := new_stream ?n m (c_ourInitialWindow c) (c_peerInitialWindow c))"
    "c_live c' = c_live c @ [?n]" "c_nextStreamId c' = ?n + 2"
    by (simp_all add: createStream_def c')
  have "table_of_streams_ok c'"
    using odd live ids dist nl nn by (auto simp: table_of_streams_ok_def op obj new_stream_def)
  moreover have "continuation_ok c'" using t(2) continuation_cong [of c' c] by (simp add: createStream_def c')
  moreover have "\<forall>j. opened c' j \<longrightarrow> stream_ok (c_objs c' j)" using t(3) by (auto simp: op obj stream_ok_new)
  moreover have "alive c'" using t(4) assms(2) by (simp add: alive_def createStream_def c')
  ultimately show ?thesis by (simp add: h2_ok_def h2_mid_def)
qed

lemma request_ok:
  assumes "h2_ok c"
  shows "h2_ok (snd (request rq c))"
proof (cases "c_fatal c = None")
  case True
  let ?i = "c_nextStreamId c"
  let ?c1 = "createStream ?i (rq_method rq) (c\<lparr>c_nextStreamId := ?i + 2\<rparr>)"
  have c1: "h2_ok ?c1" by (rule createStream_ok [OF assms True refl])
  have "odd ?i" using assms by (simp add: h2_ok_def h2_mid_def table_of_streams_ok_def)
  then have o: "opened ?c1 ?i" by (simp add: opened_def createStream_def)
  have nc: "\<not> s_closed (c_objs ?c1 ?i)" by (simp add: createStream_def new_stream_def)
  have m: "h2_ok d \<Longrightarrow> opened d ?i \<Longrightarrow> h2_ok (modify ?i (\<lambda>s. s\<lparr>s_localEnded := x\<rparr>) d)" for d x
    by (rule h2_ok_modify) simp_all
  have m': "h2_ok d \<Longrightarrow> opened d ?i \<Longrightarrow> h2_ok (modify ?i (\<lambda>s. s\<lparr>s_sender := x\<rparr>) d)" for d x
    by (rule h2_ok_modify) simp_all
  have m'': "h2_ok d \<Longrightarrow> opened d ?i \<Longrightarrow> h2_ok (modify ?i (\<lambda>s. s\<lparr>s_abortable := x\<rparr>) d)" for d x
    by (rule h2_ok_modify) simp_all
  have reset: "h2_ok (resetStream ?i H2_CANCEL e ?c1)" for e
    using h2_okb_reset [OF h2_ok_okb [OF c1 o] nc] .
  show ?thesis
    using assms True reset c1 o m m' m'' send_body_ok
    by (auto simp: request_def Let_def split: option.split)
qed (use assms in \<open>auto simp: request_def\<close>)

end
