(* ===== verification/Http2_Handlers.thy ===== *)
theory Http2_Handlers
  imports Http2_Preservation
begin

text \<open>
  The handlers of received frames preserve the invariant of the connection, and so does every event.
\<close>

subsection \<open>The end of the receive half\<close>

lemma endRecv_cases:
  assumes "h2_okb i c" "\<not> s_closed (c_objs c i)"
  obtains (reset) c' where "endRecv i c = (False, c')" "h2_ok c'"
    | (ended) "endRecv i c = (True, modify i (\<lambda>s. s\<lparr>s_recvEnded := True\<rparr>) c)"
        "body_exempt (c_objs c i) \<or> \<not> length_mismatch (c_objs c i)"
  using that h2_okb_reset [OF assms] by (cases "\<not> body_exempt (c_objs c i) \<and> length_mismatch (c_objs c i)")
    (auto simp: endRecv_def)

lemma wakePull_okb [simp]:
  "h2_okb i c \<Longrightarrow> h2_okb i (wakePull i c)" "c_live (wakePull i c) = c_live c" "opened (wakePull i c) j = opened c j"
proof -
  assume b: "h2_okb i c"
  then have "s_recvEnded (c_objs c i) \<longrightarrow> s_responseReceived (c_objs c i)" by (simp add: h2_okb_def h2_but_def)
  with b show "h2_okb i (wakePull i c)" unfolding wakePull_def by (intro h2_okb_modify) simp_all
qed (simp_all add: wakePull_def)

lemma wakePull_objs [simp]: "c_objs (wakePull i c) = (c_objs c)(i := (c_objs c i)\<lparr>s_pullWaiter := False\<rparr>)"
  by (simp add: wakePull_def)

text \<open>A stream whose receive half has just ended.\<close>

lemma stream_ok_ended:
  assumes "stream_ok s \<or> (\<not> s_recvEnded s \<and> s_bodyError s = None \<and> \<not> s_cancelled s)"
    and "s_responseReceived s" "s_head s \<noteq> Pending" "\<not> s_closed s" "body_exempt s \<or> \<not> length_mismatch s"
  shows "stream_ok (s\<lparr>s_recvEnded := True, s_pullWaiter := False\<rparr>)"
  using assms by (auto simp: stream_ok_def)

lemma end_stream_ok:
  assumes "h2_okb i c" "stream_ok (c_objs c i)" "\<not> s_closed (c_objs c i)" "s_responseReceived (c_objs c i)"
  shows "h2_ok (case endRecv i c of (False, c1) \<Rightarrow> c1 | (True, c1) \<Rightarrow> maybeCloseStream i (wakePull i c1))"
  using assms(1,3)
proof (cases rule: endRecv_cases)
  case ended
  let ?d = "wakePull i (modify i (\<lambda>s. s\<lparr>s_recvEnded := True\<rparr>) c)"
  have "h2_okb i ?d" using assms(1,4) by (intro wakePull_okb h2_okb_modify) auto
  moreover have "stream_ok (c_objs ?d i)"
    using stream_ok_ended [of "c_objs c i"] assms(2-4) ended(2) parts_of_stream_ok(1) [OF assms(2)] by simp
  ultimately show ?thesis using maybeCloseStream_ok [of i ?d] ended(1) by simp
qed simp

subsection \<open>Header blocks\<close>

lemma deliverTrailers_ok:
  assumes "h2_ok c" "i \<in> set (c_live c)" "s_responseReceived (c_objs c i)"
  shows "h2_ok (deliverTrailers i pairs endStream c)"
proof -
  note l = h2_ok_live [OF assms(1,2)]
  have reset: "h2_ok (resetStream i k e c)" for k e using l h2_okb_reset by blast
  have "h2_ok (case endRecv i (modify i (\<lambda>s. s\<lparr>s_trailerFields := Some t\<rparr>) c) of
      (False, c1) \<Rightarrow> c1 | (True, c1) \<Rightarrow> maybeCloseStream i (wakePull i c1))" for t
  proof (rule end_stream_ok)
    show "h2_okb i (modify i (\<lambda>s. s\<lparr>s_trailerFields := Some t\<rparr>) c)"
      using l parts_of_stream_ok(2) by (intro h2_okb_modify) auto
    show "stream_ok (c_objs (modify i (\<lambda>s. s\<lparr>s_trailerFields := Some t\<rparr>) c) i)"
      using l by (auto simp: stream_ok_def)
  qed (use l assms(3) in simp_all)
  with reset show ?thesis by (simp add: deliverTrailers_def split: sum.split)
qed

lemma deliverResponseHead_ok:
  assumes "h2_ok c" "i \<in> set (c_live c)" "\<not> s_responseReceived (c_objs c i)"
  shows "h2_ok (deliverResponseHead i pairs endStream c)"
proof (cases "parseResponseHeaders pairs")
  case (Inl e)
  then show ?thesis using h2_ok_live [OF assms(1,2)] h2_okb_reset by (simp add: deliverResponseHead_def)
next
  case (Inr h)
  note l = h2_ok_live [OF assms(1,2)]
  then have s: "stream_ok (c_objs c i)" "\<not> s_closed (c_objs c i)" and okb: "h2_okb i c" by simp_all
  have ne: "\<not> s_recvEnded (c_objs c i)" using parts_of_stream_ok(2) [OF s(1)] assms(3) by blast
  have be: "s_bodyError (c_objs c i) = None" "\<not> s_cancelled (c_objs c i)"
    using parts_of_stream_ok(3) [OF s(1) s(2)] by simp_all
  define c1 where "c1 = modify i (\<lambda>s. s\<lparr>s_responseReceived := True, s_status := h2_status h,
      s_declaredLength := contentLengthOf (h2_headers h)\<rparr>) c"
  define c2 where "c2 = modify i (\<lambda>s. s\<lparr>s_receivedLength := 0\<rparr>) c1"
  let ?f = "\<lambda>s. s\<lparr>s_head := settle (Resolved h) (s_head s)\<rparr>"
  let ?g = "\<lambda>s. s\<lparr>s_completed := settle (Resolved True) (s_completed s), s_trailers := settle (Resolved None) (s_trailers s)\<rparr>"
  have b1: "h2_okb i c1" unfolding c1_def by (rule h2_okb_modify [OF okb]) simp_all
  have b2: "h2_okb i c2" unfolding c2_def by (rule h2_okb_modify [OF b1]) (simp_all add: c1_def)
  have o2: "c_objs c2 i = (c_objs c i)\<lparr>s_responseReceived := True, s_status := h2_status h,
      s_declaredLength := contentLengthOf (h2_headers h), s_receivedLength := 0\<rparr>" by (simp add: c2_def c1_def)
  have n2: "\<not> s_closed (c_objs c2 i)" using s(2) by (simp add: o2)
  have malformed: "h2_ok (resetStream i H2_PROTOCOL_ERROR (frame_error HTTP2_PROTOCOL) c1)"
    by (rule h2_okb_reset [OF b1]) (simp add: c1_def s(2))
  have settle: "h2_ok (modify i ?f c2)"
  proof (rule h2_okb_ok)
    show "h2_okb i (modify i ?f c2)" by (rule h2_okb_modify [OF b2]) (simp_all add: o2)
    show "stream_ok (c_objs (modify i ?f c2) i)" using s ne be by (simp add: o2 stream_ok_def)
  qed
  have ended: "h2_ok (case endRecv i c2 of (False, c3) \<Rightarrow> c3
      | (True, c3) \<Rightarrow> maybeCloseStream i (modify i ?f (wakePull i (modify i ?g c3))))"
    using b2 n2
  proof (cases rule: endRecv_cases)
    case ended
    let ?d = "modify i ?f (wakePull i (modify i ?g (modify i (\<lambda>s. s\<lparr>s_recvEnded := True\<rparr>) c2)))"
    have e1: "h2_okb i (modify i (\<lambda>s. s\<lparr>s_recvEnded := True\<rparr>) c2)" by (rule h2_okb_modify [OF b2]) (simp_all add: o2)
    have e2: "h2_okb i (modify i ?g (modify i (\<lambda>s. s\<lparr>s_recvEnded := True\<rparr>) c2))"
      by (rule h2_okb_modify [OF e1]) (simp_all add: o2)
    have "h2_okb i ?d" by (rule h2_okb_modify [OF wakePull_okb(1) [OF e2]]) (simp_all add: o2)
    moreover have "stream_ok (c_objs ?d i)"
      using s(2) ne be ended(2) by (auto simp: o2 stream_ok_def)
    ultimately show ?thesis using maybeCloseStream_ok [of i ?d] ended(1) by simp
  qed simp
  have interim: "h2_ok (resetStream i H2_PROTOCOL_ERROR (frame_error HTTP2_HEADER) c)"
    by (rule h2_okb_reset [OF okb s(2)])
  show ?thesis
    using Inr malformed settle ended interim assms(1)
    unfolding deliverResponseHead_def Let_def by (simp add: c1_def [symmetric] c2_def [symmetric])
qed

lemma completeHeaderBlock_ok:
  assumes "h2_ok c"
  shows "h2_ok (completeHeaderBlock i block endStream c)"
proof -
  obtain r d where h: "hpack_decode block (c_decoder c) = (r, d)" by (cases "hpack_decode block (c_decoder c)")
  have ok: "h2_ok (c\<lparr>c_decoder := d\<rparr>)" using assms by simp
  show ?thesis
    using h die_ok(1) [OF ok] deliverTrailers_ok [OF ok] deliverResponseHead_ok [OF ok] ok
    by (auto simp: completeHeaderBlock_def Let_def split: sum.split)
qed

lemma continuation_within:
  assumes "h2_ok c" "k_bytes k = (\<Sum>b\<leftarrow>k_fragments k. length b + HEADER_FRAGMENT_OVERHEAD)"
    "k_frames k = length (k_fragments k)" "odd (k_streamId k)"
  shows "h2_ok (snd (headerBlockWithinCap k (c\<lparr>c_continuation := Some k\<rparr>)))"
proof (cases "k_bytes k \<le> c_maxHeaderBlockBytes c")
  case True
  have "h2_mid (c\<lparr>c_continuation := Some k\<rparr>)"
    using assms True table_cong [of "c\<lparr>c_continuation := Some k\<rparr>" c]
    by (simp add: h2_ok_def h2_mid_def continuation_ok_def opened_def)
  then show ?thesis using assms(1) True by (simp add: headerBlockWithinCap_def h2_ok_def)
next
  case False
  have "c\<lparr>c_continuation := Some k, c_continuation := None\<rparr> = c\<lparr>c_continuation := None\<rparr>" by simp
  then show ?thesis using die_ok(1) [OF h2_ok_no_continuation [OF assms(1)]] False
    by (simp add: headerBlockWithinCap_def)
qed

lemma onHeaders_ok:
  assumes "h2_ok c"
  shows "h2_ok (onHeaders flags i payload c)"
  using assms die_ok(1) [OF assms] completeHeaderBlock_ok [OF assms]
  by (auto simp: onHeaders_def Let_def intro!: continuation_within split: sum.split)

lemma onContinuation_ok:
  assumes "h2_ok c" "c_continuation c = Some k"
  shows "h2_ok (onContinuation flags payload k c)"
proof -
  let ?k = "k\<lparr>k_fragments := k_fragments k @ [payload],
      k_bytes := k_bytes k + length payload + HEADER_FRAGMENT_OVERHEAD, k_frames := k_frames k + 1\<rparr>"
  have "continuation_ok c" using assms(1) by (simp add: h2_ok_def h2_mid_def)
  then have k: "k_bytes k = (\<Sum>b\<leftarrow>k_fragments k. length b + HEADER_FRAGMENT_OVERHEAD)"
    "k_frames k = length (k_fragments k)" "odd (k_streamId k)"
    using assms(2) unfolding continuation_ok_def by blast+
  have w: "h2_ok (snd (headerBlockWithinCap ?k (c\<lparr>c_continuation := Some ?k\<rparr>)))"
    by (rule continuation_within [OF assms(1)]) (use k in simp_all)
  show ?thesis
  proof (cases "fst (headerBlockWithinCap ?k (c\<lparr>c_continuation := Some ?k\<rparr>))")
    case True
    then have same: "snd (headerBlockWithinCap ?k (c\<lparr>c_continuation := Some ?k\<rparr>)) = c\<lparr>c_continuation := Some ?k\<rparr>"
      by (simp add: headerBlockWithinCap_def split: if_splits)
    with w have "h2_ok (c\<lparr>c_continuation := Some ?k\<rparr>)" by simp
    with True same completeHeaderBlock_ok h2_ok_no_continuation [OF assms(1)] show ?thesis
      by (simp add: onContinuation_def Let_def case_prod_beta)
  qed (use w in \<open>simp add: onContinuation_def Let_def case_prod_beta\<close>)
qed

subsection \<open>Data\<close>

text \<open>Accepting octets that stay within the declared length keeps a stream in order.\<close>

lemma stream_ok_received:
  assumes "stream_ok s" "\<not> s_closed s"
    and "\<not> (case s_declaredLength s of CLLength n \<Rightarrow> s_receivedLength s + length data > n | _ \<Rightarrow> False)"
  shows "stream_ok (if data = [] then s\<lparr>s_receivedLength := s_receivedLength s + length data\<rparr>
     else s\<lparr>s_receivedLength := s_receivedLength s + length data, s_recvQueue := q, s_pullWaiter := False\<rparr>)"
proof -
  have "length_mismatch (s\<lparr>s_receivedLength := s_receivedLength s + length data\<rparr>) \<Longrightarrow> length_mismatch s"
    using assms(3) by (auto simp: length_mismatch_def split: content_length.splits)
  then show ?thesis using assms(1,2) by (auto simp: stream_ok_def)
qed

lemma accept_data_ok:
  assumes "h2_ok c" "i \<in> set (c_live c)" "s_responseReceived (c_objs c i)"
  shows "h2_ok (accept_data flags i flowLen data c)"
proof -
  define c1 where "c1 = (if flowLen - length data > 0
      then replenish i (flowLen - length data) (replenishConn (flowLen - length data) c) else c)"
  have ok1: "h2_ok c1" "i \<in> set (c_live c1)" "s_responseReceived (c_objs c1 i)"
    using assms h2_ok_live [OF assms(1,2)] replenish_ok [of "replenishConn (flowLen - length data) c" i]
    by (simp_all add: c1_def)
  note l = h2_ok_live [OF ok1(1,2)]
  let ?s = "c_objs c1 i"
  define c2 where "c2 = modify i (\<lambda>s. s\<lparr>s_receivedLength := s_receivedLength s + length data\<rparr>) c1"
  have b2: "h2_okb i c2" unfolding c2_def using l ok1(3) by (intro h2_okb_modify) simp_all
  have o2: "c_objs c2 i = ?s\<lparr>s_receivedLength := s_receivedLength ?s + length data\<rparr>" by (simp add: c2_def)
  have reset: "h2_ok (resetStream i H2_PROTOCOL_ERROR (frame_error HTTP2_PROTOCOL) c2)"
    by (rule h2_okb_reset [OF b2]) (simp add: o2 l)
  define c3 where "c3 = (if length data > 0
      then wakePull i (modify i (\<lambda>s. s\<lparr>s_recvQueue := s_recvQueue s @ [data]\<rparr>) c2) else c2)"
  have b3: "h2_okb i c3"
  proof -
    have "h2_okb i (modify i (\<lambda>s. s\<lparr>s_recvQueue := s_recvQueue s @ [data]\<rparr>) c2)"
      by (rule h2_okb_modify [OF b2]) (simp_all add: o2 ok1(3))
    with b2 show ?thesis by (simp add: c3_def)
  qed
  have o3: "c_objs c3 i = (if data = [] then ?s\<lparr>s_receivedLength := s_receivedLength ?s + length data\<rparr>
      else ?s\<lparr>s_receivedLength := s_receivedLength ?s + length data, s_recvQueue := s_recvQueue ?s @ [data], s_pullWaiter := False\<rparr>)"
    by (simp add: c3_def o2)
  have go: "h2_ok (if has_flag flags FLAG_END_STREAM
      then case endRecv i c3 of (False, c4) \<Rightarrow> c4 | (True, c4) \<Rightarrow> maybeCloseStream i (wakePull i c4) else c3)"
    if "\<not> (case s_declaredLength ?s of CLLength n \<Rightarrow> s_receivedLength ?s + length data > n | _ \<Rightarrow> False)"
  proof -
    have s3: "stream_ok (c_objs c3 i)" unfolding o3 using l that by (intro stream_ok_received) simp_all
    have "h2_ok c3" using h2_okb_ok [OF b3 s3] .
    moreover have "h2_ok (case endRecv i c3 of (False, c4) \<Rightarrow> c4 | (True, c4) \<Rightarrow> maybeCloseStream i (wakePull i c4))"
      by (rule end_stream_ok [OF b3 s3]) (use l ok1(3) in \<open>simp_all add: o3\<close>)
    ultimately show ?thesis by simp
  qed
  show ?thesis
  proof (cases "case s_declaredLength ?s of CLLength n \<Rightarrow> s_receivedLength ?s + length data > n | _ \<Rightarrow> False")
    case True
    then have "(case s_declaredLength (c_objs c2 i) of CLLength n \<Rightarrow> s_receivedLength (c_objs c2 i) > n | _ \<Rightarrow> False)"
      by (simp add: o2 split: content_length.splits)
    with reset show ?thesis unfolding accept_data_def Let_def c1_def [symmetric] c2_def [symmetric] by simp
  next
    case False
    then have "\<not> (case s_declaredLength (c_objs c2 i) of CLLength n \<Rightarrow> s_receivedLength (c_objs c2 i) > n | _ \<Rightarrow> False)"
      by (simp add: o2 split: content_length.splits)
    with go [OF False] show ?thesis
      unfolding accept_data_def Let_def c1_def [symmetric] c2_def [symmetric] c3_def [symmetric] by simp
  qed
qed

lemma onData_ok:
  assumes "h2_ok c"
  shows "h2_ok (onData flags i payload c)"
proof -
  define c1 where "c1 = c\<lparr>c_connRecvWindow := c_connRecvWindow c - int (length payload)\<rparr>"
  have ok1: "h2_ok c1" using assms by (simp add: c1_def)
  define c2 where "c2 = modify i (\<lambda>s. s\<lparr>s_recvWindow := s_recvWindow s - int (length payload)\<rparr>) c1"
  have live: "h2_ok c2" "i \<in> set (c_live c2)" "c_objs c2 i = (c_objs c1 i)\<lparr>s_recvWindow := s_recvWindow (c_objs c1 i) - int (length payload)\<rparr>"
    "\<not> s_closed (c_objs c1 i)" "h2_okb i c1"
    if "i \<in> set (c_live c1)"
  proof -
    note l = h2_ok_live [OF ok1 that]
    show "h2_ok c2" unfolding c2_def using l by (intro h2_ok_modify [OF ok1]) simp_all
    show "i \<in> set (c_live c2)" "\<not> s_closed (c_objs c1 i)" "h2_okb i c1"
      "c_objs c2 i = (c_objs c1 i)\<lparr>s_recvWindow := s_recvWindow (c_objs c1 i) - int (length payload)\<rparr>"
      using that l by (simp_all add: c2_def)
  qed
  have "h2_okb i c2 \<and> \<not> s_closed (c_objs c2 i)" if "i \<in> set (c_live c1)"
    using h2_ok_live [OF live(1,2)] that by simp
  then show ?thesis
    using die_ok(1) [OF assms] die_ok(1) [OF ok1] ok1 live accept_data_ok [of c2 i] h2_okb_reset
    unfolding onData_def Let_def c1_def [symmetric] c2_def [symmetric]
    by (auto split: sum.split)
qed

subsection \<open>Settings, windows, resets\<close>

lemma shift_send_window_ok:
  assumes "h2_ok c" "opened c i"
  shows "h2_ok (shift_send_window delta i c)" "opened (shift_send_window delta i c) j = opened c j"
proof -
  have "h2_ok (modify i (\<lambda>s. s\<lparr>s_sendWindow := s_sendWindow s + delta\<rparr>) c)"
    by (rule h2_ok_modify [OF assms]) simp
  then show "h2_ok (shift_send_window delta i c)" by (simp add: shift_send_window_def Let_def h2_ok_wake)
  show "opened (shift_send_window delta i c) j = opened c j"
    by (simp add: shift_send_window_def Let_def wakeSendWaiters_eq opened_def)
qed

lemma fold_shift_ok:
  "h2_ok c \<Longrightarrow> \<forall>i \<in> set xs. opened c i \<Longrightarrow> h2_ok (fold (shift_send_window delta) xs c)"
  by (induction xs arbitrary: c) (simp_all add: shift_send_window_ok)

lemma apply_setting_ok:
  assumes "h2_ok c"
  shows "h2_ok (snd (apply_setting e c))"
proof -
  obtain i v where e: "e = (i, v)" by (cases e)
  have "\<forall>j \<in> set (c_live c). opened (c\<lparr>c_peerInitialWindow := v\<rparr>) j"
    using h2_ok_live [OF assms] by (simp add: opened_def)
  with assms have "h2_ok (fold (shift_send_window d) (c_live c) (c\<lparr>c_peerInitialWindow := v\<rparr>))" for d
    by (intro fold_shift_ok) simp_all
  with assms die_ok(1) [OF assms] show ?thesis unfolding e by (simp add: apply_setting_def)
qed

lemma apply_settings_ok: "h2_ok c \<Longrightarrow> h2_ok (snd (apply_settings es c))"
proof (induction es arbitrary: c)
  case (Cons e es)
  from apply_setting_ok [OF Cons.prems, of e] Cons.IH show ?case
    by (cases "apply_setting e c"; cases "fst (apply_setting e c)") auto
qed simp

lemma onSettings_ok:
  assumes "h2_ok c"
  shows "h2_ok (onSettings flags i payload c)"
proof -
  have "h2_ok (case apply_settings es c of (True, c') \<Rightarrow> c' | (False, c') \<Rightarrow> emit [OSettings [] True] c')" for es
    using apply_settings_ok [OF assms, of es] by (cases "apply_settings es c"; cases "fst (apply_settings es c)") auto
  with assms die_ok(1) [OF assms] show ?thesis by (simp add: onSettings_def split: sum.split)
qed

lemma onWindowUpdate_ok:
  assumes "h2_ok c"
  shows "h2_ok (onWindowUpdate i payload c)"
proof -
  have w: "h2_ok (c\<lparr>c_connSendWindow := x\<rparr>)" for x using assms by simp
  have live: "h2_ok (modify i (\<lambda>s. s\<lparr>s_sendWindow := s_sendWindow s + n\<rparr>) c)" if "i \<in> set (c_live c)" for n
    using h2_ok_live [OF assms that] by (intro h2_ok_modify [OF assms]) simp_all
  have reset: "h2_ok (resetStream i k e (modify i (\<lambda>s. s\<lparr>s_sendWindow := s_sendWindow s + n\<rparr>) c))"
    if "i \<in> set (c_live c)" for n k e
    using h2_ok_live [OF live [OF that], of i] that h2_okb_reset by simp
  have reset': "h2_ok (resetStream i k e c)" if "i \<in> set (c_live c)" for k e
    using h2_ok_live [OF assms that] h2_okb_reset by simp
  show ?thesis
    using assms w live reset reset' die_ok(1) [OF assms] die_ok(1) [OF w] h2_ok_wake [OF w] h2_ok_wake [OF live]
    by (simp add: onWindowUpdate_def Let_def split: sum.split)
qed

lemma onRstStream_ok:
  assumes "h2_ok c"
  shows "h2_ok (onRstStream i payload c)"
  using assms die_ok(1) [OF assms] failStream_ok [OF assms] h2_ok_live [OF assms]
  by (simp add: onRstStream_def split: sum.split)

lemma onPing_ok: "h2_ok c \<Longrightarrow> h2_ok (onPing flags i payload c)"
  using die_ok(1) [of c] by (simp add: onPing_def)

lemma opened_failStream [simp]: "opened (failStream i e c) j = opened c j"
  by (simp add: failStream_def rejectStream_def opened_def removeStream_fields wakePull_def)

lemma goaway_fold_ok:
  "h2_ok c \<Longrightarrow> \<forall>i \<in> set xs. opened c i \<Longrightarrow>
   h2_ok (fold (\<lambda>i d. if P i d then failStream i e d else d) xs c)"
  by (induction xs arbitrary: c) (simp_all add: failStream_ok)

lemma onGoaway_ok:
  assumes "h2_ok c"
  shows "h2_ok (onGoaway payload c)"
proof -
  have "h2_ok (fold (\<lambda>i d. if P i d then failStream i e d else d) (c_live c) (c\<lparr>c_goaway := g\<rparr>))" for P e g
    using assms h2_ok_live [OF assms] by (intro goaway_fold_ok) (simp_all add: opened_def)
  with die_ok(1) [OF assms] show ?thesis by (simp add: onGoaway_def Let_def split: sum.split)
qed

subsection \<open>Every event\<close>

lemma dispatch_by_type_ok:
  assumes "h2_ok c"
  shows "h2_ok (dispatch_by_type f c)"
  using assms die_ok(1) [OF assms] onSettings_ok [OF assms] onHeaders_ok [OF assms] onData_ok [OF assms]
    onWindowUpdate_ok [OF assms] onRstStream_ok [OF assms] onPing_ok [OF assms] onGoaway_ok [OF assms]
  unfolding dispatch_by_type_def Let_def by simp

lemma dispatchFrame_ok:
  assumes "h2_ok c"
  shows "h2_ok (dispatchFrame f c)"
proof -
  have "h2_ok (c\<lparr>c_expectFirstSettings := False\<rparr>)" using assms by simp
  with assms die_ok(1) [OF assms] dispatch_by_type_ok onContinuation_ok [OF assms] show ?thesis
    by (simp add: dispatchFrame_def split: option.split)
qed

lemma read_turn_ok: "h2_ok c \<Longrightarrow> h2_ok (read_turn r c)"
  using die_ok(1) [of c] dispatchFrame_ok [of c] by (simp add: read_turn_def split: sum.split option.split)

lemma handed_out_opened: "handed_out c i \<Longrightarrow> opened c i"
  by (simp add: handed_out_def)

lemma h2_step_ok: "h2_ok c \<Longrightarrow> h2_ok (h2_step ev c)"
  by (cases ev)
    (simp_all add: read_turn_ok request_ok body_pull_ok body_cancel_ok on_abort_ok send_body_ok body_written_ok
      body_write_failed_ok close_connection_ok handed_out_opened)

lemma h2_ok_new: "h2_ok (new_Http2Connection opts)"
  by (auto simp: new_Http2Connection_def sendPreface_def Let_def h2_ok_def alive_def h2_mid_def table_of_streams_ok_def
      continuation_ok_def opened_def intro: odd_pos)

lemma h2_run_ok: "h2_ok c \<Longrightarrow> h2_ok (h2_run es c)"
  by (induction es arbitrary: c) (simp_all add: h2_step_ok)

end
