(* ===== verification/Http2_Traffic.thy ===== *)
theory Http2_Traffic
  imports Http2_Handlers
begin

text \<open>
  What moves between a connection, its peer and its callers: which operations touch the body of a
  stream, and the ledgers of the connection's two windows. \<open>quiet I\<close> relates a state to a later one
  in which no window of the connection and no body of a stream outside \<open>I\<close> has moved.
\<close>

definition updates0 :: "out_frame list \<Rightarrow> nat" where
  "updates0 fs = (\<Sum>f\<leftarrow>fs. case f of OWindowUpdate i n \<Rightarrow> (if i = 0 then n else 0) | _ \<Rightarrow> 0)"

definition data_sent :: "out_frame list \<Rightarrow> nat" where
  "data_sent fs = (\<Sum>f\<leftarrow>fs. case f of OData i b e \<Rightarrow> length b | _ \<Rightarrow> 0)"

lemma ledger_append [simp]:
  "updates0 (a @ b) = updates0 a + updates0 b" "data_sent (a @ b) = data_sent a + data_sent b"
  "updates0 [] = 0" "data_sent [] = 0"
  by (simp_all add: updates0_def data_sent_def)

lemma ledger_Cons [simp]:
  "updates0 (f # fs) = (case f of OWindowUpdate i n \<Rightarrow> (if i = 0 then n else 0) | _ \<Rightarrow> 0) + updates0 fs"
  "data_sent (f # fs) = (case f of OData i b e \<Rightarrow> length b | _ \<Rightarrow> 0) + data_sent fs"
  by (simp_all add: updates0_def data_sent_def)

definition body_view :: "h2_stream \<Rightarrow> bool \<times> bytes list \<times> nat \<times> headers option" where
  "body_view s = (s_responseReceived s, s_recvQueue s, s_receivedLength s, s_trailerFields s)"

text \<open>
  The credit the peer has used of the receive window, up to a constant, and the credit granted by the
  peer that is used or left.
\<close>

definition ledger :: "h2_conn \<Rightarrow> int \<times> int \<times> int" where
  "ledger c = (c_connRecvWindow c - int (updates0 (c_out c)) - int (c_connConsumed c),
     c_connSendWindow c + int (data_sent (c_out c)), c_connSendWindow c)"

text \<open>Outside \<open>H\<close>, the head of a stream may at most be rejected.\<close>

definition quiet_stream :: "bool \<Rightarrow> bool \<Rightarrow> h2_stream \<Rightarrow> h2_stream \<Rightarrow> bool" where
  "quiet_stream inI inH s s' \<longleftrightarrow>
     (\<not> inI \<longrightarrow> body_view s' = body_view s \<and> (s_bodyError s \<noteq> None \<longrightarrow> s_bodyError s' \<noteq> None))
     \<and> (\<not> inH \<longrightarrow> s_head s' = s_head s \<or> s_head s = Pending \<and> (\<exists>e. s_head s' = Rejected e))"

definition quiet :: "nat set \<Rightarrow> nat set \<Rightarrow> h2_conn \<Rightarrow> h2_conn \<Rightarrow> bool" where
  "quiet I H c c' \<longleftrightarrow> ledger c' = ledger c \<and> c_nextStreamId c' = c_nextStreamId c
     \<and> (\<forall>j. quiet_stream (j \<in> I) (j \<in> H) (c_objs c j) (c_objs c' j))"

lemma quiet_stream_refl [simp]: "quiet_stream a b s s"
  by (simp add: quiet_stream_def)

lemma quiet_stream_trans: "quiet_stream a b s t \<Longrightarrow> quiet_stream a b t u \<Longrightarrow> quiet_stream a b s u"
  unfolding quiet_stream_def by auto

lemma quiet_refl [simp]: "quiet I H c c"
  by (simp add: quiet_def)

lemma quiet_trans: "quiet I H c c1 \<Longrightarrow> quiet I H c1 c2 \<Longrightarrow> quiet I H c c2"
  unfolding quiet_def by (metis quiet_stream_trans)

lemma quiet_mono: "quiet I H c c' \<Longrightarrow> I \<subseteq> I' \<Longrightarrow> H \<subseteq> H' \<Longrightarrow> quiet I' H' c c'"
  unfolding quiet_def quiet_stream_def by auto

text \<open>The rules extend a quiet history by one operation.\<close>

lemma quiet_modify:
  assumes "quiet I H c d" "quiet_stream (i \<in> I) (i \<in> H) (c_objs d i) (f (c_objs d i))"
  shows "quiet I H c (modify i f d)"
proof -
  have "quiet_stream (i \<in> I) (i \<in> H) (c_objs c i) (f (c_objs d i))"
    using assms by (simp add: quiet_def quiet_stream_trans [of _ _ _ "c_objs d i"])
  with assms(1) show ?thesis by (simp add: quiet_def ledger_def modify_def)
qed

lemma quiet_emit: "quiet I H c d \<Longrightarrow> updates0 fs = 0 \<Longrightarrow> data_sent fs = 0 \<Longrightarrow> quiet I H c (emit fs d)"
  by (simp add: quiet_def ledger_def)

lemma quiet_flags [simp]:
  "quiet I H c (d\<lparr>c_fatal := x\<rparr>) = quiet I H c d" "quiet I H c (d\<lparr>c_closed := b\<rparr>) = quiet I H c d"
  "quiet I H c (d\<lparr>c_transportClosed := b\<rparr>) = quiet I H c d" "quiet I H c (d\<lparr>c_onClose := b\<rparr>) = quiet I H c d"
  "quiet I H c (d\<lparr>c_onCloseCalls := cs\<rparr>) = quiet I H c d" "quiet I H c (d\<lparr>c_goaway := g\<rparr>) = quiet I H c d"
  "quiet I H c (d\<lparr>c_continuation := k\<rparr>) = quiet I H c d" "quiet I H c (d\<lparr>c_decoder := dd\<rparr>) = quiet I H c d"
  "quiet I H c (d\<lparr>c_expectFirstSettings := b\<rparr>) = quiet I H c d" "quiet I H c (d\<lparr>c_peerInitialWindow := n\<rparr>) = quiet I H c d"
  "quiet I H c (d\<lparr>c_peerMaxFrameSize := n\<rparr>) = quiet I H c d" "quiet I H c (d\<lparr>c_peerMaxConcurrent := m\<rparr>) = quiet I H c d"
  "quiet I H c (d\<lparr>c_peerHeaderTableSize := n\<rparr>) = quiet I H c d" "quiet I H c (d\<lparr>c_connSendWaiters := ws\<rparr>) = quiet I H c d"
  by (simp_all add: quiet_def ledger_def)

lemma body_view_updates [simp]:
  "body_view (s\<lparr>s_sender := x\<rparr>) = body_view s" "body_view (s\<lparr>s_sendWaiters := ws\<rparr>) = body_view s"
  "body_view (s\<lparr>s_closed := b\<rparr>) = body_view s" "body_view (s\<lparr>s_pullWaiter := b\<rparr>) = body_view s"
  "body_view (s\<lparr>s_bodyError := e\<rparr>) = body_view s" "body_view (s\<lparr>s_head := h\<rparr>) = body_view s"
  "body_view (s\<lparr>s_completed := p\<rparr>) = body_view s" "body_view (s\<lparr>s_trailers := t\<rparr>) = body_view s"
  "body_view (s\<lparr>s_rstSent := b\<rparr>) = body_view s" "body_view (s\<lparr>s_recvEnded := b\<rparr>) = body_view s"
  "body_view (s\<lparr>s_sendWindow := w\<rparr>) = body_view s"
  "body_view (s\<lparr>s_recvWindow := w\<rparr>) = body_view s" "body_view (s\<lparr>s_recvConsumed := n\<rparr>) = body_view s"
  "body_view (s\<lparr>s_localEnded := b\<rparr>) = body_view s" "body_view (s\<lparr>s_cancelled := b\<rparr>) = body_view s"
  "body_view (s\<lparr>s_bodyOpen := b\<rparr>) = body_view s" "body_view (s\<lparr>s_abortable := b\<rparr>) = body_view s"
  by (simp_all add: body_view_def)

subsection \<open>Quiet operations\<close>

lemma quiet_wake: "quiet I H c d \<Longrightarrow> quiet I H c (wakeSendWaiters t d)"
  by (auto simp: quiet_def ledger_def wakeSendWaiters_eq quiet_stream_def)

lemma quiet_wakePull: "quiet I H c d \<Longrightarrow> quiet I H c (wakePull i d)"
  unfolding wakePull_def by (erule quiet_modify) (simp add: quiet_stream_def)

lemma quiet_removeStream: "quiet I H c d \<Longrightarrow> quiet I H c (removeStream i d)"
  by (auto simp: quiet_def ledger_def removeStream_eq Let_def quiet_stream_def)

lemma quiet_rejectStream: "quiet I H c d \<Longrightarrow> quiet I H c (rejectStream i e d)"
  unfolding rejectStream_def
  by (intro quiet_wakePull quiet_modify) (auto simp: reject_promises_def quiet_stream_def settle_def split: option.split promise.split)

lemma quiet_sendRst: "quiet I H c d \<Longrightarrow> quiet I H c (sendRst i k d)"
  unfolding sendRst_def Let_def by (auto intro!: quiet_modify quiet_emit simp: quiet_stream_def)

lemma quiet_failStream: "quiet I H c d \<Longrightarrow> quiet I H c (failStream i e d)"
  unfolding failStream_def by (intro quiet_rejectStream quiet_removeStream)

lemma quiet_resetStream: "quiet I H c d \<Longrightarrow> quiet I H c (resetStream i k e d)"
  unfolding resetStream_def by (intro quiet_rejectStream quiet_removeStream quiet_sendRst)

lemma quiet_maybeClose: "quiet I H c d \<Longrightarrow> quiet I H c (maybeCloseStream i d)"
  by (simp add: maybeCloseStream_def quiet_removeStream)

lemma quiet_fold: "(\<And>i d. quiet I H c d \<Longrightarrow> quiet I H c (f i d)) \<Longrightarrow> quiet I H c d \<Longrightarrow> quiet I H c (fold f xs d)"
  by (induction xs arbitrary: d) auto

lemma quiet_fail_all: "quiet I H c d \<Longrightarrow> quiet I H c (fail_all e d)"
  unfolding fail_all_def by (rule quiet_fold) (rule quiet_failStream)

lemma quiet_die: "quiet I H c d \<Longrightarrow> quiet I H c (die err d)"
  unfolding die_def Let_def by (auto intro!: quiet_fail_all quiet_emit)

lemma quiet_close: "quiet I H c d \<Longrightarrow> quiet I H c (close_connection d)"
  unfolding close_connection_def Let_def by (auto intro!: quiet_fail_all quiet_emit)

lemmas quiet_intros = quiet_wake quiet_wakePull quiet_removeStream quiet_rejectStream quiet_sendRst
  quiet_failStream quiet_resetStream quiet_maybeClose quiet_fail_all quiet_die quiet_close

lemma quiet_endRecv: "quiet I H c d \<Longrightarrow> quiet I H c (snd (endRecv i d))"
  unfolding endRecv_def by (auto intro!: quiet_intros quiet_modify simp: quiet_stream_def)

lemma quiet_end_stream:
  "quiet I H c d \<Longrightarrow>
   quiet I H c (case endRecv i d of (False, d1) \<Rightarrow> d1 | (True, d1) \<Rightarrow> maybeCloseStream i (wakePull i d1))"
  using quiet_endRecv [of I H c d i] by (cases "endRecv i d"; cases "fst (endRecv i d)") (auto intro!: quiet_intros)

lemma quiet_deliverTrailers: "i \<in> I \<Longrightarrow> quiet I H c d \<Longrightarrow> quiet I H c (deliverTrailers i pairs b d)"
  unfolding deliverTrailers_def
  by (auto split: sum.split intro!: quiet_resetStream quiet_end_stream quiet_modify simp: quiet_stream_def)

lemma quiet_deliverResponseHead:
  assumes "i \<in> I" "i \<in> H" "quiet I H c d"
  shows "quiet I H c (deliverResponseHead i pairs b d)"
proof -
  have m: "quiet I H c (modify i f e)" if "quiet I H c e" for f e
    using that assms(1,2) by (intro quiet_modify) (simp_all add: quiet_stream_def)
  have "quiet I H c (case endRecv i e of (False, e1) \<Rightarrow> e1
      | (True, e1) \<Rightarrow> maybeCloseStream i (modify i f (wakePull i (modify i g e1))))" if "quiet I H c e" for e f g
    using quiet_endRecv [OF that, of i] by (cases "endRecv i e"; cases "fst (endRecv i e)") (auto intro!: quiet_intros m)
  with m assms(3) show ?thesis
    unfolding deliverResponseHead_def Let_def by (auto split: sum.split intro!: quiet_resetStream)
qed

lemma quiet_completeHeaderBlock: "i \<in> I \<Longrightarrow> i \<in> H \<Longrightarrow> quiet I H c d \<Longrightarrow> quiet I H c (completeHeaderBlock i b e d)"
  unfolding completeHeaderBlock_def Let_def
  by (auto split: sum.split prod.split intro!: quiet_die quiet_deliverTrailers quiet_deliverResponseHead)

lemma quiet_onHeaders: "i \<in> I \<Longrightarrow> i \<in> H \<Longrightarrow> quiet I H c d \<Longrightarrow> quiet I H c (onHeaders flags i payload d)"
  unfolding onHeaders_def Let_def headerBlockWithinCap_def
  by (auto split: sum.split intro!: quiet_die quiet_completeHeaderBlock)

lemma quiet_onContinuation: "k_streamId k \<in> I \<Longrightarrow> k_streamId k \<in> H \<Longrightarrow> quiet I H c d \<Longrightarrow> quiet I H c (onContinuation flags payload k d)"
  unfolding onContinuation_def Let_def headerBlockWithinCap_def
  by (auto intro!: quiet_die quiet_completeHeaderBlock)

lemma quiet_shift: "quiet I H c d \<Longrightarrow> quiet I H c (shift_send_window x i d)"
  unfolding shift_send_window_def Let_def by (auto intro!: quiet_wake quiet_modify simp: quiet_stream_def)

lemma quiet_apply_setting: "quiet I H c d \<Longrightarrow> quiet I H c (snd (apply_setting e d))"
  unfolding apply_setting_def by (auto split: prod.split intro!: quiet_die quiet_fold quiet_shift)

lemma quiet_apply_settings: "quiet I H c d \<Longrightarrow> quiet I H c (snd (apply_settings es d))"
proof (induction es arbitrary: d)
  case (Cons e es)
  from quiet_apply_setting [OF Cons.prems, of e] Cons.IH show ?case
    by (cases "apply_setting e d"; cases "fst (apply_setting e d)") auto
qed simp

lemma quiet_onSettings: "quiet I H c d \<Longrightarrow> quiet I H c (onSettings flags i payload d)"
proof -
  assume q: "quiet I H c d"
  have "quiet I H c (case apply_settings es d of (True, d') \<Rightarrow> d' | (False, d') \<Rightarrow> emit [OSettings [] True] d')" for es
    using quiet_apply_settings [OF q, of es]
    by (cases "apply_settings es d"; cases "fst (apply_settings es d)") (auto intro!: quiet_emit)
  with q show ?thesis unfolding onSettings_def by (auto split: sum.split intro!: quiet_die)
qed

lemma quiet_onRstStream: "quiet I H c d \<Longrightarrow> quiet I H c (onRstStream i payload d)"
  unfolding onRstStream_def by (auto split: sum.split intro!: quiet_die quiet_failStream)

lemma quiet_onPing: "quiet I H c d \<Longrightarrow> quiet I H c (onPing flags i payload d)"
  unfolding onPing_def by (auto intro!: quiet_die quiet_emit)

lemma quiet_onGoaway: "quiet I H c d \<Longrightarrow> quiet I H c (onGoaway payload d)"
  unfolding onGoaway_def Let_def by (auto split: sum.split intro!: quiet_die quiet_fold quiet_failStream)

lemma quiet_onWindowUpdate: "i \<noteq> 0 \<Longrightarrow> quiet I H c d \<Longrightarrow> quiet I H c (onWindowUpdate i payload d)"
  unfolding onWindowUpdate_def Let_def by (auto split: sum.split intro!: quiet_intros quiet_modify simp: quiet_stream_def)

lemma quiet_replenish:
  "quiet I H c d \<Longrightarrow> s_id (c_objs d i) \<noteq> 0 \<Longrightarrow> quiet I H c (replenish i n d)"
  unfolding replenish_def Let_def by (auto intro!: quiet_emit quiet_modify simp: quiet_stream_def)

lemma quiet_replenishConn: "quiet I H c d \<Longrightarrow> quiet I H c (replenishConn n d)"
  unfolding replenishConn_def Let_def by (auto simp: quiet_def ledger_def)

subsection \<open>Data\<close>

lemma opened_id: "h2_ok c \<Longrightarrow> opened c i \<Longrightarrow> s_id (c_objs c i) = i"
  by (simp add: h2_ok_def h2_mid_def table_of_streams_ok_def)

lemma opened_nonzero: "opened c i \<Longrightarrow> i \<noteq> 0"
  by (rule notI) (simp add: opened_def)

lemma quiet_accept_data:
  assumes "quiet I H c d" "i \<in> I" "s_id (c_objs d i) \<noteq> 0"
  shows "quiet I H c (accept_data flags i n data d)"
proof -
  have m: "quiet I H c e \<Longrightarrow> quiet I H c (modify i (\<lambda>s. s\<lparr>s_recvQueue := g s\<rparr>) e)"
    "quiet I H c e \<Longrightarrow> quiet I H c (modify i (\<lambda>s. s\<lparr>s_receivedLength := h s\<rparr>) e)"
    "quiet I H c e \<Longrightarrow> quiet I H c (modify i (\<lambda>s. s) e)" for e g h
    using assms(2) by (auto intro!: quiet_modify simp: quiet_stream_def)
  have "quiet I H c (if n - length data > 0 then replenish i (n - length data) (replenishConn (n - length data) d) else d)"
    using assms(1,3) by (auto intro!: quiet_replenish quiet_replenishConn)
  then show ?thesis
    unfolding accept_data_def Let_def by (auto intro!: quiet_resetStream quiet_end_stream quiet_wakePull m)
qed

lemma quiet_onData:
  assumes "h2_ok c" "i \<noteq> 0"
  shows "quiet {i} {} (c\<lparr>c_connRecvWindow := c_connRecvWindow c - int (length payload)\<rparr>) (onData flags i payload c)"
proof -
  have "s_id (c_objs c i) \<noteq> 0" if "i \<in> set (c_live c)"
    using h2_ok_live [OF assms(1) that] opened_id [OF assms(1)] assms(2) by simp
  with assms(2) show ?thesis
    unfolding onData_def Let_def
    by (auto split: sum.split intro!: quiet_die quiet_replenishConn quiet_resetStream quiet_accept_data quiet_modify
        simp: quiet_stream_def)
qed

lemma quiet_window_update0:
  assumes "parseWindowUpdate payload = Inr n"
  shows "quiet {} {} (c\<lparr>c_connSendWindow := c_connSendWindow c + int n\<rparr>) (onWindowUpdate 0 payload c)"
  using assms unfolding onWindowUpdate_def Let_def by (auto intro!: quiet_intros)

lemma quiet_bad_window_update:
  "parseWindowUpdate payload = Inl e \<Longrightarrow> quiet {} {} c (onWindowUpdate 0 payload c)"
  unfolding onWindowUpdate_def by (auto intro!: quiet_die)

subsection \<open>The ledgers\<close>

text \<open>What a received frame moves: the credit it uses of the connection's receive window, and the
  credit it grants for sending.\<close>

definition plain_turn :: "h2_conn \<Rightarrow> bool" where
  "plain_turn c \<longleftrightarrow> c_fatal c = None \<and> c_continuation c = None \<and> \<not> c_expectFirstSettings c"

fun used_credit :: "h2_event \<Rightarrow> h2_conn \<Rightarrow> nat" where
  "used_credit (Received (Inr (Some f))) c =
     (if plain_turn c \<and> ftype f = FRAME_DATA \<and> fstream f \<noteq> 0 then length (fpayload f) else 0)"
| "used_credit _ c = 0"

fun granted_credit :: "h2_event \<Rightarrow> h2_conn \<Rightarrow> nat" where
  "granted_credit (Received (Inr (Some f))) c =
     (if plain_turn c \<and> ftype f = FRAME_WINDOW_UPDATE \<and> fstream f = 0
      then (case parseWindowUpdate (fpayload f) of Inl _ \<Rightarrow> 0 | Inr n \<Rightarrow> n) else 0)"
| "granted_credit _ c = 0"

fun over_run :: "(h2_event \<Rightarrow> h2_conn \<Rightarrow> nat) \<Rightarrow> h2_event list \<Rightarrow> h2_conn \<Rightarrow> nat" where
  "over_run q [] c = 0"
| "over_run q (ev # es) c = q ev c + over_run q es (h2_step ev c)"

definition receive_ledger :: "h2_conn \<Rightarrow> int" where
  "receive_ledger c = c_connRecvWindow c - int (updates0 (c_out c)) - int (c_connConsumed c)"

definition send_ledger :: "h2_conn \<Rightarrow> int" where
  "send_ledger c = c_connSendWindow c + int (data_sent (c_out c))"

definition moves :: "h2_event \<Rightarrow> h2_conn \<Rightarrow> h2_conn \<Rightarrow> bool" where
  "moves ev c c' \<longleftrightarrow> receive_ledger c' = receive_ledger c - int (used_credit ev c)
     \<and> send_ledger c' = send_ledger c + int (granted_credit ev c)
     \<and> (0 \<le> c_connSendWindow c \<longrightarrow> 0 \<le> c_connSendWindow c')"

lemma quiet_moves:
  "quiet I H c c' \<Longrightarrow> used_credit ev c = 0 \<Longrightarrow> granted_credit ev c = 0 \<Longrightarrow> moves ev c c'"
  by (simp add: quiet_def ledger_def moves_def receive_ledger_def send_ledger_def)

lemma dispatch_by_type_moves:
  assumes "h2_ok c" "plain_turn c"
  shows "moves (Received (Inr (Some f))) c (dispatch_by_type f c)"
proof -
  let ?ev = "Received (Inr (Some f))"
  consider (data) "ftype f = FRAME_DATA" "fstream f \<noteq> 0" | (update) "ftype f = FRAME_WINDOW_UPDATE" "fstream f = 0"
    | (other) "\<not> (ftype f = FRAME_DATA \<and> fstream f \<noteq> 0)" "\<not> (ftype f = FRAME_WINDOW_UPDATE \<and> fstream f = 0)"
    by metis
  then show ?thesis
  proof cases
    case data
    then show ?thesis using quiet_onData [OF assms(1) data(2), of "fpayload f" "fflags f"] assms(2)
      by (auto simp: dispatch_by_type_def Let_def moves_def quiet_def ledger_def receive_ledger_def send_ledger_def)
  next
    case update
    then have d: "dispatch_by_type f c = onWindowUpdate 0 (fpayload f) c" by (simp add: dispatch_by_type_def Let_def)
    show ?thesis
    proof (cases "parseWindowUpdate (fpayload f)")
      case (Inl e)
      from quiet_bad_window_update [OF this, of c] show ?thesis unfolding d
        by (rule quiet_moves) (simp_all add: Inl update)
    next
      case (Inr n)
      from quiet_window_update0 [OF this, of c] update assms(2) show ?thesis unfolding d
        by (auto simp: moves_def quiet_def ledger_def receive_ledger_def send_ledger_def Inr)
    qed
  next
    case other
    have "quiet UNIV UNIV c (dispatch_by_type f c)"
      using other unfolding dispatch_by_type_def Let_def
      by (auto intro!: quiet_onSettings quiet_onHeaders quiet_onWindowUpdate quiet_onRstStream quiet_onPing
          quiet_onGoaway quiet_die simp: onData_def)
    then show ?thesis by (rule quiet_moves) (use other in auto)
  qed
qed

lemma read_turn_moves:
  assumes "h2_ok c"
  shows "moves (Received r) c (read_turn r c)"
proof -
  have die: "moves (Received r) c (die x c)" if "\<forall>f. r \<noteq> Inr (Some f)" for x
  proof (rule quiet_moves [OF quiet_die [OF quiet_refl, of UNIV UNIV]])
    show "used_credit (Received r) c = 0" "granted_credit (Received r) c = 0"
      using that by (cases r; cases "projr r"; simp)+
  qed
  consider (err) e where "r = Inl e" | (eof) "r = Inr None" | (frame) f where "r = Inr (Some f)"
    by (cases r; cases "projr r") auto
  then show ?thesis
  proof cases
    case frame
    show ?thesis
    proof (cases "plain_turn c")
      case True
      then have "read_turn r c = dispatch_by_type f c"
        by (simp add: frame read_turn_def plain_turn_def dispatchFrame_def)
      with dispatch_by_type_moves [OF assms True, of f] show ?thesis by (simp add: frame)
    next
      case False
      have s: "dispatch_by_type f d = onSettings (fflags f) (fstream f) (fpayload f) d" if "ftype f = FRAME_SETTINGS" for d
        using that by (simp add: dispatch_by_type_def Let_def)
      have "quiet UNIV UNIV c (read_turn r c)"
        using False unfolding frame read_turn_def plain_turn_def dispatchFrame_def
        by (auto split: option.split simp: s intro!: quiet_die quiet_onContinuation quiet_onSettings)
      then show ?thesis by (rule quiet_moves) (simp_all add: frame False)
    qed
  qed (use die in \<open>auto simp: read_turn_def\<close>)
qed

subsection \<open>Sending\<close>

lemma send_body_cases:
  assumes "s_sender (c_objs c i) = Ready rest"
  obtains (finish) "rest = [] \<or> s_closed (c_objs c i) \<or> s_cancelled (c_objs c i)"
      "send_body i c = modify i (\<lambda>s. s\<lparr>s_sender := NoSender\<rparr>) c"
    | (dead) e where "send_body i c = failStream i e (modify i (\<lambda>s. s\<lparr>s_sender := NoSender\<rparr>) c)" "c_fatal c = Some e"
    | (block) "rest \<noteq> []" "\<not> s_closed (c_objs c i)" "\<not> s_cancelled (c_objs c i)" "c_fatal c = None"
        "s_sendWindow (c_objs c i) \<le> 0 \<or> c_connSendWindow c \<le> 0"
        "send_body i c = (modify i (\<lambda>s. s\<lparr>s_sender := Blocked rest, s_sendWaiters := s_sendWaiters s @ [i]\<rparr>) c)
           \<lparr>c_connSendWaiters := c_connSendWaiters c @ [i]\<rparr>"
    | (send) n where "n \<le> length rest" "int n \<le> s_sendWindow (c_objs c i)" "int n \<le> c_connSendWindow c"
        "n \<le> c_peerMaxFrameSize c" "0 < c_peerMaxFrameSize c \<longrightarrow> 0 < n" "\<not> s_closed (c_objs c i)"
        "\<not> s_cancelled (c_objs c i)"
        "send_body i c = emit [OData i (take n rest) (drop n rest = [])]
           ((modify i (\<lambda>s. s\<lparr>s_sender := Writing (drop n rest), s_sendWindow := s_sendWindow s - int n\<rparr>) c)
              \<lparr>c_connSendWindow := c_connSendWindow c - int n\<rparr>)"
proof -
  let ?s = "c_objs c i"
  define room where "room = min (s_sendWindow ?s) (c_connSendWindow c)"
  define n where "n = min (min (nat room) (c_peerMaxFrameSize c)) (length rest)"
  have eq: "send_body i c =
      (if rest = [] \<or> s_closed ?s \<or> s_cancelled ?s then modify i (\<lambda>s. s\<lparr>s_sender := NoSender\<rparr>) c
       else if room \<le> 0 then
         (case c_fatal c of
            Some e \<Rightarrow> failStream i e (modify i (\<lambda>s. s\<lparr>s_sender := NoSender\<rparr>) c)
          | None \<Rightarrow> (modify i (\<lambda>s. s\<lparr>s_sender := Blocked rest, s_sendWaiters := s_sendWaiters s @ [i]\<rparr>) c)
              \<lparr>c_connSendWaiters := c_connSendWaiters c @ [i]\<rparr>)
       else emit [OData i (take n rest) (drop n rest = [])]
           ((modify i (\<lambda>s. s\<lparr>s_sender := Writing (drop n rest), s_sendWindow := s_sendWindow s - int n\<rparr>) c)
              \<lparr>c_connSendWindow := c_connSendWindow c - int n\<rparr>))"
    unfolding send_body_def assms Let_def room_def n_def by (simp only: sender.case)
  show thesis
  proof (cases "rest = [] \<or> s_closed ?s \<or> s_cancelled ?s")
    case True
    with eq have "send_body i c = modify i (\<lambda>s. s\<lparr>s_sender := NoSender\<rparr>) c" by simp
    with True show thesis by (rule finish)
  next
    case live: False
    then have parts: "rest \<noteq> []" "\<not> s_closed ?s" "\<not> s_cancelled ?s" by simp_all
    show thesis
    proof (cases "room \<le> 0")
      case True
      then have w: "s_sendWindow ?s \<le> 0 \<or> c_connSendWindow c \<le> 0" by (simp add: room_def min_le_iff_disj)
      show thesis
      proof (cases "c_fatal c")
        case None
        show thesis by (rule block [OF parts None w]) (simp only: eq live if_False True if_True None option.case)
      next
        case (Some e)
        show thesis by (rule dead [OF _ Some]) (simp only: eq live if_False True if_True Some option.case)
      qed
    next
      case False
      have n: "n \<le> length rest" "n \<le> c_peerMaxFrameSize c" "n \<le> nat room" by (simp_all add: n_def)
      then have "int n \<le> room" using False by linarith
      then have w: "int n \<le> s_sendWindow ?s" "int n \<le> c_connSendWindow c" by (simp_all add: room_def)
      have "0 < length rest" "0 < nat room" using parts(1) False by simp_all
      then have pos: "0 < c_peerMaxFrameSize c \<longrightarrow> 0 < n" by (simp add: n_def)
      show thesis by (rule send [OF n(1) w n(2) pos parts(2,3)]) (simp only: eq live if_False False)
    qed
  qed
qed

lemma send_body_moves:
  "receive_ledger (send_body i c) = receive_ledger c \<and> send_ledger (send_body i c) = send_ledger c
    \<and> (0 \<le> c_connSendWindow c \<longrightarrow> 0 \<le> c_connSendWindow (send_body i c))"
proof (cases "s_sender (c_objs c i)")
  case (Ready rest)
  then show ?thesis
  proof (cases rule: send_body_cases)
    case (dead e)
    have "quiet UNIV UNIV c (send_body i c)" unfolding dead
      by (auto intro!: quiet_failStream quiet_modify simp: quiet_stream_def)
    then show ?thesis by (simp add: quiet_def ledger_def receive_ledger_def send_ledger_def)
  qed (simp_all add: receive_ledger_def send_ledger_def)
qed (simp_all add: send_body_def)

lemma sendHeaderBlock_moves: "quiet I H c d \<Longrightarrow> quiet I H c (sendHeaderBlock i b e d)"
proof -
  have "updates0 (continuation_frames m i r) = 0 \<and> data_sent (continuation_frames m i r) = 0" for m r
    by (induction m i r rule: continuation_frames.induct) (subst (1 2) continuation_frames.simps, simp)
  then show "quiet I H c d \<Longrightarrow> quiet I H c (sendHeaderBlock i b e d)"
    unfolding sendHeaderBlock_def Let_def by (auto intro!: quiet_emit)
qed

text \<open>A request before its body is sent.\<close>

lemma request_moves:
  "receive_ledger (snd (request rq c)) = receive_ledger c \<and> send_ledger (snd (request rq c)) = send_ledger c
    \<and> (0 \<le> c_connSendWindow c \<longrightarrow> 0 \<le> c_connSendWindow (snd (request rq c)))"
proof -
  let ?i = "c_nextStreamId c"
  let ?c1 = "createStream ?i (rq_method rq) (c\<lparr>c_nextStreamId := ?i + 2\<rparr>)"
  have same: "receive_ledger ?c1 = receive_ledger c \<and> send_ledger ?c1 = send_ledger c
      \<and> c_connSendWindow ?c1 = c_connSendWindow c"
    by (simp add: createStream_def receive_ledger_def send_ledger_def)
  have q: "receive_ledger d = receive_ledger c \<and> send_ledger d = send_ledger c \<and> c_connSendWindow d = c_connSendWindow c"
    if "quiet UNIV UNIV ?c1 d" for d
    using that same by (simp add: quiet_def ledger_def receive_ledger_def send_ledger_def)
  have m: "quiet UNIV UNIV ?c1 d \<Longrightarrow> quiet UNIV UNIV ?c1 (modify ?i f d)" for f d
    by (rule quiet_modify) (simp_all add: quiet_stream_def)
  have "quiet UNIV UNIV ?c1 (resetStream ?i H2_CANCEL r ?c1)" for r by (rule quiet_resetStream) simp
  note q1 = q [OF this]
  have q2: "quiet UNIV UNIV ?c1 (modify ?i f (sendHeaderBlock ?i b e (modify ?i g ?c1)))" for f g b e
    by (intro m sendHeaderBlock_moves) simp
  have q3: "quiet UNIV UNIV ?c1 (modify ?i h (modify ?i f (sendHeaderBlock ?i b e (modify ?i g ?c1))))" for f g h b e
    by (intro m sendHeaderBlock_moves) simp
  show ?thesis
    using q1 q [OF q2] q [OF q3] send_body_moves [of ?i] same
    by (auto simp: request_def Let_def split: option.split)
qed

lemma h2_step_moves:
  assumes "h2_ok c"
  shows "moves ev c (h2_step ev c)"
proof (cases ev)
  case (Received r)
  then show ?thesis using read_turn_moves [OF assms] by simp
next
  case (Request rq)
  then show ?thesis using request_moves [of rq c] by (simp add: moves_def)
next
  case (Pull i)
  have m: "quiet UNIV UNIV c d \<Longrightarrow> quiet UNIV UNIV c (modify i f d)" for f d
    by (rule quiet_modify) (simp_all add: quiet_stream_def)
  have "quiet UNIV UNIV c (h2_step ev c)"
  proof (cases "handed_out c i")
    case True
    then have "s_id (c_objs c i) \<noteq> 0"
      using opened_id [OF assms handed_out_opened] opened_nonzero [OF handed_out_opened] by simp
    then show ?thesis using True Pull
      by (auto simp: h2_body_pull_def Let_def consumeStream_def split: list.split option.split
          intro!: m quiet_replenishConn quiet_replenish)
  qed (simp add: Pull)
  then show ?thesis by (rule quiet_moves) (simp_all add: Pull)
next
  case (CancelBody i)
  have "quiet UNIV UNIV c (h2_step ev c)"
    by (auto simp: CancelBody h2_body_cancel_def intro!: quiet_intros quiet_modify simp: quiet_stream_def)
  then show ?thesis by (rule quiet_moves) (simp_all add: CancelBody)
next
  case (Abort i e)
  have "quiet UNIV UNIV c (h2_step ev c)" by (auto simp: Abort on_abort_def intro!: quiet_resetStream)
  then show ?thesis by (rule quiet_moves) (simp_all add: Abort)
next
  case (RunSender i)
  then show ?thesis using send_body_moves [of i c] by (simp add: moves_def)
next
  case (BodyWritten i)
  have q: "quiet UNIV UNIV c d \<Longrightarrow> receive_ledger d = receive_ledger c \<and> send_ledger d = send_ledger c
      \<and> c_connSendWindow d = c_connSendWindow c" for d
    by (simp add: quiet_def ledger_def receive_ledger_def send_ledger_def)
  have q1: "quiet UNIV UNIV c (maybeCloseStream i (modify i f c))" "quiet UNIV UNIV c (modify i f c)" for f
    by (auto intro!: quiet_maybeClose quiet_modify simp: quiet_stream_def)
  have "receive_ledger (body_written i c) = receive_ledger c \<and> send_ledger (body_written i c) = send_ledger c
      \<and> (0 \<le> c_connSendWindow c \<longrightarrow> 0 \<le> c_connSendWindow (body_written i c))"
    using q [OF q1(1)] q [OF q1(2)] send_body_moves [of i] by (simp add: body_written_def split: sender.split)
  then show ?thesis by (simp add: BodyWritten moves_def)
next
  case (BodyWriteFailed i e)
  have "quiet UNIV UNIV c (h2_step ev c)"
    by (auto simp: BodyWriteFailed body_write_failed_def split: sender.split
        intro!: quiet_failStream quiet_modify simp: quiet_stream_def)
  then show ?thesis by (rule quiet_moves) (simp_all add: BodyWriteFailed)
next
  case CloseConnection
  have "quiet UNIV UNIV c (h2_step ev c)" by (simp add: CloseConnection quiet_close)
  then show ?thesis by (rule quiet_moves) (simp_all add: CloseConnection)
qed

lemma h2_run_moves:
  "h2_ok c \<Longrightarrow> receive_ledger (h2_run es c) = receive_ledger c - int (over_run used_credit es c)
     \<and> send_ledger (h2_run es c) = send_ledger c + int (over_run granted_credit es c)
     \<and> (0 \<le> c_connSendWindow c \<longrightarrow> 0 \<le> c_connSendWindow (h2_run es c))"
proof (induction es arbitrary: c)
  case (Cons ev es)
  from Cons.IH [OF h2_step_ok [OF Cons.prems]] h2_step_moves [OF Cons.prems, of ev]
  show ?case by (auto simp: moves_def)
qed simp

lemma ledgers_new:
  "send_ledger (new_Http2Connection opts) = 65535" "c_connSendWindow (new_Http2Connection opts) = 65535"
  "op_connectionWindow opts = None \<or> (\<exists>w. op_connectionWindow opts = Some w \<and> 65535 \<le> w) \<Longrightarrow>
   receive_ledger (new_Http2Connection opts) = 65535"
  by (auto simp: new_Http2Connection_def sendPreface_def Let_def send_ledger_def receive_ledger_def)

end
