(* ===== verification/Http2_Bodies.thy ===== *)
theory Http2_Bodies
  imports Http2_Traffic
begin

text \<open>
  The octets of response bodies: what a consumer has drawn, what is queued and what the stream
  counted as received; no event moves octets between streams.
\<close>

subsection \<open>Streams that an operation leaves alone\<close>

definition keeps :: "nat \<Rightarrow> h2_conn \<Rightarrow> h2_conn \<Rightarrow> bool" where
  "keeps i c c' \<longleftrightarrow> c_nextStreamId c' = c_nextStreamId c
     \<and> s_responseReceived (c_objs c' i) = s_responseReceived (c_objs c i)
     \<and> s_recvQueue (c_objs c' i) = s_recvQueue (c_objs c i)
     \<and> s_receivedLength (c_objs c' i) = s_receivedLength (c_objs c i)
     \<and> (s_bodyError (c_objs c i) \<noteq> None \<longrightarrow> s_bodyError (c_objs c' i) \<noteq> None)"

lemma keeps_refl [simp]: "keeps i c c"
  by (simp add: keeps_def)

lemma keeps_trans: "keeps i c c1 \<Longrightarrow> keeps i c1 c2 \<Longrightarrow> keeps i c c2"
  by (simp add: keeps_def)

lemma quiet_keeps: "quiet I H c c' \<Longrightarrow> i \<notin> I \<Longrightarrow> keeps i c c'"
  by (auto simp: quiet_def quiet_stream_def keeps_def body_view_def)

lemma keeps_from:
  "keeps i c1 c' \<Longrightarrow> c_nextStreamId c1 = c_nextStreamId c \<Longrightarrow> c_objs c1 = c_objs c \<Longrightarrow> keeps i c c'"
  by (simp add: keeps_def)

definition body_ledger :: "nat \<Rightarrow> nat \<Rightarrow> h2_conn \<Rightarrow> bool" where
  "body_ledger i d c \<longleftrightarrow>
     (\<not> opened c i \<longrightarrow> d = 0)
     \<and> (opened c i \<longrightarrow> \<not> s_responseReceived (c_objs c i) \<longrightarrow>
          s_recvQueue (c_objs c i) = [] \<and> s_receivedLength (c_objs c i) = 0 \<and> d = 0)
     \<and> (opened c i \<longrightarrow> s_bodyError (c_objs c i) = None \<longrightarrow>
          s_receivedLength (c_objs c i) = d + length (concat (s_recvQueue (c_objs c i))))"

lemma keeps_ledger: "keeps i c c' \<Longrightarrow> body_ledger i d c \<Longrightarrow> body_ledger i d c'"
  by (auto simp: keeps_def body_ledger_def opened_def)

lemma ledger_failed:
  "opened c i \<Longrightarrow> s_responseReceived (c_objs c i) \<Longrightarrow> s_bodyError (c_objs c i) \<noteq> None \<Longrightarrow> body_ledger i d c"
  unfolding body_ledger_def by blast

lemma rejectStream_error: "s_bodyError (c_objs (rejectStream i e c) i) \<noteq> None"
  by (simp add: rejectStream_def reject_promises_def split: option.split)

lemma resetStream_error: "s_bodyError (c_objs (resetStream i k e c) i) \<noteq> None"
  unfolding resetStream_def by (rule rejectStream_error)

subsection \<open>Frames\<close>

lemma deliverResponseHead_ledger:
  assumes "body_ledger i d c" "opened c i" "\<not> s_responseReceived (c_objs c i)"
  shows "body_ledger i d (deliverResponseHead i pairs b c)"
proof (cases "parseResponseHeaders pairs")
  case (Inl e)
  then show ?thesis using keeps_ledger [OF quiet_keeps [OF quiet_resetStream [OF quiet_refl, of "{}" UNIV]] assms(1)]
    by (simp add: deliverResponseHead_def)
next
  case (Inr h)
  define c1 where "c1 = modify i (\<lambda>s. s\<lparr>s_responseReceived := True, s_status := h2_status h,
      s_declaredLength := contentLengthOf (h2_headers h)\<rparr>) c"
  define c2 where "c2 = modify i (\<lambda>s. s\<lparr>s_receivedLength := 0\<rparr>) c1"
  have l: "s_recvQueue (c_objs c i) = []" "s_receivedLength (c_objs c i) = 0" "d = 0"
    using assms by (simp_all add: body_ledger_def)
  have l1: "body_ledger i d c1" and l2: "body_ledger i d c2"
    using assms(2) l by (simp_all add: body_ledger_def c1_def c2_def)
  let ?f = "\<lambda>s. s\<lparr>s_head := settle (Resolved h) (s_head s)\<rparr>"
  let ?g = "\<lambda>s. s\<lparr>s_completed := settle (Resolved True) (s_completed s), s_trailers := settle (Resolved None) (s_trailers s)\<rparr>"
  have m: "quiet {} UNIV a e \<Longrightarrow> quiet {} UNIV a (modify i ?f e)" "quiet {} UNIV a e \<Longrightarrow> quiet {} UNIV a (modify i ?g e)" for a e
    by (auto intro!: quiet_modify simp: quiet_stream_def)
  have "quiet {} UNIV c2 (case endRecv i c2 of (False, c3) \<Rightarrow> c3
      | (True, c3) \<Rightarrow> maybeCloseStream i (modify i ?f (wakePull i (modify i ?g c3))))"
    using quiet_endRecv [of "{}" UNIV c2 c2 i, OF quiet_refl]
    by (cases "endRecv i c2"; cases "fst (endRecv i c2)") (auto intro!: quiet_maybeClose quiet_wakePull m)
  then have e2: "body_ledger i d (case endRecv i c2 of (False, c3) \<Rightarrow> c3
      | (True, c3) \<Rightarrow> maybeCloseStream i (modify i ?f (wakePull i (modify i ?g c3))))"
    using keeps_ledger [OF quiet_keeps l2] by blast
  have h2: "body_ledger i d (modify i ?f c2)"
    using keeps_ledger [OF quiet_keeps [OF m(1) [OF quiet_refl]] l2] by simp
  have r: "body_ledger i d (resetStream i k e a)" if "body_ledger i d a" for k e a
    using keeps_ledger [OF quiet_keeps [OF quiet_resetStream [OF quiet_refl, of "{}" UNIV]] that] by simp
  show ?thesis
    using Inr e2 h2 r [OF l1] r [OF assms(1)] assms(1)
    unfolding deliverResponseHead_def Let_def by (simp add: c1_def [symmetric] c2_def [symmetric])
qed

lemma deliverTrailers_keeps: "keeps i c (deliverTrailers j pairs b c)"
proof -
  have m: "keeps i c (modify j (\<lambda>s. s\<lparr>s_trailerFields := t\<rparr>) c)" for t by (simp add: keeps_def)
  have "quiet {} UNIV a (case endRecv j a of (False, c1) \<Rightarrow> c1 | (True, c1) \<Rightarrow> maybeCloseStream j (wakePull j c1))" for a
    by (rule quiet_end_stream) simp
  then have e: "keeps i a (case endRecv j a of (False, c1) \<Rightarrow> c1 | (True, c1) \<Rightarrow> maybeCloseStream j (wakePull j c1))" for a
    by (rule quiet_keeps) simp
  have r: "keeps i c (resetStream j k e c)" for k e
    by (rule quiet_keeps [OF quiet_resetStream [OF quiet_refl, of "{}" UNIV]]) simp
  show ?thesis unfolding deliverTrailers_def using r keeps_trans [OF m e] by (auto split: sum.split)
qed

lemma completeHeaderBlock_ledger:
  assumes "body_ledger i d c" "h2_ok c"
  shows "body_ledger i d (completeHeaderBlock j block b c)"
proof -
  obtain r dec where h: "hpack_decode block (c_decoder c) = (r, dec)" by (cases "hpack_decode block (c_decoder c)")
  let ?c = "c\<lparr>c_decoder := dec\<rparr>"
  have l: "body_ledger i d ?c" and ok: "h2_ok ?c" using assms by (simp_all add: body_ledger_def opened_def)
  have die: "body_ledger i d (die x ?c)" for x
    by (rule keeps_ledger [OF quiet_keeps [OF quiet_die [OF quiet_refl, of "{}" UNIV]] l]) simp
  have head: "body_ledger i d (deliverResponseHead j pairs b ?c)"
    if "j \<in> set (c_live ?c)" "\<not> s_responseReceived (c_objs ?c j)" for pairs
  proof (cases "j = i")
    case True
    then show ?thesis using deliverResponseHead_ledger [OF l] h2_ok_live [OF ok that(1)] that(2) by simp
  next
    case False
    then show ?thesis
      using keeps_ledger [OF quiet_keeps [OF quiet_deliverResponseHead [of j "{j}" UNIV ?c ?c]] l, of pairs b] by simp
  qed
  show ?thesis
    using h die head keeps_ledger [OF deliverTrailers_keeps l] l
    by (auto simp: completeHeaderBlock_def Let_def split: sum.split)
qed

lemma accept_data_ledger:
  assumes "body_ledger i d c" "opened c i" "s_responseReceived (c_objs c i)" "s_id (c_objs c i) \<noteq> 0"
  shows "body_ledger i d (accept_data flags i n data c)"
proof -
  define c1 where "c1 = (if n - length data > 0
      then replenish i (n - length data) (replenishConn (n - length data) c) else c)"
  have "quiet {} UNIV c c1" unfolding c1_def
    using assms(4) by (auto intro!: quiet_replenish quiet_replenishConn)
  then have k1: "keeps i c c1" by (rule quiet_keeps) simp
  then have l1: "body_ledger i d c1" and o1: "opened c1 i" "s_responseReceived (c_objs c1 i)"
    using keeps_ledger assms by (auto simp: keeps_def opened_def)
  define c2 where "c2 = modify i (\<lambda>s. s\<lparr>s_receivedLength := s_receivedLength s + length data\<rparr>) c1"
  define c3 where "c3 = (if length data > 0
      then wakePull i (modify i (\<lambda>s. s\<lparr>s_recvQueue := s_recvQueue s @ [data]\<rparr>) c2) else c2)"
  have "keeps i c2 (resetStream i k e c2)" for k e
    by (rule quiet_keeps [OF quiet_resetStream [OF quiet_refl, of "{}" UNIV]]) simp
  then have over: "body_ledger i d (resetStream i k e c2)" for k e
    using o1 resetStream_error by (intro ledger_failed) (auto simp: keeps_def opened_def c2_def)
  have l3: "body_ledger i d c3" using l1 o1 by (auto simp: body_ledger_def c3_def c2_def)
  have "quiet {} UNIV c3 (case endRecv i c3 of (False, c4) \<Rightarrow> c4 | (True, c4) \<Rightarrow> maybeCloseStream i (wakePull i c4))"
    by (rule quiet_end_stream) simp
  then have "body_ledger i d (case endRecv i c3 of (False, c4) \<Rightarrow> c4 | (True, c4) \<Rightarrow> maybeCloseStream i (wakePull i c4))"
    using keeps_ledger [OF quiet_keeps l3] by blast
  with l3 over show ?thesis
    unfolding accept_data_def Let_def c1_def [symmetric] c2_def [symmetric] c3_def [symmetric] by auto
qed

lemma onData_ledger:
  assumes "body_ledger i d c" "h2_ok c"
  shows "body_ledger i d (onData flags j payload c)"
proof (cases "j = i \<and> i \<noteq> 0")
  case False
  show ?thesis
  proof (cases "j = 0")
    case True
    then show ?thesis
      using keeps_ledger [OF quiet_keeps [OF quiet_die [OF quiet_refl, of "{}" UNIV]] assms(1)] by (simp add: onData_def)
  next
    case j: False
    then have "i \<notin> {j}" using False by auto
    then have "keeps i (c\<lparr>c_connRecvWindow := c_connRecvWindow c - int (length payload)\<rparr>) (onData flags j payload c)"
      by (rule quiet_keeps [OF quiet_onData [OF assms(2) j]])
    then have "keeps i c (onData flags j payload c)" by (rule keeps_from) simp_all
    then show ?thesis by (rule keeps_ledger [OF _ assms(1)])
  qed
next
  case True
  define c1 where "c1 = c\<lparr>c_connRecvWindow := c_connRecvWindow c - int (length payload)\<rparr>"
  define c2 where "c2 = modify i (\<lambda>s. s\<lparr>s_recvWindow := s_recvWindow s - int (length payload)\<rparr>) c1"
  have l1: "body_ledger i d c1" and ok1: "h2_ok c1" using assms by (simp_all add: body_ledger_def opened_def c1_def)
  have k2: "keeps i c1 c2" by (simp add: c2_def keeps_def)
  note l2 = keeps_ledger [OF k2 l1]
  have q: "body_ledger i d e" if "quiet {} UNIV a e" "body_ledger i d a" for a e
    using keeps_ledger [OF quiet_keeps [OF that(1)] that(2)] by simp
  have acc: "body_ledger i d (accept_data flags i n data c2)"
    if "i \<in> set (c_live c1)" "s_responseReceived (c_objs c1 i)" for n data
    using h2_ok_live [OF ok1 that(1)] that(2) opened_id [OF ok1] True
    by (intro accept_data_ledger [OF l2]) (simp_all add: c2_def)
  show ?thesis
    using True l1 acc q [OF quiet_die [OF quiet_refl] l1] q [OF quiet_replenishConn [OF quiet_refl] l1]
      q [OF quiet_resetStream [OF quiet_refl] l1] q [OF quiet_resetStream [OF quiet_refl] l2]
    unfolding conjunct1 [OF True] onData_def Let_def c1_def [symmetric] c2_def [symmetric] by (auto split: sum.split)
qed

lemma read_turn_ledger:
  assumes "body_ledger i d c" "h2_ok c"
  shows "body_ledger i d (read_turn r c)"
proof -
  have q: "body_ledger i d e" if "quiet {} UNIV a e" "body_ledger i d a" for a e
    using keeps_ledger [OF quiet_keeps [OF that(1)] that(2)] by simp
  have flags: "body_ledger i d (a\<lparr>c_continuation := k\<rparr>) = body_ledger i d a"
    "body_ledger i d (a\<lparr>c_expectFirstSettings := b\<rparr>) = body_ledger i d a"
    "body_ledger i d (a\<lparr>c_connSendWindow := w\<rparr>) = body_ledger i d a" for a k b w
    by (simp_all add: body_ledger_def opened_def)
  have die: "body_ledger i d (die x a)" if "body_ledger i d a" for x a
    by (rule q [OF quiet_die [OF quiet_refl] that])
  have cap: "body_ledger i d (snd (headerBlockWithinCap k a))" if "body_ledger i d a" for k a
    using die [of "a\<lparr>c_continuation := None\<rparr>"] that by (simp add: headerBlockWithinCap_def flags)
  have headers: "body_ledger i d (onHeaders fl j p a)" if "body_ledger i d a" "h2_ok a" for fl j p a
    unfolding onHeaders_def Let_def
    by (auto split: sum.split intro!: die completeHeaderBlock_ledger cap that simp: flags)
  have cont: "body_ledger i d (onContinuation fl p k a)" if "body_ledger i d a" "h2_ok a" for fl p k a
  proof -
    have ok: "h2_ok (a\<lparr>c_continuation := None\<rparr>)" using h2_ok_no_continuation [OF that(2)] .
    have l: "body_ledger i d (a\<lparr>c_continuation := None\<rparr>)" using that(1) by (simp add: flags)
    show ?thesis using die [OF l] completeHeaderBlock_ledger [OF l ok] that(1)
      by (simp add: onContinuation_def Let_def headerBlockWithinCap_def flags)
  qed
  have settings: "body_ledger i d (onSettings fl j p a)" if "body_ledger i d a" for fl j p a
    by (rule q [OF quiet_onSettings [OF quiet_refl] that])
  have update: "body_ledger i d (onWindowUpdate j p a)" if "body_ledger i d a" for j p a
  proof (cases "j = 0")
    case True
    then show ?thesis
    proof (cases "parseWindowUpdate p")
      case (Inr n)
      have "keeps i (a\<lparr>c_connSendWindow := c_connSendWindow a + int n\<rparr>) (onWindowUpdate 0 p a)"
        by (rule quiet_keeps [OF quiet_window_update0 [OF Inr]]) simp
      then have "keeps i a (onWindowUpdate 0 p a)" by (rule keeps_from) simp_all
      then show ?thesis using keeps_ledger [OF _ that] True by simp
    qed (use that die in \<open>simp add: onWindowUpdate_def\<close>)
  next
    case False
    show ?thesis by (rule q [OF quiet_onWindowUpdate [OF False quiet_refl] that])
  qed
  have by_type: "body_ledger i d (dispatch_by_type f a)" if "body_ledger i d a" "h2_ok a" for f a
    using die [OF that(1)] headers [OF that] settings [OF that(1)] update [OF that(1)] onData_ledger [OF that]
      q [OF quiet_onRstStream [OF quiet_refl] that(1)] q [OF quiet_onPing [OF quiet_refl] that(1)]
      q [OF quiet_onGoaway [OF quiet_refl] that(1)] that(1)
    unfolding dispatch_by_type_def Let_def by simp
  have first: "body_ledger i d (dispatch_by_type f (c\<lparr>c_expectFirstSettings := False\<rparr>))" for f
    by (rule by_type) (use assms in \<open>simp_all add: flags\<close>)
  show ?thesis
    using die [OF assms(1)] by_type [OF assms] cont [OF assms] first assms(1)
    by (simp add: read_turn_def dispatchFrame_def split: sum.split option.split)
qed

subsection \<open>Events\<close>

text \<open>The octets that an event hands to the consumer of stream \<open>i\<close>.\<close>

fun pulled :: "nat \<Rightarrow> h2_event \<Rightarrow> h2_conn \<Rightarrow> bytes" where
  "pulled i (Pull j) c =
     (if j = i \<and> handed_out c i
      then (case fst (h2_body_pull i c) of Some (Enqueue b) \<Rightarrow> b | _ \<Rightarrow> []) else [])"
| "pulled i _ c = []"

definition pulled_length :: "nat \<Rightarrow> h2_event \<Rightarrow> h2_conn \<Rightarrow> nat" where
  "pulled_length i ev c = length (pulled i ev c)"

lemma ledger_step_keeps:
  "body_ledger i d c \<Longrightarrow> keeps i c (h2_step ev c) \<Longrightarrow> pulled i ev c = [] \<Longrightarrow>
   body_ledger i (d + pulled_length i ev c) (h2_step ev c)"
  using keeps_ledger by (simp add: pulled_length_def)

lemma send_body_keeps: "keeps i c (send_body j c)"
proof (cases "s_sender (c_objs c j)")
  case (Ready rest)
  then show ?thesis
  proof (cases rule: send_body_cases)
    case (dead e)
    show ?thesis unfolding dead(1)
      by (rule quiet_keeps [of "{}" UNIV]) (auto intro!: quiet_failStream quiet_modify simp: quiet_stream_def)
  qed (simp_all add: keeps_def)
qed (simp_all add: send_body_def)

lemma request_ledger:
  assumes "body_ledger i d c" "h2_ok c"
  shows "body_ledger i d (snd (request rq c))"
proof -
  let ?n = "c_nextStreamId c"
  define c1 where "c1 = createStream ?n (rq_method rq) (c\<lparr>c_nextStreamId := ?n + 2\<rparr>)"
  have obj: "c_objs c1 = (c_objs c)(?n := new_stream ?n (rq_method rq) (c_ourInitialWindow c) (c_peerInitialWindow c))"
    by (simp add: c1_def createStream_def)
  have odd: "odd ?n" using assms(2) by (simp add: h2_ok_def h2_mid_def table_of_streams_ok_def)
  have "opened c1 i \<longleftrightarrow> opened c i \<or> i = ?n"
    using odd by (auto simp: c1_def createStream_def opened_def) (metis even_Suc less_SucE)
  with assms(1) have l1: "body_ledger i d c1" by (auto simp: body_ledger_def obj new_stream_def opened_def)
  have m: "quiet {} UNIV c1 e \<Longrightarrow> quiet {} UNIV c1 (modify j (\<lambda>s. s\<lparr>s_abortable := b\<rparr>) e)"
    "quiet {} UNIV c1 e \<Longrightarrow> quiet {} UNIV c1 (modify j (\<lambda>s. s\<lparr>s_localEnded := b\<rparr>) e)"
    "quiet {} UNIV c1 e \<Longrightarrow> quiet {} UNIV c1 (modify j (\<lambda>s. s\<lparr>s_sender := x\<rparr>) e)" for j b x e
    by (auto intro!: quiet_modify simp: quiet_stream_def)
  have q: "body_ledger i d e" if "quiet {} UNIV c1 e" for e
    using keeps_ledger [OF quiet_keeps [OF that] l1] by simp
  have send: "body_ledger i d (send_body j e)" if "quiet {} UNIV c1 e" for j e
    using keeps_ledger [OF send_body_keeps q [OF that]] .
  show ?thesis
    using assms(1) unfolding request_def Let_def c1_def [symmetric]
    by (auto split: option.split intro!: q send m quiet_resetStream sendHeaderBlock_moves)
qed

lemma pull_ledger:
  assumes "body_ledger i d c" "h2_ok c"
  shows "body_ledger i (d + pulled_length i (Pull j) c) (h2_step (Pull j) c)"
proof (cases "handed_out c j")
  case False
  then show ?thesis using assms(1) by (auto simp: pulled_length_def)
next
  case True
  then have o: "opened c j" by (rule handed_out_opened)
  have id: "s_id (c_objs c j) \<noteq> 0" using opened_id [OF assms(2) o] opened_nonzero [OF o] by simp
  have m: "keeps k c (modify j (\<lambda>s. s\<lparr>s_completed := x s, s_bodyOpen := b\<rparr>) c)"
    "keeps k c (modify j (\<lambda>s. s\<lparr>s_completed := x s, s_trailers := y s, s_bodyOpen := b\<rparr>) c)"
    "keeps k c (modify j (\<lambda>s. s\<lparr>s_pullWaiter := b\<rparr>) c)" for k x y b
    by (simp_all add: keeps_def)
  show ?thesis
  proof (cases "s_bodyOpen (c_objs c j) \<and> s_recvQueue (c_objs c j) \<noteq> []")
    case False
    have "keeps i c (snd (h2_body_pull j c))"
      using False m by (auto simp: h2_body_pull_def Let_def split: list.split option.split)
    moreover have "pulled i (Pull j) c = []"
      using False by (auto simp: h2_body_pull_def Let_def split: list.split option.split)
    ultimately show ?thesis using ledger_step_keeps [OF assms(1), of "Pull j"] True by simp
  next
    case open1: True
    then obtain ch rest where q: "s_recvQueue (c_objs c j) = ch # rest" by (cases "s_recvQueue (c_objs c j)") auto
    define c1 where "c1 = modify j (\<lambda>s. s\<lparr>s_recvQueue := rest\<rparr>) c"
    have pull: "h2_body_pull j c = (Some (Enqueue ch), consumeStream j (length ch) c1)"
      using open1 q by (simp add: h2_body_pull_def Let_def c1_def)
    have "quiet {} UNIV c1 (consumeStream j (length ch) c1)" unfolding consumeStream_def
      using id by (auto intro!: quiet_replenishConn quiet_replenish simp: c1_def)
    then have k: "keeps i c1 (consumeStream j (length ch) c1)" by (rule quiet_keeps) simp
    have "body_ledger i (d + pulled_length i (Pull j) c) c1"
    proof (cases "j = i")
      case True
      have "fst (h2_body_pull i c) = Some (Enqueue ch)" using pull True by simp
      then show ?thesis using assms(1) o \<open>handed_out c j\<close> q True
        by (auto simp: body_ledger_def pulled_length_def c1_def)
    next
      case False
      then show ?thesis using assms(1) by (auto simp: body_ledger_def pulled_length_def c1_def)
    qed
    from keeps_ledger [OF k this] True show ?thesis by (simp add: pull)
  qed
qed

lemma h2_step_ledger:
  assumes "body_ledger i d c" "h2_ok c"
  shows "body_ledger i (d + pulled_length i ev c) (h2_step ev c)"
proof (cases ev)
  case (Received r)
  then show ?thesis using read_turn_ledger [OF assms] by (simp add: pulled_length_def)
next
  case (Request rq)
  then show ?thesis using request_ledger [OF assms] by (simp add: pulled_length_def)
next
  case (Pull j)
  then show ?thesis using pull_ledger [OF assms] by simp
next
  case (CancelBody j)
  have "keeps i c (h2_step ev c)" by (rule quiet_keeps [of "{}" UNIV])
    (auto simp: CancelBody h2_body_cancel_def intro!: quiet_intros quiet_modify simp: quiet_stream_def)
  then show ?thesis by (rule ledger_step_keeps [OF assms(1)]) (simp add: CancelBody)
next
  case (Abort j e)
  have "keeps i c (h2_step ev c)"
    by (rule quiet_keeps [of "{}" UNIV]) (auto simp: Abort on_abort_def intro!: quiet_resetStream)
  then show ?thesis by (rule ledger_step_keeps [OF assms(1)]) (simp add: Abort)
next
  case (RunSender j)
  have "keeps i c (h2_step ev c)" by (simp add: RunSender send_body_keeps)
  then show ?thesis by (rule ledger_step_keeps [OF assms(1)]) (simp add: RunSender)
next
  case (BodyWritten j)
  have m: "keeps i c (modify j (\<lambda>s. s\<lparr>s_sender := x\<rparr>) c)" for x by (simp add: keeps_def)
  have "keeps i c (maybeCloseStream j (modify j (\<lambda>s. s\<lparr>s_sender := NoSender, s_localEnded := True\<rparr>) c))"
    by (rule quiet_keeps [of "{}" UNIV]) (auto intro!: quiet_maybeClose quiet_modify simp: quiet_stream_def)
  then have "keeps i c (body_written j c)"
    using keeps_trans [OF m send_body_keeps] by (simp add: body_written_def split: sender.split)
  then have "keeps i c (h2_step ev c)" by (simp add: BodyWritten)
  then show ?thesis by (rule ledger_step_keeps [OF assms(1)]) (simp add: BodyWritten)
next
  case (BodyWriteFailed j e)
  have "keeps i c (h2_step ev c)" by (rule quiet_keeps [of "{}" UNIV])
    (auto simp: BodyWriteFailed body_write_failed_def split: sender.split
      intro!: quiet_failStream quiet_modify simp: quiet_stream_def)
  then show ?thesis by (rule ledger_step_keeps [OF assms(1)]) (simp add: BodyWriteFailed)
next
  case CloseConnection
  have "keeps i c (h2_step ev c)" by (rule quiet_keeps [of "{}" UNIV]) (simp_all add: CloseConnection quiet_close)
  then show ?thesis by (rule ledger_step_keeps [OF assms(1)]) (simp add: CloseConnection)
qed

lemma h2_run_ledger:
  "body_ledger i d c \<Longrightarrow> h2_ok c \<Longrightarrow> body_ledger i (d + over_run (pulled_length i) es c) (h2_run es c)"
proof (induction es arbitrary: c d)
  case (Cons ev es)
  from Cons.IH [OF h2_step_ledger [OF Cons.prems] h2_step_ok [OF Cons.prems(2)]]
  show ?case by (simp add: add.assoc)
qed simp

lemma body_ledger_new: "body_ledger i 0 (new_Http2Connection opts)"
  by (auto simp: body_ledger_def opened_def new_Http2Connection_def sendPreface_def Let_def new_stream_def)

text \<open>A body that closes cleanly has the declared length.\<close>

lemma close_has_declared_length:
  assumes "h2_ok c" "body_ledger i d c" "opened c i" "fst (h2_body_pull i c) = Some Close"
    "\<not> body_exempt (c_objs c i)"
  shows "case s_declaredLength (c_objs c i) of CLAbsent \<Rightarrow> True | CLLength n \<Rightarrow> d = n | CLMalformed \<Rightarrow> False"
proof -
  let ?s = "c_objs c i"
  have q: "s_recvQueue ?s = []" "s_bodyError ?s = None" "s_recvEnded ?s"
    using assms(4) by (auto simp: h2_body_pull_def Let_def split: if_splits list.splits option.splits)
  have "stream_ok ?s" using h2_ok_stream [OF assms(1,3)] .
  then have "\<not> length_mismatch ?s" using q assms(5) by (simp add: stream_ok_def)
  moreover have "s_receivedLength ?s = d" using assms(2,3) q by (simp add: body_ledger_def)
  ultimately show ?thesis by (auto simp: length_mismatch_def split: content_length.splits)
qed

subsection \<open>No event moves octets between streams\<close>

text \<open>What a dispatched frame may do to a stream that it does not name.\<close>

lemma dispatch_other_stream:
  assumes "h2_ok c" "j \<noteq> fstream f"
  shows "quiet_stream False False (c_objs c j) (c_objs (dispatchFrame f c) j)"
proof -
  let ?i = "fstream f"
  have q: "quiet_stream False False (c_objs a j) (c_objs e j)" if "quiet {?i} {?i} a e" for a e
    using that assms(2) by (auto simp: quiet_def dest!: spec [of _ j])
  have by_type: "quiet_stream False False (c_objs a j) (c_objs (dispatch_by_type f a) j)" if "h2_ok a" for a
  proof -
    consider (data) "ftype f = FRAME_DATA" "?i \<noteq> 0" | (update) "ftype f = FRAME_WINDOW_UPDATE" "?i = 0"
      | (other) "\<not> (ftype f = FRAME_DATA \<and> ?i \<noteq> 0)" "\<not> (ftype f = FRAME_WINDOW_UPDATE \<and> ?i = 0)"
      by metis
    then show ?thesis
    proof cases
      case data
      have "quiet {?i} {?i} (a\<lparr>c_connRecvWindow := c_connRecvWindow a - int (length (fpayload f))\<rparr>)
          (onData (fflags f) ?i (fpayload f) a)"
        using quiet_onData [OF that data(2)] quiet_mono by blast
      from q [OF this] data show ?thesis by (simp add: dispatch_by_type_def Let_def)
    next
      case update
      then have d: "dispatch_by_type f a = onWindowUpdate 0 (fpayload f) a" by (simp add: dispatch_by_type_def Let_def)
      show ?thesis
      proof (cases "parseWindowUpdate (fpayload f)")
        case (Inl e)
        show ?thesis unfolding d by (rule q [OF quiet_mono [OF quiet_bad_window_update [OF Inl]]]) simp_all
      next
        case (Inr n)
        from q [OF quiet_mono [OF quiet_window_update0 [OF Inr, of a]]] show ?thesis unfolding d by simp
      qed
    next
      case other
      have "quiet {?i} {?i} a (dispatch_by_type f a)"
        using other unfolding dispatch_by_type_def Let_def
        by (auto intro!: quiet_onSettings quiet_onHeaders quiet_onWindowUpdate quiet_onRstStream quiet_onPing
            quiet_onGoaway quiet_die simp: onData_def)
      then show ?thesis by (rule q)
    qed
  qed
  have first: "quiet_stream False False (c_objs c j) (c_objs (dispatch_by_type f (c\<lparr>c_expectFirstSettings := False\<rparr>)) j)"
    using by_type [of "c\<lparr>c_expectFirstSettings := False\<rparr>"] assms(1) by simp
  have cont: "quiet_stream False False (c_objs c j) (c_objs (onContinuation (fflags f) (fpayload f) k c) j)"
    if "?i = k_streamId k" for k
    by (rule q) (use that in \<open>auto intro!: quiet_onContinuation\<close>)
  have die: "quiet_stream False False (c_objs c j) (c_objs (die x c) j)" for x
    by (rule q) (auto intro!: quiet_die)
  show ?thesis using first cont die by_type [OF assms(1)]
    by (simp add: dispatchFrame_def split: option.split)
qed

end
