(* ===== verification/Http2_Sending.thy ===== *)
theory Http2_Sending
  imports Http2_Bodies
begin

text \<open>
  The senders of request bodies are never left waiting while there is room, a header block is cut
  into frames that spell it out, and the read loop does not depend on how the transport cuts the
  stream.
\<close>

subsection \<open>Senders that wait\<close>

text \<open>\<open>waits_ok\<close>: a waiting sender has its promise in the list of the connection, its stream is open and
  one of the two windows is used up. \<open>waits_listed\<close> leaves the windows out.\<close>

definition waits_listed :: "h2_conn \<Rightarrow> bool" where
  "waits_listed c \<longleftrightarrow>
     (\<forall>i rest. s_sender (c_objs c i) = Blocked rest \<longrightarrow> i \<in> set (c_connSendWaiters c) \<and> opened c i)"

definition waits_ok :: "h2_conn \<Rightarrow> bool" where
  "waits_ok c \<longleftrightarrow> waits_listed c
     \<and> (\<forall>i rest. s_sender (c_objs c i) = Blocked rest \<longrightarrow> \<not> s_closed (c_objs c i) \<and> \<not> s_cancelled (c_objs c i)
          \<and> (s_sendWindow (c_objs c i) \<le> 0 \<or> c_connSendWindow c \<le> 0))"

definition none_waits :: "h2_conn \<Rightarrow> bool" where
  "none_waits c \<longleftrightarrow> (\<forall>i rest. s_sender (c_objs c i) \<noteq> Blocked rest)"

lemma none_waits_ok: "none_waits c \<Longrightarrow> waits_ok c"
  by (simp add: none_waits_def waits_ok_def waits_listed_def)

lemma none_listed: "none_waits c \<Longrightarrow> waits_listed c"
  by (simp add: none_waits_def waits_listed_def)

lemma waits_ok_listed: "waits_ok c \<Longrightarrow> waits_listed c"
  by (simp add: waits_ok_def)

text \<open>What the invariant reads of a stream.\<close>

definition send_view :: "h2_stream \<Rightarrow> sender \<times> int \<times> bool \<times> bool" where
  "send_view s = (s_sender s, s_sendWindow s, s_closed s, s_cancelled s)"

definition send_same :: "h2_conn \<Rightarrow> h2_conn \<Rightarrow> bool" where
  "send_same c c' \<longleftrightarrow> c_connSendWaiters c' = c_connSendWaiters c \<and> c_connSendWindow c' = c_connSendWindow c
     \<and> c_nextStreamId c' = c_nextStreamId c \<and> (\<forall>j. send_view (c_objs c' j) = send_view (c_objs c j))"

lemma send_same_cong:
  assumes "send_same c c'"
  shows "waits_ok c' = waits_ok c" "waits_listed c' = waits_listed c" "none_waits c' = none_waits c"
proof -
  have v: "s_sender (c_objs c' j) = s_sender (c_objs c j)" "s_sendWindow (c_objs c' j) = s_sendWindow (c_objs c j)"
    "s_closed (c_objs c' j) = s_closed (c_objs c j)" "s_cancelled (c_objs c' j) = s_cancelled (c_objs c j)" for j
    using assms by (simp_all add: send_same_def send_view_def)
  have o: "opened c' j = opened c j" for j using assms by (simp add: send_same_def opened_def)
  show "waits_ok c' = waits_ok c" "waits_listed c' = waits_listed c" "none_waits c' = none_waits c"
    using assms by (simp_all add: waits_ok_def waits_listed_def none_waits_def v o send_same_def)
qed

lemma send_view_updates [simp]:
  "send_view (s\<lparr>s_pullWaiter := b\<rparr>) = send_view s" "send_view (s\<lparr>s_bodyError := e\<rparr>) = send_view s"
  "send_view (s\<lparr>s_head := h\<rparr>) = send_view s" "send_view (s\<lparr>s_completed := p\<rparr>) = send_view s"
  "send_view (s\<lparr>s_trailers := t\<rparr>) = send_view s" "send_view (s\<lparr>s_rstSent := b\<rparr>) = send_view s"
  "send_view (s\<lparr>s_recvEnded := b\<rparr>) = send_view s" "send_view (s\<lparr>s_trailerFields := f\<rparr>) = send_view s"
  "send_view (s\<lparr>s_recvWindow := w\<rparr>) = send_view s" "send_view (s\<lparr>s_recvConsumed := n\<rparr>) = send_view s"
  "send_view (s\<lparr>s_localEnded := b\<rparr>) = send_view s" "send_view (s\<lparr>s_bodyOpen := b\<rparr>) = send_view s"
  "send_view (s\<lparr>s_abortable := b\<rparr>) = send_view s" "send_view (s\<lparr>s_recvQueue := q\<rparr>) = send_view s"
  "send_view (s\<lparr>s_receivedLength := n\<rparr>) = send_view s" "send_view (s\<lparr>s_responseReceived := b\<rparr>) = send_view s"
  "send_view (s\<lparr>s_status := n\<rparr>) = send_view s" "send_view (s\<lparr>s_declaredLength := l\<rparr>) = send_view s"
  by (simp_all add: send_view_def)

lemma waits_modify [simp]:
  assumes "\<And>s. send_view (f s) = send_view s"
  shows "waits_ok (modify i f c) = waits_ok c" "waits_listed (modify i f c) = waits_listed c"
    "none_waits (modify i f c) = none_waits c"
  by (rule send_same_cong; simp add: send_same_def modify_def assms)+

lemma waits_flags [simp]:
  "waits_ok (c\<lparr>c_fatal := x\<rparr>) = waits_ok c" "waits_ok (c\<lparr>c_closed := b\<rparr>) = waits_ok c"
  "waits_ok (c\<lparr>c_transportClosed := b\<rparr>) = waits_ok c" "waits_ok (c\<lparr>c_onClose := b\<rparr>) = waits_ok c"
  "waits_ok (c\<lparr>c_onCloseCalls := cs\<rparr>) = waits_ok c" "waits_ok (c\<lparr>c_goaway := g\<rparr>) = waits_ok c"
  "waits_ok (c\<lparr>c_continuation := k\<rparr>) = waits_ok c" "waits_ok (c\<lparr>c_decoder := dd\<rparr>) = waits_ok c"
  "waits_ok (c\<lparr>c_expectFirstSettings := b\<rparr>) = waits_ok c" "waits_ok (c\<lparr>c_peerInitialWindow := n\<rparr>) = waits_ok c"
  "waits_ok (c\<lparr>c_peerMaxFrameSize := n\<rparr>) = waits_ok c" "waits_ok (c\<lparr>c_peerMaxConcurrent := m\<rparr>) = waits_ok c"
  "waits_ok (c\<lparr>c_peerHeaderTableSize := n\<rparr>) = waits_ok c" "waits_ok (c\<lparr>c_connRecvWindow := w\<rparr>) = waits_ok c"
  "waits_ok (c\<lparr>c_connConsumed := n\<rparr>) = waits_ok c" "waits_ok (emit fs c) = waits_ok c"
  "none_waits (c\<lparr>c_transportClosed := b\<rparr>) = none_waits c" "none_waits (c\<lparr>c_onClose := b\<rparr>) = none_waits c"
  "none_waits (c\<lparr>c_onCloseCalls := cs\<rparr>) = none_waits c" "none_waits (emit fs c) = none_waits c"
  "waits_listed (c\<lparr>c_connSendWindow := w\<rparr>) = waits_listed c" "waits_listed (emit fs c) = waits_listed c"
  "waits_listed (c\<lparr>c_fatal := x\<rparr>) = waits_listed c" "waits_listed (c\<lparr>c_closed := b\<rparr>) = waits_listed c"
  by (simp_all add: waits_ok_def waits_listed_def none_waits_def opened_def)

lemma waits_wakePull [simp]: "waits_ok (wakePull i c) = waits_ok c" "none_waits (wakePull i c) = none_waits c"
  "waits_listed (wakePull i c) = waits_listed c"
  by (simp_all add: wakePull_def)

lemma wake_none: "waits_listed c \<Longrightarrow> none_waits (wakeSendWaiters t c)"
  by (auto simp: waits_listed_def none_waits_def wakeSendWaiters_eq sender_after_def woken_def split: sender.splits if_splits)

lemma waits_reject [simp]: "waits_ok (rejectStream i e c) = waits_ok c" "none_waits (rejectStream i e c) = none_waits c"
  by (simp_all add: rejectStream_def reject_promises_def)

lemma waits_sendRst [simp]: "waits_ok (sendRst i k c) = waits_ok c" "waits_listed (sendRst i k c) = waits_listed c"
  by (simp_all add: sendRst_def Let_def)

text \<open>Removing an open stream wakes every sender.\<close>

lemma remove_none: "waits_listed c \<Longrightarrow> \<not> s_closed (c_objs c i) \<Longrightarrow> none_waits (removeStream i c)"
proof -
  assume w: "waits_listed c" "\<not> s_closed (c_objs c i)"
  have "waits_listed ((modify i (\<lambda>s. s\<lparr>s_closed := True\<rparr>) c)\<lparr>c_live := removeAll i (c_live c)\<rparr>)"
    using w(1) by (auto simp: waits_listed_def opened_def)
  then show ?thesis using w(2) by (simp add: removeStream_def wake_none)
qed

lemma waits_remove: "waits_ok c \<Longrightarrow> waits_ok (removeStream i c)"
proof (cases "s_closed (c_objs c i)")
  case False
  then show "waits_ok c \<Longrightarrow> waits_ok (removeStream i c)"
    using remove_none [OF waits_ok_listed] by (blast intro: none_waits_ok)
qed (simp add: removeStream_def)

lemma waits_fail: "waits_ok c \<Longrightarrow> waits_ok (failStream i e c)"
  by (simp add: failStream_def waits_remove)

lemma waits_reset: "waits_ok c \<Longrightarrow> waits_ok (resetStream i k e c)"
  by (simp add: resetStream_def waits_remove)

lemma waits_maybeClose: "waits_ok c \<Longrightarrow> waits_ok (maybeCloseStream i c)"
  by (simp add: maybeCloseStream_def waits_remove)

lemma waits_fold: "(\<And>i d. waits_ok d \<Longrightarrow> waits_ok (f i d)) \<Longrightarrow> waits_ok c \<Longrightarrow> waits_ok (fold f xs c)"
  by (induction xs arbitrary: c) auto

lemma waits_fail_all: "waits_ok c \<Longrightarrow> waits_ok (fail_all e c)"
  unfolding fail_all_def by (rule waits_fold) (rule waits_fail)

lemma waits_die: "waits_ok c \<Longrightarrow> waits_ok (die x c)"
  by (simp add: die_def Let_def waits_fail_all)

lemma waits_close: "waits_ok c \<Longrightarrow> waits_ok (close_connection c)"
  by (simp add: close_connection_def Let_def waits_fail_all)

lemma none_fold_fail: "none_waits c \<Longrightarrow> none_waits (fold (\<lambda>i. failStream i e) xs c)"
proof (induction xs arbitrary: c)
  case (Cons i xs)
  have "none_waits (failStream i e c)"
    using Cons.prems remove_none [of c i] by (cases "s_closed (c_objs c i)")
      (simp_all add: failStream_def none_listed, simp add: removeStream_def)
  from Cons.IH [OF this] show ?case by simp
qed simp

text \<open>When the connection dies every sender is woken, whatever the windows were.\<close>

lemma die_none:
  assumes "h2_ok c" "waits_listed c" "c_fatal c = None" "\<And>i rest. s_sender (c_objs c i) = Blocked rest \<Longrightarrow> \<not> s_closed (c_objs c i)"
  shows "none_waits (die x c)"
proof -
  have "none_waits (fail_all e d)" if "c_objs d = c_objs c" "c_live d = c_live c"
    "c_connSendWaiters d = c_connSendWaiters c" "c_nextStreamId d = c_nextStreamId c" for e d
  proof (cases "c_live c")
    case Nil
    have "\<not> opened c i \<or> s_closed (c_objs c i)" for i
      using live_opened [of c i] assms(1) Nil by (auto simp: h2_ok_def)
    then have "none_waits d" using assms(2,4) that by (auto simp: none_waits_def waits_listed_def)
    then show ?thesis using Nil that by (simp add: fail_all_def)
  next
    case (Cons i xs)
    have "\<not> s_closed (c_objs c i)" using h2_ok_live [OF assms(1), of i] Cons by simp
    moreover have "waits_listed d" using assms(2) that by (simp add: waits_listed_def opened_def)
    ultimately have "none_waits (failStream i e d)" using remove_none [of d i] that by (simp add: failStream_def)
    from none_fold_fail [OF this] show ?thesis using Cons that by (simp add: fail_all_def)
  qed
  then show ?thesis using assms(3) by (simp add: die_def Let_def emit_def)
qed

lemma waits_endRecv: "waits_ok c \<Longrightarrow> waits_ok (snd (endRecv i c))"
  by (simp add: endRecv_def waits_reset)

lemma waits_end_stream:
  "waits_ok c \<Longrightarrow> waits_ok (case endRecv i c of (False, c1) \<Rightarrow> c1 | (True, c1) \<Rightarrow> maybeCloseStream i (wakePull i c1))"
  using waits_endRecv [of c i] by (cases "endRecv i c"; cases "fst (endRecv i c)") (auto simp: waits_maybeClose)

lemma waits_deliverTrailers: "waits_ok c \<Longrightarrow> waits_ok (deliverTrailers i pairs b c)"
  unfolding deliverTrailers_def by (auto split: sum.split intro!: waits_reset waits_end_stream)

lemma waits_deliverResponseHead: "waits_ok c \<Longrightarrow> waits_ok (deliverResponseHead i pairs b c)"
proof -
  assume w: "waits_ok c"
  have "waits_ok (case endRecv i e of (False, e1) \<Rightarrow> e1
      | (True, e1) \<Rightarrow> maybeCloseStream i (modify i f (wakePull i (modify i g e1))))"
    if "waits_ok e" "\<And>s. send_view (f s) = send_view s" "\<And>s. send_view (g s) = send_view s" for e f g
    using waits_endRecv [OF that(1), of i] that(2,3)
    by (cases "endRecv i e"; cases "fst (endRecv i e)") (auto simp: waits_maybeClose)
  with w show ?thesis
    unfolding deliverResponseHead_def Let_def by (auto split: sum.split intro!: waits_reset)
qed

lemma waits_completeHeaderBlock: "waits_ok c \<Longrightarrow> waits_ok (completeHeaderBlock i b e c)"
  unfolding completeHeaderBlock_def Let_def
  by (auto split: sum.split prod.split intro!: waits_die waits_deliverTrailers waits_deliverResponseHead)

lemma waits_onHeaders: "waits_ok c \<Longrightarrow> waits_ok (onHeaders flags i payload c)"
  unfolding onHeaders_def Let_def headerBlockWithinCap_def
  by (auto split: sum.split intro!: waits_die waits_completeHeaderBlock)

lemma waits_onContinuation: "waits_ok c \<Longrightarrow> waits_ok (onContinuation flags payload k c)"
  unfolding onContinuation_def Let_def headerBlockWithinCap_def
  by (auto intro!: waits_die waits_completeHeaderBlock)

lemma waits_replenish [simp]: "waits_ok (replenish i n c) = waits_ok c"
  by (simp add: replenish_def Let_def)

lemma waits_replenishConn [simp]: "waits_ok (replenishConn n c) = waits_ok c"
  by (simp add: replenishConn_def Let_def)

lemma waits_accept_data: "waits_ok c \<Longrightarrow> waits_ok (accept_data flags i n data c)"
  unfolding accept_data_def Let_def by (auto intro!: waits_reset waits_end_stream)

lemma waits_onData: "waits_ok c \<Longrightarrow> waits_ok (onData flags i payload c)"
  unfolding onData_def Let_def by (auto split: sum.split intro!: waits_die waits_reset waits_accept_data)

text \<open>Changes of the windows.\<close>

lemma listed_send_window [simp]:
  "waits_listed (modify i (\<lambda>s. s\<lparr>s_sendWindow := f s\<rparr>) c) = waits_listed c"
  unfolding waits_listed_def modify_fields fun_upd_def by (auto split: if_splits)

lemma waits_wake: "waits_listed c \<Longrightarrow> waits_ok (wakeSendWaiters t c)"
  by (intro none_waits_ok wake_none)

lemma waits_shift: "waits_ok c \<Longrightarrow> waits_ok (shift_send_window delta i c)"
proof -
  assume w: "waits_ok c"
  let ?c = "modify i (\<lambda>s. s\<lparr>s_sendWindow := s_sendWindow s + delta\<rparr>) c"
  have "waits_ok ?c" if "\<not> s_sendWindow (c_objs ?c i) > 0"
    using w that by (auto simp: waits_ok_def waits_listed_def opened_def)
  moreover have "waits_ok (wakeSendWaiters (Some i) ?c)"
    using waits_ok_listed [OF w] by (intro waits_wake) simp
  ultimately show ?thesis by (simp add: shift_send_window_def Let_def)
qed

lemma waits_apply_setting: "waits_ok c \<Longrightarrow> waits_ok (snd (apply_setting e c))"
  unfolding apply_setting_def by (auto split: prod.split intro!: waits_die waits_fold waits_shift)

lemma waits_apply_settings: "waits_ok c \<Longrightarrow> waits_ok (snd (apply_settings es c))"
proof (induction es arbitrary: c)
  case (Cons e es)
  from waits_apply_setting [OF Cons.prems, of e] Cons.IH show ?case
    by (cases "apply_setting e c"; cases "fst (apply_setting e c)") auto
qed simp

lemma waits_onSettings: "waits_ok c \<Longrightarrow> waits_ok (onSettings flags i payload c)"
proof -
  assume w: "waits_ok c"
  have "waits_ok (case apply_settings es c of (True, c') \<Rightarrow> c' | (False, c') \<Rightarrow> emit [OSettings [] True] c')" for es
    using waits_apply_settings [OF w, of es] by (cases "apply_settings es c"; cases "fst (apply_settings es c)") auto
  with w show ?thesis unfolding onSettings_def by (auto split: sum.split intro!: waits_die)
qed

lemma waits_onWindowUpdate:
  assumes "waits_ok c" "h2_ok c" "c_fatal c = None"
  shows "waits_ok (onWindowUpdate i payload c)"
proof -
  have l: "waits_listed c" using assms(1) by (rule waits_ok_listed)
  have dead: "waits_ok (die x (c\<lparr>c_connSendWindow := w\<rparr>))" for x w
    using assms l by (intro none_waits_ok die_none) (auto simp: waits_ok_def)
  have "waits_ok (resetStream i k e (modify i (\<lambda>s. s\<lparr>s_sendWindow := s_sendWindow s + n\<rparr>) c))"
    if "i \<in> set (c_live c)" for k e n
  proof -
    have "\<not> s_closed (c_objs c i)" using h2_ok_live [OF assms(2) that] by simp
    then have "none_waits (removeStream i (sendRst i k (modify i (\<lambda>s. s\<lparr>s_sendWindow := s_sendWindow s + n\<rparr>) c)))"
      using l by (intro remove_none) simp_all
    then show ?thesis unfolding resetStream_def by (intro none_waits_ok) simp
  qed
  with assms(1) l dead show ?thesis unfolding onWindowUpdate_def Let_def
    by (auto split: sum.split intro!: waits_die waits_reset waits_wake)
qed

lemma waits_onGoaway: "waits_ok c \<Longrightarrow> waits_ok (onGoaway payload c)"
  unfolding onGoaway_def Let_def by (auto split: sum.split intro!: waits_die waits_fold waits_fail)

lemma waits_dispatch_by_type:
  assumes "waits_ok c" "h2_ok c" "c_fatal c = None"
  shows "waits_ok (dispatch_by_type f c)"
proof -
  have "waits_ok (onRstStream i p c)" for i p
    using assms(1) unfolding onRstStream_def by (auto split: sum.split intro!: waits_die waits_fail)
  moreover have "waits_ok (onPing fl i p c)" for fl i p
    using assms(1) unfolding onPing_def by (auto intro!: waits_die)
  ultimately show ?thesis
    using waits_onWindowUpdate [OF assms] assms(1) waits_die [OF assms(1)] waits_onSettings [OF assms(1)]
      waits_onHeaders [OF assms(1)] waits_onData [OF assms(1)] waits_onGoaway [OF assms(1)]
    unfolding dispatch_by_type_def Let_def by simp
qed

lemma waits_read_turn:
  assumes "waits_ok c" "h2_ok c"
  shows "waits_ok (read_turn r c)"
proof -
  have "waits_ok (dispatchFrame f c)" if "c_fatal c = None" for f
    using waits_dispatch_by_type [of "c\<lparr>c_expectFirstSettings := False\<rparr>" f] waits_dispatch_by_type [OF assms that, of f]
      assms that waits_die [OF assms(1)] waits_onContinuation [OF assms(1)]
    by (simp add: dispatchFrame_def split: option.split)
  with assms(1) waits_die [OF assms(1)] show ?thesis by (simp add: read_turn_def split: sum.split option.split)
qed

lemma waits_send_body:
  assumes "waits_ok c" "opened c i"
  shows "waits_ok (send_body i c)"
proof (cases "s_sender (c_objs c i)")
  case (Ready rest)
  have stop: "waits_ok (modify i (\<lambda>s. s\<lparr>s_sender := NoSender\<rparr>) c)"
    using assms(1) by (auto simp: waits_ok_def waits_listed_def opened_def)
  from Ready show ?thesis
  proof (cases rule: send_body_cases)
    case (dead e)
    then show ?thesis using waits_fail [OF stop] by simp
  next
    case block
    then show ?thesis using assms by (auto simp: waits_ok_def waits_listed_def opened_def)
  next
    case (send n)
    have "waits_ok ((modify i (\<lambda>s. s\<lparr>s_sender := Writing (drop n rest), s_sendWindow := s_sendWindow s - int n\<rparr>) c)
       \<lparr>c_connSendWindow := c_connSendWindow c - int n\<rparr>)"
      using assms(1) by (force simp: waits_ok_def waits_listed_def opened_def)
    then show ?thesis by (simp add: send)
  qed (use stop in simp)
qed (use assms in \<open>simp_all add: send_body_def\<close>)

text \<open>Setting a sender that does not wait.\<close>

lemma waits_set_sender:
  assumes "waits_ok c" "\<And>rest. x \<noteq> Blocked rest"
  shows "waits_ok (modify i (\<lambda>s. s\<lparr>s_sender := x, s_localEnded := b\<rparr>) c)"
    "waits_ok (modify i (\<lambda>s. s\<lparr>s_sender := x\<rparr>) c)"
  using assms by (auto simp: waits_ok_def waits_listed_def opened_def)

lemma waits_createStream:
  assumes "waits_ok c"
  shows "waits_ok (createStream (c_nextStreamId c) m (c\<lparr>c_nextStreamId := c_nextStreamId c + 2\<rparr>))"
  using assms by (auto simp: createStream_def waits_ok_def waits_listed_def opened_def new_stream_def)

lemma waits_sendHeaderBlock [simp]: "waits_ok (sendHeaderBlock i b e c) = waits_ok c"
  by (simp add: sendHeaderBlock_def Let_def)

lemma sendHeaderBlock_next [simp]: "c_nextStreamId (sendHeaderBlock i b e c) = c_nextStreamId c"
  by (simp add: sendHeaderBlock_def Let_def)

lemma waits_request:
  assumes "waits_ok c" "h2_ok c"
  shows "waits_ok (snd (request rq c))"
proof -
  let ?c = "createStream (c_nextStreamId c) (rq_method rq) (c\<lparr>c_nextStreamId := c_nextStreamId c + 2\<rparr>)"
  have c: "waits_ok ?c" using assms(1) by (rule waits_createStream)
  have o: "odd (c_nextStreamId c)" using assms(2) by (simp add: h2_ok_def h2_mid_def table_of_streams_ok_def)
  then have "opened ?c (c_nextStreamId c)" by (simp add: opened_def createStream_def)
  then have "waits_ok (send_body (c_nextStreamId c) (modify (c_nextStreamId c) (\<lambda>s. s\<lparr>s_sender := Ready b\<rparr>)
      (modify (c_nextStreamId c) (\<lambda>s. s\<lparr>s_localEnded := False\<rparr>) (sendHeaderBlock (c_nextStreamId c) blk False
        (modify (c_nextStreamId c) (\<lambda>s. s\<lparr>s_abortable := a\<rparr>) ?c)))))" for b blk a
    using c by (intro waits_send_body waits_set_sender) (simp_all add: opened_def)
  then show ?thesis
    using assms(1) c by (simp add: request_def Let_def waits_reset split: option.split)
qed

lemma waits_body_written: "waits_ok c \<Longrightarrow> opened c i \<Longrightarrow> waits_ok (body_written i c)"
  unfolding body_written_def
  by (auto split: sender.split intro!: waits_maybeClose waits_send_body waits_set_sender simp: opened_def)

lemma waits_body_write_failed: "waits_ok c \<Longrightarrow> waits_ok (body_write_failed i e c)"
  unfolding body_write_failed_def by (auto split: sender.split intro!: waits_fail waits_set_sender)

lemma waits_pull: "waits_ok c \<Longrightarrow> waits_ok (snd (h2_body_pull i c))"
  by (simp add: h2_body_pull_def Let_def consumeStream_def split: list.split option.split)

lemma waits_on_abort: "waits_ok c \<Longrightarrow> waits_ok (on_abort i e c)"
  by (simp add: on_abort_def waits_reset)

lemma waits_cancel:
  assumes "waits_ok c"
  shows "waits_ok (h2_body_cancel i c)"
proof -
  let ?c = "modify i (\<lambda>s. s\<lparr>s_bodyOpen := False, s_cancelled := True,
      s_completed := settle (Resolved False) (s_completed s), s_trailers := settle (Resolved None) (s_trailers s)\<rparr>) c"
  have l: "waits_listed ?c" using assms by (auto simp: waits_ok_def waits_listed_def opened_def)
  show ?thesis
  proof (cases "s_closed (c_objs c i)")
    case True
    then have "waits_ok ?c" using assms by (auto simp: waits_ok_def waits_listed_def opened_def)
    then show ?thesis using assms by (simp add: h2_body_cancel_def waits_remove)
  next
    case False
    then have "none_waits (removeStream i (sendRst i H2_CANCEL ?c))" using l by (intro remove_none) simp_all
    then show ?thesis using assms by (simp add: h2_body_cancel_def none_waits_ok)
  qed
qed

lemma waits_step: "waits_ok c \<Longrightarrow> h2_ok c \<Longrightarrow> waits_ok (h2_step ev c)"
  by (cases ev) (simp_all add: waits_read_turn waits_request waits_pull waits_cancel waits_on_abort waits_send_body
      waits_body_written waits_body_write_failed waits_close)

lemma waits_new: "waits_ok (new_Http2Connection opts)"
  by (rule none_waits_ok)
    (simp add: none_waits_def new_Http2Connection_def sendPreface_def Let_def new_stream_def)

lemma waits_run: "waits_ok c \<Longrightarrow> h2_ok c \<Longrightarrow> waits_ok (h2_run es c)"
  by (induction es arbitrary: c) (simp_all add: waits_step h2_step_ok)

subsection \<open>Header blocks in frames\<close>

fun block_payload :: "out_frame \<Rightarrow> bytes" where
  "block_payload (OHeaders i p es eh prio) = p"
| "block_payload (OContinuation i p eh) = p"
| "block_payload f = []"

fun ends_block :: "out_frame \<Rightarrow> bool" where
  "ends_block (OHeaders i p es eh prio) = eh"
| "ends_block (OContinuation i p eh) = eh"
| "ends_block f = False"

fun block_frames :: "nat \<Rightarrow> bytes \<Rightarrow> bool \<Rightarrow> priority option \<Rightarrow> nat \<Rightarrow> out_frame list" where
  "block_frames i block endStream prio m =
     (if length block \<le> m then [OHeaders i block endStream True prio]
      else OHeaders i (take m block) endStream False prio # continuation_frames m i (drop m block))"

lemma sendHeaderBlock_frames:
  "c_out (sendHeaderBlock i b e c) = c_out c @ block_frames i b e (c_headersPriority c) (c_peerMaxFrameSize c)"
  by (simp add: sendHeaderBlock_def Let_def emit_def)

lemma continuation_frames_spell:
  assumes "0 < m"
  shows "concat (map block_payload (continuation_frames m i rest)) = rest
    \<and> (\<forall>f \<in> set (continuation_frames m i rest). length (block_payload f) \<le> m \<and> (\<exists>p b. f = OContinuation i p b))
    \<and> map ends_block (continuation_frames m i rest)
      = replicate (length (continuation_frames m i rest) - 1) False @ (if rest = [] then [] else [True])"
  using assms
proof (induction m i rest rule: continuation_frames.induct)
  case (1 m i rest)
  show ?case
  proof (cases "rest = []")
    case False
    show ?thesis
    proof (cases "drop m rest = []")
      case True
      then show ?thesis using False "1.prems" by (auto simp: continuation_frames.simps [of m i rest] continuation_frames.simps [of m i "[]"])
    next
      case F: False
      have c: "continuation_frames m i rest = OContinuation i (take m rest) False # continuation_frames m i (drop m rest)"
        using False F "1.prems" by (simp add: continuation_frames.simps [of m i rest])
      have n: "continuation_frames m i (drop m rest) \<noteq> []"
        using F "1.prems" by (simp add: continuation_frames.simps [of m i "drop m rest"])
      show ?thesis using "1.IH" False F "1.prems" n
        by (cases "continuation_frames m i (drop m rest)") (auto simp: c)
    qed
  qed (simp add: continuation_frames.simps)
qed

end
