(* ===== verification/Http2_Loop.thy ===== *)
theory Http2_Loop
  imports Http2_Sending
begin

text \<open>
  \<open>_readLoop\<close> of \<open>src/http2/connection.js\<close>: it returns on every transport, it does not depend on how
  the transport cuts the octets, and its effect is that of the handlers run over the frames the octets
  spell, so every fact about runs of handlers is a fact about it.
\<close>

subsection \<open>Progress\<close>

lemma readFrame_progress:
  assumes "readFrame wire_ops m w = (Inr (Some f), w')"
  shows "length (fst w') + 9 + length (fpayload f) = length (fst w) \<and> length (fpayload f) \<le> m"
proof -
  from assms obtain h w1 where h: "wire_exactly 9 w = (Inr h, w1)"
    by (auto simp: readFrame_def bindA_def catchA_def Let_def split: sum.splits prod.splits if_splits)
  let ?n = "readU24 h 0"
  from assms h have n: "?n \<le> m"
    and b: "(if ?n = 0 then returnA [] else wire_exactly (int ?n)) w1 = (Inr (fpayload f), w')"
    by (auto simp: readFrame_def bindA_def catchA_def Let_def split: sum.splits prod.splits if_splits)
  from wire_exactly_length [OF h] have l: "length h = 9" "length (fst w) = length h + length (fst w1)" by auto
  show ?thesis
  proof (cases "?n = 0")
    case True
    with b l show ?thesis by auto
  next
    case False
    with b have "wire_exactly (int ?n) w1 = (Inr (fpayload f), w')" by simp
    from wire_exactly_length [OF this] have "length (fpayload f) = ?n" "length (fst w1) = length (fpayload f) + length (fst w')"
      by auto
    with l n show ?thesis by simp
  qed
qed

subsection \<open>The frames of a stream\<close>

text \<open>What the reads of the loop return on a flat stream, up to the first that is not a frame.\<close>

function frame_reads :: "wire \<Rightarrow> (tf_error + frame option) list" where
  "frame_reads w =
     (case readFrame wire_ops DEFAULT_MAX_FRAME_SIZE w of
        (Inr (Some f), w') \<Rightarrow> Inr (Some f) # frame_reads w'
      | (r, w') \<Rightarrow> [r])"
  by pat_completeness auto
termination
  by (relation "measure (\<lambda>w. length (fst w))") (auto dest!: readFrame_progress [OF sym])

declare frame_reads.simps [simp del]

lemma die_dead [simp]: "c_fatal c \<noteq> None \<Longrightarrow> die x c = c"
  by (simp add: die_def)

lemma read_turn_dead: "c_fatal c \<noteq> None \<Longrightarrow> read_turn r c = c"
  by (simp add: read_turn_def split: sum.split option.split)

lemma dead_run: "c_fatal c \<noteq> None \<Longrightarrow> h2_run (map Received rs) c = c"
  by (induction rs) (simp_all add: read_turn_dead)

lemma readLoop_flat:
  "length (fst w) div 9 < fuel \<Longrightarrow>
   \<exists>w'. readLoop fuel wire_ops c w = Some (h2_run (map Received (frame_reads w)) c, w')"
proof (induction fuel arbitrary: c w)
  case (Suc fuel)
  obtain r w1 where rd: "readFrame wire_ops DEFAULT_MAX_FRAME_SIZE w = (r, w1)"
    by (cases "readFrame wire_ops DEFAULT_MAX_FRAME_SIZE w")
  show ?case
  proof (cases "\<exists>f. r = Inr (Some f)")
    case False
    then have "frame_reads w = [r]" using rd by (simp add: frame_reads.simps [of w] split: sum.split option.split)
    with False rd show ?thesis by (auto simp: Let_def split: sum.split option.split)
  next
    case True
    then obtain f where f: "r = Inr (Some f)" ..
    have fr: "frame_reads w = r # frame_reads w1" using rd f by (simp add: frame_reads.simps [of w])
    show ?thesis
    proof (cases "c_fatal c = None")
      case False
      then have "h2_run (map Received (frame_reads w)) c = c" by (rule dead_run)
      with False rd f show ?thesis by (simp add: read_turn_dead Let_def)
    next
      case alive: True
      from readFrame_progress [OF rd [unfolded f]] Suc.prems have "length (fst w1) div 9 < fuel" by arith
      from Suc.IH [OF this, of "read_turn r c"] alive rd f fr show ?thesis by (simp add: Let_def)
    qed
  qed
qed simp

context byte_source
begin

lemma readLoop_eq:
  "readLoop (Suc fuel) Q c = (\<lambda>s. case readFrame Q DEFAULT_MAX_FRAME_SIZE s of (r, s') \<Rightarrow>
     (case r of
        Inr (Some f) \<Rightarrow> if c_fatal c \<noteq> None then (\<lambda>s'. Some (read_turn r c, s')) else readLoop fuel Q (read_turn r c)
      | _ \<Rightarrow> (\<lambda>s'. Some (read_turn r c, s'))) s')"
  by (rule ext) (auto simp: Let_def split: prod.split sum.split option.split)

lemma osim_readLoop: "osim (readLoop fuel R c) (readLoop fuel wire_ops c)"
proof (induction fuel arbitrary: c)
  case 0
  show ?case by (simp add: osim_def)
next
  case (Suc fuel)
  show ?case unfolding readLoop_eq
    by (rule osim_after [OF sim_readFrame]) (auto split: sum.split option.split intro: osim_return Suc.IH)
qed

lemma readLoop_is_run:
  assumes "ok s" "length (fst (view s)) div 9 < fuel"
  shows "\<exists>s'. readLoop fuel R c s = Some (h2_run (map Received (frame_reads (view s))) c, s')"
proof -
  from readLoop_flat [OF assms(2), of c] obtain w'
    where w: "readLoop fuel wire_ops c (view s) = Some (h2_run (map Received (frame_reads (view s))) c, w')" by blast
  show ?thesis
  proof (cases "readLoop fuel R c s")
    case None
    with osim_NoneD [OF osim_readLoop assms(1)] w show ?thesis by simp
  next
    case (Some p)
    obtain c' s' where p: "p = (c', s')" by (cases p)
    from osim_SomeD [OF osim_readLoop assms(1) Some [unfolded p]] w Some p show ?thesis by simp
  qed
qed

end

subsection \<open>A peer's frames\<close>

lemma frame_reads_serialized:
  assumes "length p \<le> 16384"
  shows "frame_reads (serializeFrame t f s p @ rest, e) =
    Inr (Some \<lparr> ftype = t mod 256, fflags = f mod 256, fstream = s mod 2147483648, fpayload = p \<rparr>) # frame_reads (rest, e)"
proof -
  have "readFrame wire_ops 16384 (serializeFrame t f s p @ rest, e)
     = (Inr (Some \<lparr> ftype = t mod 256, fflags = f mod 256, fstream = s mod 2147483648, fpayload = p \<rparr>), (rest, e))"
    using assms by (intro readFrame_serialized) simp_all
  then show ?thesis by (simp add: frame_reads.simps [of "(serializeFrame t f s p @ rest, e)"])
qed

lemma frame_reads_end: "frame_reads ([], CleanEnd) = [Inr None]"
  by (simp add: frame_reads.simps readFrame_def bindA_def catchA_def wire_exactly_def max_safe_integer_def
      end_error_def instanceof_def returnA_def)

end
