(* ===== verification/Http2_Properties.thy ===== *)
theory Http2_Properties
  imports Http2_Loop "HOL-Library.Code_Target_Nat"
begin

text \<open>
  What a client of the HTTP/2 connection relies on, stated of every run of its handlers from a new
  connection with arbitrary options, and the behaviours that depart from what the code says of itself.
\<close>

subsection \<open>Sample runs\<close>

definition sample_request :: "bytes option \<Rightarrow> tf_error option option \<Rightarrow> h2_request" where
  "sample_request body signal =
     \<lparr> rq_method = js ''GET'', rq_scheme = js ''https'', rq_authority = js ''a'', rq_path = js ''/'',
       rq_headers = [], rq_body = body, rq_signal = signal \<rparr>"

definition frame_event :: "nat \<Rightarrow> nat \<Rightarrow> nat \<Rightarrow> bytes \<Rightarrow> h2_event" where
  "frame_event t flags i payload =
     Received (Inr (Some \<lparr> ftype = t, fflags = flags, fstream = i, fpayload = payload \<rparr>))"

definition default_connection :: h2_conn where
  "default_connection = new_Http2Connection default_h2_options"

text \<open>The peer's settings, then a response head \<open>:status: 200\<close> on stream 1.\<close>

definition response_on_1 :: "h2_event list" where
  "response_on_1 = [frame_event FRAME_SETTINGS 0 0 [], frame_event FRAME_HEADERS FLAG_END_HEADERS 1 [0x88]]"

subsection \<open>The read loop\<close>

text \<open>C14: \<open>_readLoop\<close> returns on every transport, however its octets are cut into chunks, and leaves the
  connection as the handlers leave it when they are run over the frames that the octets spell.\<close>

theorem read_loop_runs_the_frames:
  "\<exists>s. readLoop (Suc (length (concat cs))) byte_reader_ops c (new_ByteReader cs e)
     = Some (h2_run (map Received (frame_reads (concat cs, e))) c, s)"
proof -
  have "length (fst (view (new_ByteReader cs e))) div 9 < Suc (length (concat cs))"
    by (simp add: view_new le_imp_less_Suc)
  from br.readLoop_is_run [OF reader_ok_new this, of c] show ?thesis by (simp add: view_new)
qed

subsection \<open>Safety of a run\<close>

lemma run_ok: "h2_ok (h2_run es (new_Http2Connection opts))"
  by (rule h2_run_ok) (rule h2_ok_new)

lemma run_waits: "waits_ok (h2_run es (new_Http2Connection opts))"
  by (rule waits_run) (rule waits_new, rule h2_ok_new)

text \<open>C15: whatever the peer and the callers do, the header block in assembly holds what its counters
  say, it never outgrows the cap, each fragment counting 256 octets more than it has, and it belongs to
  a stream of the client: a flood of CONTINUATION frames, empty ones too, is bounded.\<close>

theorem header_assembly_is_bounded:
  "case c_continuation (h2_run es (new_Http2Connection opts)) of
     None \<Rightarrow> True
   | Some k \<Rightarrow> (\<Sum>b\<leftarrow>k_fragments k. length b + 256) \<le> c_maxHeaderBlockBytes (h2_run es (new_Http2Connection opts))
       \<and> k_bytes k = (\<Sum>b\<leftarrow>k_fragments k. length b + 256)
       \<and> k_frames k = length (k_fragments k) \<and> odd (k_streamId k)"
proof -
  have "continuation_ok (h2_run es (new_Http2Connection opts))"
    using run_ok by (simp add: h2_ok_def h2_mid_def)
  then show ?thesis unfolding continuation_ok_def HEADER_FRAGMENT_OVERHEAD_def by (auto split: option.split)
qed



text \<open>C17: no wake-up is lost. At every point of every run a pull that waits has nothing it could deliver
  (no octets, no end, no error), and a sender that waits has a window used up, an open stream, and its
  promise in the list that the next WINDOW_UPDATE, SETTINGS, reset or death settles.\<close>

theorem no_wakeup_is_lost:
  assumes "c = h2_run es (new_Http2Connection opts)" and "opened c i"
  shows "\<not> (s_pullWaiter (c_objs c i)
      \<and> (s_recvQueue (c_objs c i) \<noteq> [] \<or> s_recvEnded (c_objs c i) \<or> s_bodyError (c_objs c i) \<noteq> None))
    \<and> \<not> (s_sender (c_objs c i) = Blocked rest
      \<and> (i \<notin> set (c_connSendWaiters c) \<or> s_closed (c_objs c i)
         \<or> 0 < s_sendWindow (c_objs c i) \<and> 0 < c_connSendWindow c))"
proof -
  have ok: "h2_ok c" and w: "waits_ok c" unfolding assms(1) by (rule run_ok, rule run_waits)
  have "stream_ok (c_objs c i)" using h2_ok_stream [OF ok assms(2)] .
  moreover have "i \<in> set (c_connSendWaiters c) \<and> \<not> s_closed (c_objs c i)
      \<and> (s_sendWindow (c_objs c i) \<le> 0 \<or> c_connSendWindow c \<le> 0)" if "s_sender (c_objs c i) = Blocked rest"
    using w that by (auto simp: waits_ok_def waits_listed_def)
  ultimately show ?thesis unfolding stream_ok_def by (auto simp: not_less)
qed

theorem no_wakeup_is_lost_witness:
  "\<not> (s_pullWaiter (c_objs (h2_run [Request (sample_request None None)] default_connection) 1)
      \<and> s_recvEnded (c_objs (h2_run [Request (sample_request None None)] default_connection) 1))"
proof -
  have "opened (h2_run [Request (sample_request None None)] default_connection) 1" by code_simp
  then show ?thesis
    using no_wakeup_is_lost [OF refl, of "[Request (sample_request None None)]" default_h2_options 1 "[]"]
    by (simp add: default_connection_def)
qed

text \<open>C18: a body that ends cleanly is exactly as long as the response declared: in every run, when a pull
  closes the body of a stream that may have one, the octets that all earlier pulls delivered add up to
  the declared length, and a malformed declaration never closes cleanly.\<close>

theorem clean_end_has_declared_length:
  assumes "c = h2_run es (new_Http2Connection opts)" and "opened c i"
    and "fst (h2_body_pull i c) = Some Close" and "\<not> body_exempt (c_objs c i)"
  shows "case s_declaredLength (c_objs c i) of
      CLAbsent \<Rightarrow> True
    | CLLength n \<Rightarrow> over_run (pulled_length i) es (new_Http2Connection opts) = n
    | CLMalformed \<Rightarrow> False"
proof -
  have "body_ledger i (0 + over_run (pulled_length i) es (new_Http2Connection opts)) c"
    unfolding assms(1) by (rule h2_run_ledger) (rule body_ledger_new, rule h2_ok_new)
  moreover have "h2_ok c" unfolding assms(1) by (rule run_ok)
  ultimately show ?thesis by (intro close_has_declared_length assms(2-4)) simp_all
qed

theorem clean_end_has_declared_length_witness:
  "over_run (pulled_length 1) [Request (sample_request None None), frame_event FRAME_SETTINGS 0 0 [],
      frame_event FRAME_HEADERS FLAG_END_HEADERS 1 [0x88, 0x0f, 0x0d, 0x01, 0x32],
      frame_event FRAME_DATA FLAG_END_STREAM 1 [7, 8], Pull 1] default_connection = 2"
proof -
  let ?es = "[Request (sample_request None None), frame_event FRAME_SETTINGS 0 0 [],
      frame_event FRAME_HEADERS FLAG_END_HEADERS 1 [0x88, 0x0f, 0x0d, 0x01, 0x32],
      frame_event FRAME_DATA FLAG_END_STREAM 1 [7, 8], Pull 1]"
  have "fst (h2_body_pull 1 (h2_run ?es default_connection)) = Some Close
    \<and> opened (h2_run ?es default_connection) 1 \<and> \<not> body_exempt (c_objs (h2_run ?es default_connection) 1)
    \<and> s_declaredLength (c_objs (h2_run ?es default_connection) 1) = CLLength 2" by code_simp
  then show ?thesis
    using clean_end_has_declared_length [OF refl, of ?es default_h2_options 1] by (simp add: default_connection_def)
qed



subsection \<open>Flow control\<close>

text \<open>C20: the client never sends more body octets than the peer allowed for the connection: 65535 and what
  its WINDOW_UPDATE frames granted, and what is left of that credit is what the window shows.\<close>

theorem never_oversends:
  "data_sent (c_out (h2_run es (new_Http2Connection opts))) \<le> 65535 + over_run granted_credit es (new_Http2Connection opts)
   \<and> c_connSendWindow (h2_run es (new_Http2Connection opts)) = 65535
      + int (over_run granted_credit es (new_Http2Connection opts))
      - int (data_sent (c_out (h2_run es (new_Http2Connection opts))))"
proof -
  have "send_ledger (h2_run es (new_Http2Connection opts)) = 65535 + int (over_run granted_credit es (new_Http2Connection opts))"
    "0 \<le> c_connSendWindow (h2_run es (new_Http2Connection opts))"
    using h2_run_moves [OF h2_ok_new, of es opts] by (simp_all add: ledgers_new)
  then show ?thesis by (simp add: send_ledger_def)
qed

text \<open>C21: no credit is forged or lost: with a configured connection window of at least 65535, the receive
  window the client holds the peer to is what it announced (65535 and its WINDOW_UPDATE frames) and
  the consumption it has not yet announced, less every octet of DATA received, padding included. So a
  peer that stays within what was announced always finds the window open.\<close>

theorem receive_window_is_exact:
  assumes "op_connectionWindow opts = None \<or> (\<exists>w. op_connectionWindow opts = Some w \<and> 65535 \<le> w)"
  shows "c_connRecvWindow (h2_run es (new_Http2Connection opts)) = 65535
      + int (updates0 (c_out (h2_run es (new_Http2Connection opts))))
      + int (c_connConsumed (h2_run es (new_Http2Connection opts)))
      - int (over_run used_credit es (new_Http2Connection opts))"
  using h2_run_moves [OF h2_ok_new, of es opts] ledgers_new(3) [OF assms] by (simp add: receive_ledger_def)

theorem receive_window_is_exact_witness:
  "c_connRecvWindow (h2_run response_on_1 default_connection) = 65535
      + int (updates0 (c_out (h2_run response_on_1 default_connection)))
      + int (c_connConsumed (h2_run response_on_1 default_connection))
      - int (over_run used_credit response_on_1 default_connection)"
  unfolding default_connection_def by (rule receive_window_is_exact) (simp add: default_h2_options_def)






subsection \<open>Where the code departs from what it says\<close>

text \<open>A request whose signal is already aborted uses up a stream id and sends RST_STREAM for it without
  ever having sent HEADERS: the frame names an idle stream, a connection error at the peer.\<close>

lemma aborted_request_resets_idle_stream:
  "drop (length (c_out default_connection))
     (c_out (h2_run [Request (sample_request None (Some (Some e)))] default_connection)) = [ORst 1 H2_CANCEL]"
  by code_simp

text \<open>With a priority on the HEADERS frame its five octets are not counted: a block as long as the
  peer's maximum frame size goes out in one frame that exceeds it by five octets.\<close>

lemma priority_exceeds_frame_size:
  "c_out (sendHeaderBlock 1 (replicate 16384 0) True (default_connection\<lparr>c_headersPriority := Some p\<rparr>))
     = c_out default_connection @ [OHeaders 1 (replicate 16384 0) True True (Some p)]
   \<and> c_peerMaxFrameSize default_connection = 16384
   \<and> length (out_bytes (OHeaders 1 (replicate 16384 0) True True (Some p))) = 9 + (16384 + 5)"
  by (simp add: sendHeaderBlock_def Let_def default_connection_def new_Http2Connection_def sendPreface_def emit_def
      headersFrame_def serializeFrame_def priority_bytes_def)

text \<open>A settings flight without SETTINGS_INITIAL_WINDOW_SIZE leaves the accounting at ten megaoctets
  while the peer must assume 65535: after a stream's whole window is consumed no WINDOW_UPDATE is sent,
  so a longer body never ends.\<close>

lemma unadvertised_window_stalls:
  "c_out (replenish 1 65535 (new_Http2Connection (default_h2_options\<lparr>op_settings := Some []\<rparr>)))
     = c_out (new_Http2Connection (default_h2_options\<lparr>op_settings := Some []\<rparr>))
   \<and> OSettings [] False \<in> set (c_out (new_Http2Connection (default_h2_options\<lparr>op_settings := Some []\<rparr>)))"
  by code_simp

text \<open>DATA after END_STREAM is accepted while the request body is still being sent: the octets are queued
  behind the end of the body and the peer is not answered with STREAM_CLOSED.\<close>

lemma data_after_end_is_queued:
  "s_recvEnded (c_objs (h2_run [Request (sample_request (Some [1]) None), frame_event FRAME_SETTINGS 0 0 [],
       frame_event FRAME_HEADERS 5 1 [0x88], frame_event FRAME_DATA 0 1 [1, 2, 3]] default_connection) 1)
   \<and> s_recvQueue (c_objs (h2_run [Request (sample_request (Some [1]) None), frame_event FRAME_SETTINGS 0 0 [],
       frame_event FRAME_HEADERS 5 1 [0x88], frame_event FRAME_DATA 0 1 [1, 2, 3]] default_connection) 1) = [[1, 2, 3]]
   \<and> c_fatal (h2_run [Request (sample_request (Some [1]) None), frame_event FRAME_SETTINGS 0 0 [],
       frame_event FRAME_HEADERS 5 1 [0x88], frame_event FRAME_DATA 0 1 [1, 2, 3]] default_connection) = None"
  by code_simp


text \<open>\<open>onClose\<close> is called twice when the peer says GOAWAY and then closes the transport.\<close>

lemma on_close_called_twice:
  "c_onCloseCalls (h2_run [frame_event FRAME_SETTINGS 0 0 [], frame_event FRAME_GOAWAY 0 0 [0, 0, 0, 0, 0, 0, 0, 0],
     Received (Inr None)] default_connection) = [None, None]"
  by code_simp

end
