(* ===== verification/Der.thy ===== *)
theory Der
  imports Utf8 Text
begin

text \<open>
  \<open>src/trust/der.js\<close>: the reader of ASN.1 DER elements. Elements are ranges of the original buffer;
  lengths, tags, integers, object identifiers, times and strings are read with the checks of the
  source. A dotted object identifier is the list of its arcs.
\<close>

subsection \<open>Tags\<close>

definition TAG_BOOLEAN :: nat where [simp]: "TAG_BOOLEAN = 1"
definition TAG_INTEGER :: nat where [simp]: "TAG_INTEGER = 2"
definition TAG_BIT_STRING :: nat where [simp]: "TAG_BIT_STRING = 3"
definition TAG_OCTET_STRING :: nat where [simp]: "TAG_OCTET_STRING = 4"
definition TAG_OID :: nat where [simp]: "TAG_OID = 6"
definition TAG_UTF8_STRING :: nat where [simp]: "TAG_UTF8_STRING = 12"
definition TAG_SEQUENCE :: nat where [simp]: "TAG_SEQUENCE = 16"
definition TAG_SET :: nat where [simp]: "TAG_SET = 17"
definition TAG_NUMERIC_STRING :: nat where [simp]: "TAG_NUMERIC_STRING = 18"
definition TAG_PRINTABLE_STRING :: nat where [simp]: "TAG_PRINTABLE_STRING = 19"
definition TAG_TELETEX_STRING :: nat where [simp]: "TAG_TELETEX_STRING = 20"
definition TAG_IA5_STRING :: nat where [simp]: "TAG_IA5_STRING = 22"
definition TAG_UTC_TIME :: nat where [simp]: "TAG_UTC_TIME = 23"
definition TAG_GENERALIZED_TIME :: nat where [simp]: "TAG_GENERALIZED_TIME = 24"
definition TAG_VISIBLE_STRING :: nat where [simp]: "TAG_VISIBLE_STRING = 26"
definition TAG_BMP_STRING :: nat where [simp]: "TAG_BMP_STRING = 30"

definition CLS_UNIVERSAL :: nat where [simp]: "CLS_UNIVERSAL = 0"
definition CLS_CONTEXT :: nat where [simp]: "CLS_CONTEXT = 2"

definition parse_error :: tf_error where
  "parse_error = Thrown CertificateError (Cert CERT_PARSE)"

subsection \<open>Elements\<close>

record tlv =
  tlv_cls :: nat
  tlv_constructed :: bool
  tlv_tag :: nat
  tlv_start :: nat
  tlv_headerLen :: nat
  tlv_contentStart :: nat
  tlv_contentEnd :: nat
  tlv_end :: nat

text \<open>The loop over a tag number of several octets; the first argument is \<open>4 - i\<close>.\<close>

fun tag_octets :: "nat \<Rightarrow> bytes \<Rightarrow> nat \<Rightarrow> nat \<Rightarrow> tf_error + (nat \<times> nat)" where
  "tag_octets k b p tag =
     (if p \<ge> length b then Inl parse_error
      else case k of
             0 \<Rightarrow> Inl parse_error
           | Suc k' \<Rightarrow>
               (let t = tag * 128 + unat (b ! p AND 0x7f)
                in if b ! p AND 0x80 = 0 then Inr (t, p + 1) else tag_octets k' b (p + 1) t))"

declare tag_octets.simps [simp del]

definition read_tag :: "bytes \<Rightarrow> nat \<Rightarrow> tf_error + (nat \<times> nat)" where
  "read_tag b offset =
     (let tag = unat (b ! offset AND 0x1f); p = offset + 1
      in if tag \<noteq> 0x1f then Inr (tag, p)
         else if p < length b \<and> b ! p = 0x80 then Inl parse_error
         else bindE (tag_octets 4 b p 0) (\<lambda>(tag, p). if tag < 0x1f then Inl parse_error else Inr (tag, p)))"

text \<open>Big-endian value of octets, as the loops over them compute it.\<close>

definition be_value :: "bytes \<Rightarrow> nat" where
  "be_value bs = foldl (\<lambda>a x. a * 256 + unat x) 0 bs"

definition read_length :: "bytes \<Rightarrow> nat \<Rightarrow> tf_error + (nat \<times> nat)" where
  "read_length b p =
     (if p \<ge> length b then Inl parse_error
      else
        (let l0 = b ! p; p = p + 1
         in if l0 < 0x80 then Inr (unat l0, p)
            else if l0 = 0x80 then Inl parse_error
            else if l0 = 0xff then Inl parse_error
            else
              (let n = unat (l0 AND 0x7f)
               in if n > 4 then Inl parse_error
                  else if p + n > length b then Inl parse_error
                  else if b ! p = 0x00 then Inl parse_error
                  else
                    (let contentLen = be_value (take n (drop p b))
                     in if contentLen < 0x80 then Inl parse_error else Inr (contentLen, p + n)))))"

definition readTlv :: "bytes \<Rightarrow> nat \<Rightarrow> tf_error + tlv" where
  "readTlv b offset =
     (if offset \<ge> length b then Inl parse_error
      else
        (let cls = unat (drop_bit 6 (b ! offset)); constructed = (b ! offset AND 0x20 \<noteq> 0)
         in bindE (read_tag b offset) (\<lambda>(tag, p).
            bindE (read_length b p) (\<lambda>(contentLen, contentStart).
              (let contentEnd = contentStart + contentLen
               in if contentEnd > length b then Inl parse_error
                  else Inr \<lparr> tlv_cls = cls, tlv_constructed = constructed, tlv_tag = tag, tlv_start = offset,
                             tlv_headerLen = contentStart - offset, tlv_contentStart = contentStart,
                             tlv_contentEnd = contentEnd, tlv_end = contentEnd \<rparr>)))))"

definition content :: "bytes \<Rightarrow> tlv \<Rightarrow> bytes" where
  "content b t = drop (tlv_contentStart t) (take (tlv_contentEnd t) b)"

definition element :: "bytes \<Rightarrow> tlv \<Rightarrow> bytes" where
  "element b t = drop (tlv_start t) (take (tlv_end t) b)"

text \<open>The shape that is expected; an omitted \<open>constructed\<close> accepts either form.\<close>

definition expectTlv :: "nat \<Rightarrow> nat \<Rightarrow> bool option \<Rightarrow> tlv \<Rightarrow> tf_error + tlv" where
  "expectTlv cls tag constructed t =
     (if tlv_cls t \<noteq> cls \<or> tlv_tag t \<noteq> tag
         \<or> (case constructed of None \<Rightarrow> False | Some x \<Rightarrow> tlv_constructed t \<noteq> x)
      then Inl parse_error else Inr t)"

definition readSequence :: "bytes \<Rightarrow> nat \<Rightarrow> tf_error + tlv" where
  "readSequence b offset = bindE (readTlv b offset) (expectTlv CLS_UNIVERSAL TAG_SEQUENCE (Some True))"

subsection \<open>An element is longer than its start\<close>

lemma tag_octets_progress: "tag_octets k b p t = Inr (t', p') \<Longrightarrow> p < p' \<and> p' \<le> length b"
proof (induction k arbitrary: p t)
  case (Suc k)
  then show ?case
    by (subst (asm) tag_octets.simps) (auto simp: Let_def Suc_le_eq split: if_splits dest!: Suc.IH)
qed (simp add: tag_octets.simps split: if_splits)

lemma read_tag_progress: "read_tag b offset = Inr (t, p) \<Longrightarrow> offset < length b \<Longrightarrow> offset < p \<and> p \<le> length b"
  by (auto simp: read_tag_def Let_def bindE_Inr_conv split: if_splits dest!: tag_octets_progress)

lemma read_length_progress: "read_length b p = Inr (n, p') \<Longrightarrow> p < p' \<and> p' \<le> length b"
  by (auto simp: read_length_def Let_def split: if_splits)

lemma readTlv_bounds:
  assumes "readTlv b offset = Inr t"
  shows "tlv_start t = offset \<and> offset < tlv_contentStart t \<and> tlv_contentStart t \<le> tlv_contentEnd t
    \<and> tlv_end t = tlv_contentEnd t \<and> tlv_end t \<le> length b \<and> tlv_headerLen t = tlv_contentStart t - offset"
  using assms
  by (auto simp: readTlv_def Let_def bindE_Inr_conv not_le split: if_splits
      dest!: read_length_progress dest: read_tag_progress)

subsection \<open>Children\<close>

text \<open>The loop of \<open>children\<close> from position \<open>p\<close>.\<close>

function children_loop :: "bytes \<Rightarrow> tlv \<Rightarrow> nat \<Rightarrow> tf_error + tlv list" where
  "children_loop b t p =
     (if p < tlv_contentEnd t then
        (case readTlv b p of
           Inl e \<Rightarrow> Inl e
         | Inr child \<Rightarrow>
             if tlv_end child > tlv_contentEnd t then Inl parse_error
             else bindE (children_loop b t (tlv_end child)) (\<lambda>rest. Inr (child # rest)))
      else Inr [])"
  by pat_completeness auto
termination
  by (relation "measure (\<lambda>(b, t, p). tlv_contentEnd t - p)") (auto dest!: readTlv_bounds [OF sym] readTlv_bounds)

declare children_loop.simps [simp del]

definition children :: "bytes \<Rightarrow> tlv \<Rightarrow> tf_error + tlv list" where
  "children b t =
     (if \<not> tlv_constructed t then Inl parse_error else children_loop b t (tlv_contentStart t))"

definition readAll :: "bytes \<Rightarrow> tf_error + tlv" where
  "readAll b = bindE (readTlv b 0) (\<lambda>t. if tlv_end t \<noteq> length b then Inl parse_error else Inr t)"

subsection \<open>Integers\<close>

record der_integer =
  int_bytes :: bytes
  int_value :: "nat option"
  int_negative :: bool

definition readInteger :: "bytes \<Rightarrow> tlv \<Rightarrow> tf_error + der_integer" where
  "readInteger b t =
     bindE (expectTlv CLS_UNIVERSAL TAG_INTEGER (Some False) t) (\<lambda>_.
       (let c = content b t
        in if length c = 0 then Inl parse_error
           else if length c > 1 \<and> c ! 0 = 0x00 \<and> c ! 1 < 0x80 then Inl parse_error
           else if length c > 1 \<and> c ! 0 = 0xff \<and> c ! 1 \<ge> 0x80 then Inl parse_error
           else
             (let negative = (c ! 0 AND 0x80 \<noteq> 0);
                  val = (if \<not> negative \<and> (length c < 7 \<or> (length c = 7 \<and> c ! 0 < 0x20))
                         then Some (be_value c) else None)
              in Inr \<lparr> int_bytes = c, int_value = val, int_negative = negative \<rparr>)))"

subsection \<open>Object identifiers\<close>

text \<open>
  The arithmetic is that of double-precision numbers: an integer of more than 53 bits is rounded to
  the nearest one with 53 significant bits, ties to an even significand.
\<close>

definition round_bits :: "nat \<Rightarrow> nat \<Rightarrow> nat" where
  "round_bits k n =
     (let q = n div 2 ^ k; r = n mod 2 ^ k
      in (if 2 * r > 2 ^ k \<or> (2 * r = 2 ^ k \<and> odd q) then q + 1 else q) * 2 ^ k)"

fun to_double_from :: "nat \<Rightarrow> nat \<Rightarrow> nat \<Rightarrow> nat" where
  "to_double_from 0 k n = round_bits k n"
| "to_double_from (Suc m) k n = (if n < 2 ^ (53 + k) then round_bits k n else to_double_from m (Suc k) n)"

text \<open>The numbers here have fewer than 58 bits.\<close>

definition to_double :: "nat \<Rightarrow> nat" where
  "to_double n = to_double_from 5 0 n"

fun oid_loop :: "bytes \<Rightarrow> nat \<Rightarrow> bool \<Rightarrow> nat list \<Rightarrow> tf_error + nat list" where
  "oid_loop [] val inSub arcs = (if inSub then Inl parse_error else Inr arcs)"
| "oid_loop (x # c) val inSub arcs =
     (if \<not> inSub \<and> x = 0x80 then Inl parse_error
      else if val > 0x3ffffffffffff then Inl parse_error
      else
        (let v = to_double (val * 128 + unat (x AND 0x7f))
         in if x AND 0x80 = 0 then oid_loop c 0 False (arcs @ [v]) else oid_loop c v True arcs))"

definition split_first_arc :: "nat list \<Rightarrow> nat list" where
  "split_first_arc arcs =
     (let first = hd arcs; x = (if first < 40 then 0 else if first < 80 then 1 else 2)
      in [x, first - x * 40] @ tl arcs)"

definition readOid :: "bytes \<Rightarrow> tlv \<Rightarrow> tf_error + nat list" where
  "readOid b t =
     bindE (expectTlv CLS_UNIVERSAL TAG_OID (Some False) t) (\<lambda>_.
       (let c = content b t
        in if length c = 0 then Inl parse_error
           else bindE (oid_loop c 0 False []) (\<lambda>arcs. Inr (split_first_arc arcs))))"

subsection \<open>Bit strings and booleans\<close>

record bit_string =
  unusedBits :: nat
  bs_bytes :: bytes

definition readBitString :: "bytes \<Rightarrow> tlv \<Rightarrow> tf_error + bit_string" where
  "readBitString b t =
     bindE (expectTlv CLS_UNIVERSAL TAG_BIT_STRING (Some False) t) (\<lambda>_.
       (let c = content b t
        in if length c = 0 then Inl parse_error
           else
             (let unused = unat (c ! 0)
              in if unused > 7 then Inl parse_error
                 else if length c = 1 \<and> unused \<noteq> 0 then Inl parse_error
                 else if unused > 0 \<and> c ! (length c - 1) AND (push_bit unused 1 - 1) \<noteq> 0 then Inl parse_error
                 else Inr \<lparr> unusedBits = unused, bs_bytes = drop 1 c \<rparr>)))"

definition readBoolean :: "bytes \<Rightarrow> tlv \<Rightarrow> tf_error + bool" where
  "readBoolean b t =
     bindE (expectTlv CLS_UNIVERSAL TAG_BOOLEAN (Some False) t) (\<lambda>_.
       (let c = content b t
        in if length c \<noteq> 1 then Inl parse_error
           else if c ! 0 \<noteq> 0x00 \<and> c ! 0 \<noteq> 0xff then Inl parse_error
           else Inr (c ! 0 = 0xff)))"

subsection \<open>Times\<close>

definition leap_year :: "int \<Rightarrow> bool" where
  "leap_year y \<longleftrightarrow> y mod 4 = 0 \<and> (y mod 100 \<noteq> 0 \<or> y mod 400 = 0)"

definition daysInMonth :: "int \<Rightarrow> nat \<Rightarrow> nat" where
  "daysInMonth y m =
     (if m = 2 then (if leap_year y then 29 else 28)
      else [31, 0, 31, 30, 31, 30, 31, 31, 30, 31, 30, 31] ! (m - 1))"

text \<open>
  \<open>Date.UTC\<close> for a month in range: a year from 0 to 99 stands for 1900 to 1999, days are counted as
  the ECMAScript standard does.
\<close>

definition day_from_year :: "int \<Rightarrow> int" where
  "day_from_year y = 365 * (y - 1970) + (y - 1969) div 4 - (y - 1901) div 100 + (y - 1601) div 400"

definition days_before_month :: "int \<Rightarrow> nat \<Rightarrow> int" where
  "days_before_month y m =
     [0, 31, 59, 90, 120, 151, 181, 212, 243, 273, 304, 334] ! (m - 1) + (if 2 < m \<and> leap_year y then 1 else 0)"

definition date_utc :: "int \<Rightarrow> nat \<Rightarrow> nat \<Rightarrow> nat \<Rightarrow> nat \<Rightarrow> nat \<Rightarrow> int" where
  "date_utc y m d h mi s =
     (let y = (if 0 \<le> y \<and> y \<le> 99 then 1900 + y else y);
          day = day_from_year y + days_before_month y m + int d - 1
      in day * 86400000 + int h * 3600000 + int mi * 60000 + int s * 1000)"

definition toEpochMs :: "nat \<Rightarrow> nat \<Rightarrow> nat \<Rightarrow> nat \<Rightarrow> nat \<Rightarrow> nat \<Rightarrow> tf_error + int" where
  "toEpochMs y mo d h mi s =
     (if mo < 1 \<or> mo > 12 then Inl parse_error
      else if d < 1 \<or> d > daysInMonth (int y) mo then Inl parse_error
      else if h > 23 \<or> mi > 59 \<or> s > 59 then Inl parse_error
      else Inr (date_utc (int y) mo d h mi s))"

definition digit_octet :: "byte \<Rightarrow> bool" where
  "digit_octet x \<longleftrightarrow> 0x30 \<le> x \<and> x \<le> 0x39"

definition two_digits :: "bytes \<Rightarrow> nat \<Rightarrow> nat" where
  "two_digits c i = (unat (c ! i) - 0x30) * 10 + (unat (c ! (i + 1)) - 0x30)"

definition readUtcTime :: "bytes \<Rightarrow> tlv \<Rightarrow> tf_error + int" where
  "readUtcTime b t =
     bindE (expectTlv CLS_UNIVERSAL TAG_UTC_TIME (Some False) t) (\<lambda>_.
       (let c = content b t; n = two_digits c
        in if length c \<noteq> 13 \<or> c ! 12 \<noteq> 0x5a then Inl parse_error
           else if \<not> list_all digit_octet (take 12 c) then Inl parse_error
           else
             (let yy = n 0; year = (if yy \<ge> 50 then 1900 + yy else 2000 + yy)
              in toEpochMs year (n 2) (n 4) (n 6) (n 8) (n 10))))"

definition readGeneralizedTime :: "bytes \<Rightarrow> tlv \<Rightarrow> tf_error + int" where
  "readGeneralizedTime b t =
     bindE (expectTlv CLS_UNIVERSAL TAG_GENERALIZED_TIME (Some False) t) (\<lambda>_.
       (let c = content b t; n = two_digits c
        in if length c \<noteq> 15 \<or> c ! 14 \<noteq> 0x5a then Inl parse_error
           else if \<not> list_all digit_octet (take 14 c) then Inl parse_error
           else toEpochMs (n 0 * 100 + n 2) (n 4) (n 6) (n 8) (n 10) (n 12)))"

definition readTime :: "bytes \<Rightarrow> tlv \<Rightarrow> tf_error + int" where
  "readTime b t =
     (if tlv_tag t = TAG_UTC_TIME then readUtcTime b t
      else if tlv_tag t = TAG_GENERALIZED_TIME then readGeneralizedTime b t
      else Inl parse_error)"

subsection \<open>Strings\<close>

text \<open>
  \<open>TextDecoder\<close> with \<open>fatal\<close>: a string is well-formed iff decoding it with replacement and encoding
  the result gives it back.
\<close>

definition utf8_fatal :: "bytes \<Rightarrow> jsstr option" where
  "utf8_fatal b =
     (let points = utf8_run 0 0 0x80 0xBF (map unat b)
      in if concat (map utf8_char points) = map unat b then Some (utf16 (strip_bom points)) else None)"

definition printable :: "byte \<Rightarrow> bool" where
  "printable x \<longleftrightarrow> (0x41 \<le> x \<and> x \<le> 0x5a) \<or> (0x61 \<le> x \<and> x \<le> 0x7a) \<or> (0x30 \<le> x \<and> x \<le> 0x39)
     \<or> x = 0x20 \<or> (0x27 \<le> x \<and> x \<le> 0x2f \<and> x \<noteq> 0x2a) \<or> x = 0x3a \<or> x = 0x3d \<or> x = 0x3f"

fun bmp_units :: "bytes \<Rightarrow> jsstr" where
  "bmp_units (x # y # c) = (unat x * 256 + unat y) # bmp_units c"
| "bmp_units _ = []"

definition readString :: "bytes \<Rightarrow> tlv \<Rightarrow> tf_error + jsstr" where
  "readString b t =
     (let c = content b t; tag = tlv_tag t
      in if tag = TAG_UTF8_STRING then (case utf8_fatal c of Some s \<Rightarrow> Inr s | None \<Rightarrow> Inl parse_error)
         else if tag = TAG_PRINTABLE_STRING then
           (if list_all printable c then Inr (latin1 c) else Inl parse_error)
         else if tag \<in> {TAG_IA5_STRING, TAG_VISIBLE_STRING, TAG_NUMERIC_STRING} then
           (if list_all (\<lambda>x. x \<le> 0x7f \<and> (tag = TAG_NUMERIC_STRING \<longrightarrow> digit_octet x \<or> x = 0x20)) c
            then Inr (latin1 c) else Inl parse_error)
         else if tag = TAG_TELETEX_STRING then Inr (latin1 c)
         else if tag = TAG_BMP_STRING then
           (if length c mod 2 \<noteq> 0 then Inl parse_error
            else if list_all (\<lambda>u. \<not> (0xd800 \<le> u \<and> u \<le> 0xdfff)) (bmp_units c) then Inr (bmp_units c)
            else Inl parse_error)
         else Inl parse_error)"

subsection \<open>ECDSA signatures\<close>

text \<open>
  Every failure is reported through the caller's factory, here the error \<open>onInvalid\<close>. The halves are
  written in order, so a bad first half is reported before the second is looked at.
\<close>

definition ecdsa_half :: "tf_error \<Rightarrow> nat \<Rightarrow> der_integer \<Rightarrow> tf_error + bytes" where
  "ecdsa_half onInvalid orderLen part =
     (if int_negative part then Inl onInvalid
      else
        (let x = int_bytes part; x = (if length x > 1 \<and> x ! 0 = 0x00 then drop 1 x else x)
         in if length x > orderLen then Inl onInvalid
            else Inr (replicate (orderLen - length x) 0 @ x)))"

definition ecdsaDerToRaw :: "bytes \<Rightarrow> nat \<Rightarrow> tf_error \<Rightarrow> tf_error + bytes" where
  "ecdsaDerToRaw sig orderLen onInvalid =
     (case bindE (readAll sig) (\<lambda>seq.
            bindE (expectTlv CLS_UNIVERSAL TAG_SEQUENCE (Some True) seq) (\<lambda>_. children sig seq)) of
        Inl _ \<Rightarrow> Inl onInvalid
      | Inr kids \<Rightarrow>
          if length kids \<noteq> 2 then Inl onInvalid
          else
            (case bindE (readInteger sig (kids ! 0)) (\<lambda>r.
                    bindE (readInteger sig (kids ! 1)) (\<lambda>s. Inr (r, s))) of
               Inl _ \<Rightarrow> Inl onInvalid
             | Inr (r, s) \<Rightarrow>
                 bindE (ecdsa_half onInvalid orderLen r) (\<lambda>x.
                 bindE (ecdsa_half onInvalid orderLen s) (\<lambda>y. Inr (x @ y)))))"

end
