(* ===== verification/Der_Correct.thy ===== *)
theory Der_Correct
  imports Der
begin

text \<open>
  What the DER reader accepts is canonical: the octets of a header are the only spelling of its tag and
  length, children tile their parent, an accepted INTEGER is the shortest spelling of its value, and an
  ECDSA signature that converts to a given pair of numbers is unique. Times grow with what they spell.
\<close>

subsection \<open>Octets as numbers\<close>

lemma byte_low7: "unat ((x :: byte) AND 0x7f) = unat x mod 128"
proof -
  have "x AND 0x7f = take_bit 7 x" by (simp add: take_bit_eq_mask mask_eq_exp_minus_1)
  then have "unat (x AND 0x7f) = take_bit 7 (unat x)" by (simp only: unsigned_take_bit_eq)
  then show ?thesis by (simp add: take_bit_eq_mod)
qed

lemma byte_low5: "unat ((x :: byte) AND 0x1f) = unat x mod 32"
proof -
  have "x AND 0x1f = take_bit 5 x" by (simp add: take_bit_eq_mask mask_eq_exp_minus_1)
  then have "unat (x AND 0x1f) = take_bit 5 (unat x)" by (simp only: unsigned_take_bit_eq)
  then show ?thesis by (simp add: take_bit_eq_mod)
qed

lemma byte_bit: "bit (x :: byte) n = odd (unat x div 2 ^ n)"
proof -
  have "bit x n = bit (unat x) n" by (auto simp: bit_unsigned_iff dest: bit_imp_le_length)
  then show ?thesis by (simp add: bit_iff_odd [of "unat x"])
qed

lemma byte_high_bit: "(x :: byte) AND 0x80 = 0 \<longleftrightarrow> unat x < 128"
proof -
  have "x AND 0x80 = 0 \<longleftrightarrow> even (unat x div 128)"
    using and_exp_eq_0_iff_not_bit [of x 7] by (simp add: byte_bit)
  moreover have "unat x div 128 < 2" using unat_byte_less [of x] by (simp add: div_less_iff_less_mult)
  ultimately show ?thesis by (cases "unat x div 128 = 0") (auto simp: div_eq_0_iff less_2_cases_iff)
qed

lemma byte_bit5: "(x :: byte) AND 0x20 = 0 \<longleftrightarrow> even (unat x div 32)"
  using and_exp_eq_0_iff_not_bit [of x 5] by (simp add: byte_bit)

lemma byte_of_nat: "unat (x :: byte) = n \<Longrightarrow> x = of_nat n"
  by (auto simp: word_eq_iff_unsigned [where ?'a = nat] unsigned_of_nat take_bit_eq_mod)

lemma unat_of_nat_byte: "unat (of_nat n :: byte) = n mod 256"
  by (simp add: unsigned_of_nat take_bit_eq_mod)

lemma byte_high7: "128 \<le> unat (x :: byte) \<Longrightarrow> unat x = 128 + unat x mod 128"
  using unat_byte_less [of x] by (simp add: le_mod_geq)

lemma range_append: "i \<le> j \<Longrightarrow> j \<le> k \<Longrightarrow> drop i (take j b) @ drop j (take k b) = drop i (take k b)"
proof -
  assume le: "i \<le> j" "j \<le> k"
  have "take k b = take j b @ drop j (take k b)"
    using append_take_drop_id [of j "take k b"] le(2) by (simp add: min_absorb1)
  then have "drop i (take k b) = drop i (take j b @ drop j (take k b))" by simp
  then show ?thesis using le(1) by (cases "j \<le> length b") simp_all
qed

subsection \<open>The canonical header\<close>

text \<open>Base 128 with continuation bits and base 256, both without leading zeros.\<close>

fun b128_high :: "nat \<Rightarrow> bytes" where
  "b128_high n = (if n = 0 then [] else b128_high (n div 128) @ [of_nat (128 + n mod 128)])"

declare b128_high.simps [simp del]

definition b128 :: "nat \<Rightarrow> bytes" where
  "b128 n = b128_high (n div 128) @ [of_nat (n mod 128)]"

fun be_octets :: "nat \<Rightarrow> bytes" where
  "be_octets n = (if n = 0 then [] else be_octets (n div 256) @ [of_nat (n mod 256)])"

declare be_octets.simps [simp del]

definition der_tag :: "nat \<Rightarrow> bool \<Rightarrow> nat \<Rightarrow> bytes" where
  "der_tag cls cons tag =
     (let lead = cls * 64 + (if cons then 32 else 0)
      in if tag < 31 then [of_nat (lead + tag)] else of_nat (lead + 31) # b128 tag)"

definition der_length :: "nat \<Rightarrow> bytes" where
  "der_length n = (if n < 128 then [of_nat n] else of_nat (128 + length (be_octets n)) # be_octets n)"

definition der_header :: "nat \<Rightarrow> bool \<Rightarrow> nat \<Rightarrow> nat \<Rightarrow> bytes" where
  "der_header cls cons tag len = der_tag cls cons tag @ der_length len"

lemma be_value_simps [simp]:
  "be_value [] = 0" "be_value (bs @ [x]) = be_value bs * 256 + unat x"
  by (simp_all add: be_value_def)

lemma be_value_Cons: "be_value (x # bs) = unat x * 256 ^ length bs + be_value bs"
proof (induction bs rule: rev_induct)
  case (snoc y bs)
  have "be_value (x # bs @ [y]) = be_value (x # bs) * 256 + unat y"
    using be_value_simps(2) [of "x # bs" y] by simp
  with snoc show ?case by (simp add: algebra_simps)
qed (simp add: be_value_def)

lemma be_value_zeros [simp]: "be_value (replicate k 0 @ bs) = be_value bs"
  by (induction k) (simp_all add: be_value_Cons)

lemma be_value_pos: "bs \<noteq> [] \<Longrightarrow> hd bs \<noteq> 0 \<Longrightarrow> 0 < be_value bs"
  by (cases bs) (simp_all add: be_value_Cons unat_gt_0)

text \<open>Octets without a leading zero are the octets of their value.\<close>

lemma be_octets_value: "bs = [] \<or> hd bs \<noteq> 0 \<Longrightarrow> be_octets (be_value bs) = bs"
proof (induction bs rule: rev_induct)
  case (snoc x bs)
  have "be_value (bs @ [x]) \<noteq> 0" using be_value_pos [of "bs @ [x]"] snoc.prems by simp
  moreover have "be_octets (be_value bs) = bs" using snoc by (cases bs) auto
  moreover have "(be_value bs * 256 + unat x) div 256 = be_value bs" "(be_value bs * 256 + unat x) mod 256 = unat x"
    using unat_byte_less [of x] by simp_all
  ultimately show ?case by (simp add: be_octets.simps [of "be_value bs * 256 + unat x"] div_less unat_byte_less)
qed (simp add: be_octets.simps)

lemma tag_octets_canonical:
  assumes "tag_octets k b p acc = Inr (t, p')" "acc \<noteq> 0 \<or> b ! p \<noteq> 0x80"
  shows "b128_high acc @ take (p' - p) (drop p b) = b128 t"
  using assms
proof (induction k arbitrary: p acc)
  case 0
  then show ?case by (simp add: tag_octets.simps split: if_splits)
next
  case (Suc k)
  let ?x = "b ! p" and ?t = "acc * 128 + unat (b ! p AND 0x7f)"
  from Suc.prems(1) have p: "p < length b" by (simp add: tag_octets.simps split: if_splits)
  then have d: "drop p b = ?x # drop (Suc p) b" by (simp add: Cons_nth_drop_Suc)
  have t: "?t div 128 = acc" "?t mod 128 = unat ?x mod 128" by (simp_all add: byte_low7)
  show ?case
  proof (cases "?x AND 0x80 = 0")
    case True
    then have x: "unat ?x < 128" by (simp add: byte_high_bit)
    from True Suc.prems(1) p have r: "t = ?t" "p' = Suc p" by (simp_all add: tag_octets.simps Let_def)
    have "?x = of_nat (?t mod 128)" using x t by (intro byte_of_nat) simp
    then show ?thesis using d t(1) by (simp add: r b128_def)
  next
    case False
    then have x: "128 \<le> unat ?x" by (simp add: byte_high_bit)
    from False Suc.prems(1) p have r: "tag_octets k b (Suc p) ?t = Inr (t, p')"
      by (simp add: tag_octets.simps [of "Suc k"] Let_def)
    have xv: "unat ?x = 128 + unat ?x mod 128" using x by (rule byte_high7)
    have nz: "?t \<noteq> 0"
    proof
      assume "?t = 0"
      then have "acc = 0" "unat ?x = 128" using xv by (simp_all add: byte_low7)
      then have "?x = 0x80" using byte_of_nat [of ?x 128] by simp
      with \<open>acc = 0\<close> Suc.prems(2) show False by simp
    qed
    have "b128_high ?t = b128_high acc @ [?x]"
    proof -
      have "of_nat (128 + ?t mod 128) = ?x" using byte_of_nat [of ?x "128 + ?t mod 128"] xv unfolding t(2) by simp
      then show ?thesis using nz t(1) unfolding b128_high.simps [of ?t] by simp
    qed
    moreover have "b128_high ?t @ take (p' - Suc p) (drop (Suc p) b) = b128 t"
      by (rule Suc.IH [OF r]) (use nz in blast)
    moreover have "p < p'" using tag_octets_progress [OF Suc.prems(1)] by simp
    ultimately show ?thesis using d by (simp add: take_Cons' Suc_diff_Suc)
  qed
qed

lemma lead_octet:
  "unat (x :: byte) = unat (drop_bit 6 x) * 64 + (if x AND 0x20 \<noteq> 0 then 32 else 0) + unat (x AND 0x1f)"
proof -
  have "unat (drop_bit 6 x) = unat x div 64"
    by (simp only: unsigned_drop_bit_eq) (simp add: drop_bit_eq_div take_bit_eq_mod)
  moreover have "unat x = unat x div 64 * 64 + unat x div 32 mod 2 * 32 + unat x mod 32"
  proof -
    define n where "n = unat x"
    have "n div 64 = n div 32 div 2" using div_mult2_eq [of n 32 2] by simp
    then have "n div 64 * 64 + n div 32 mod 2 * 32 = (n div 32 div 2 * 2 + n div 32 mod 2) * 32"
      by (simp only: add_mult_distrib mult.assoc)
    then show ?thesis by (simp only: div_mult_mod_eq flip: n_def)
  qed
  moreover have "unat x div 32 mod 2 * 32 = (if x AND 0x20 \<noteq> 0 then 32 else 0)"
    unfolding byte_bit5 by (simp add: mod_2_eq_odd)
  ultimately show ?thesis using byte_low5 [of x] by linarith
qed

lemma read_tag_canonical:
  assumes "read_tag b offset = Inr (t, p)" "offset < length b"
  shows "take (p - offset) (drop offset b) = der_tag (unat (drop_bit 6 (b ! offset))) (b ! offset AND 0x20 \<noteq> 0) t"
proof -
  let ?x = "b ! offset"
  have d: "drop offset b = ?x # drop (Suc offset) b" using assms(2) by (simp add: Cons_nth_drop_Suc)
  have low: "unat (?x AND 0x1f) < 32" by (simp add: byte_low5)
  have x: "?x = of_nat (unat (drop_bit 6 ?x) * 64 + (if ?x AND 0x20 \<noteq> 0 then 32 else 0) + unat (?x AND 0x1f))"
    by (rule byte_of_nat) (rule lead_octet)
  show ?thesis
  proof (cases "unat (?x AND 0x1f) = 31")
    case False
    with assms(1) have r: "t = unat (?x AND 0x1f)" "p = Suc offset" by (auto simp: read_tag_def Let_def)
    then have "der_tag (unat (drop_bit 6 ?x)) (?x AND 0x20 \<noteq> 0) t = [?x]"
      using low False x unfolding der_tag_def Let_def r by simp
    then show ?thesis using d r by simp
  next
    case True
    with assms(1) have r: "tag_octets 4 b (Suc offset) 0 = Inr (t, p)" "\<not> t < 31"
      "Suc offset < length b \<longrightarrow> b ! Suc offset \<noteq> 0x80"
      by (auto simp: read_tag_def Let_def bindE_Inr_conv split: if_splits)
    have p: "Suc offset < p" "p \<le> length b" using tag_octets_progress [OF r(1)] by auto
    have "take (p - Suc offset) (drop (Suc offset) b) = b128 t"
      using tag_octets_canonical [OF r(1)] r(3) p by (simp add: b128_high.simps)
    moreover have "der_tag (unat (drop_bit 6 ?x)) (?x AND 0x20 \<noteq> 0) t = ?x # b128 t"
      using x r(2) True unfolding der_tag_def Let_def by simp
    moreover have "take (p - offset) (drop offset b) = ?x # take (p - Suc offset) (drop (Suc offset) b)"
      using d p by (simp add: take_Cons' Suc_diff_Suc)
    ultimately show ?thesis by simp
  qed
qed

lemma read_length_canonical:
  assumes "read_length b p = Inr (n, p')"
  shows "take (p' - p) (drop p b) = der_length n"
proof -
  let ?x = "b ! p"
  from assms have p: "p < length b" by (simp add: read_length_def split: if_splits)
  then have d: "drop p b = ?x # drop (Suc p) b" by (simp add: Cons_nth_drop_Suc)
  show ?thesis
  proof (cases "?x < 0x80")
    case True
    with assms p have r: "n = unat ?x" "p' = Suc p" by (simp_all add: read_length_def Let_def)
    have "unat ?x < 128" using True by (simp add: word_less_nat_alt)
    then show ?thesis using d byte_of_nat [of ?x n] r by (simp add: der_length_def)
  next
    case False
    let ?n = "unat (?x AND 0x7f)"
    let ?bs = "take ?n (drop (Suc p) b)"
    from False assms p have r: "n = be_value ?bs" "p' = Suc p + ?n" "Suc p + ?n \<le> length b" "\<not> n < 128"
        "?x \<noteq> 0x80" "b ! Suc p \<noteq> 0"
      by (auto simp: read_length_def Let_def split: if_splits)
    have x: "128 \<le> unat ?x" using False by (simp add: word_less_nat_alt)
    have xv: "unat ?x = 128 + ?n" using byte_high7 [OF x] by (simp add: byte_low7)
    then have n0: "?n \<noteq> 0" using r(5) byte_of_nat [of ?x 128] by fastforce
    then have "?bs \<noteq> []" "hd ?bs \<noteq> 0" using r(3,6) by (auto simp: hd_drop_conv_nth)
    then have "be_octets n = ?bs" using be_octets_value [of ?bs] r(1) by simp
    moreover have "length ?bs = ?n" using r(3) by simp
    ultimately have "der_length n = ?x # ?bs"
      using r(4) byte_of_nat [OF xv] by (simp add: der_length_def)
    then show ?thesis using d r(2) by simp
  qed
qed

lemma readTlv_canonical:
  assumes "readTlv b offset = Inr t"
  shows "element b t = der_header (tlv_cls t) (tlv_constructed t) (tlv_tag t) (length (content b t)) @ content b t"
proof -
  from assms obtain tag p n q where o: "offset < length b" and tag: "read_tag b offset = Inr (tag, p)"
    and len: "read_length b p = Inr (n, q)" and fit: "q + n \<le> length b"
    and t: "t = \<lparr> tlv_cls = unat (drop_bit 6 (b ! offset)), tlv_constructed = (b ! offset AND 0x20 \<noteq> 0), tlv_tag = tag,
       tlv_start = offset, tlv_headerLen = q - offset, tlv_contentStart = q, tlv_contentEnd = q + n, tlv_end = q + n \<rparr>"
    by (auto simp: readTlv_def Let_def bindE_Inr_conv not_le split: if_splits)
  have op: "offset < p" "p \<le> length b" using read_tag_progress [OF tag o] by auto
  have pq: "p < q" "q \<le> length b" using read_length_progress [OF len] by auto
  have split: "drop offset (take (q + n) b) = take (p - offset) (drop offset b) @ take (q - p) (drop p b) @ take n (drop q b)"
    using op pq range_append [of offset p "q + n" b] range_append [of p q "q + n" b] by (simp add: drop_take)
  have "content b t = take n (drop q b)" "length (take n (drop q b)) = n"
    using fit by (simp_all add: t content_def drop_take)
  then show ?thesis
    using split read_tag_canonical [OF tag o] read_length_canonical [OF len]
    by (simp add: t element_def der_header_def)
qed

text \<open>Every failure is the one error of the parser.\<close>

lemma tag_octets_error: "tag_octets k b p t = Inl e \<Longrightarrow> e = parse_error"
proof (induction k arbitrary: p t)
  case 0
  then show ?case by (simp add: tag_octets.simps split: if_splits)
next
  case (Suc k)
  then show ?case by (auto simp: tag_octets.simps [of "Suc k"] Let_def split: if_splits)
qed

lemma readTlv_error: "readTlv b o' = Inl e \<Longrightarrow> e = parse_error"
  by (auto simp: readTlv_def read_tag_def read_length_def Let_def bindE_Inl_conv dest: tag_octets_error split: if_splits)

subsection \<open>Children tile their parent\<close>

lemma children_loop_tile:
  "children_loop b t p = Inr kids \<Longrightarrow> p \<le> tlv_contentEnd t \<Longrightarrow> tlv_contentEnd t \<le> length b \<Longrightarrow>
   concat (map (element b) kids) = drop p (take (tlv_contentEnd t) b)
   \<and> (\<forall>k \<in> set kids. \<exists>o'. readTlv b o' = Inr k \<and> p \<le> tlv_start k \<and> tlv_end k \<le> tlv_contentEnd t)"
proof (induction b t p arbitrary: kids rule: children_loop.induct)
  case (1 b t p)
  show ?case
  proof (cases "p < tlv_contentEnd t")
    case False
    with 1 show ?thesis by (simp add: children_loop.simps)
  next
    case True
    with 1(2) obtain k rest where k: "readTlv b p = Inr k" "tlv_end k \<le> tlv_contentEnd t"
      and rest: "children_loop b t (tlv_end k) = Inr rest" and kids: "kids = k # rest"
      by (auto simp: children_loop.simps [of b t p] bindE_Inr_conv not_less split: sum.splits if_splits)
    note bd = readTlv_bounds [OF k(1)]
    have "\<not> tlv_contentEnd t < tlv_end k" using k(2) by simp
    from 1(1) [OF True k(1) this rest k(2) 1(4)]
    have IH: "concat (map (element b) rest) = drop (tlv_end k) (take (tlv_contentEnd t) b)"
      "\<forall>c \<in> set rest. \<exists>o'. readTlv b o' = Inr c \<and> tlv_end k \<le> tlv_start c \<and> tlv_end c \<le> tlv_contentEnd t" by auto
    have "element b k = drop p (take (tlv_end k) (take (tlv_contentEnd t) b))"
      using bd k(2) by (simp add: element_def min_absorb1)
    then have "concat (map (element b) kids) = drop p (take (tlv_contentEnd t) b)"
      using IH(1) bd k(2) kids range_append [of p "tlv_end k" "tlv_contentEnd t" b] by (simp add: min_absorb1)
    then show ?thesis using IH(2) k bd kids by fastforce
  qed
qed

subsection \<open>Integers\<close>

text \<open>The number that the content octets of an INTEGER stand for.\<close>

definition signed_value :: "bytes \<Rightarrow> int" where
  "signed_value c = int (be_value c) - (if 128 \<le> unat (hd c) then 256 ^ length c else 0)"

definition minimal_integer :: "bytes \<Rightarrow> bool" where
  "minimal_integer c \<longleftrightarrow> c \<noteq> [] \<and> \<not> (length c > 1 \<and> c ! 0 = 0x00 \<and> c ! 1 < 0x80)
     \<and> \<not> (length c > 1 \<and> c ! 0 = 0xff \<and> c ! 1 \<ge> 0x80)"

lemma be_value_less: "be_value bs < 256 ^ length bs"
proof (induction bs)
  case (Cons x bs)
  have "unat x * 256 ^ length bs + be_value bs < (unat x + 1) * 256 ^ length bs" using Cons by simp
  also have "\<dots> \<le> 256 * 256 ^ length bs" using unat_byte_less [of x] by (intro mult_le_mono1) simp
  finally show ?case by (simp add: be_value_Cons)
qed simp

lemma be_value_inj: "length a = length b \<Longrightarrow> be_value a = be_value b \<Longrightarrow> a = b"
proof (induction a b rule: list_induct2)
  case (Cons x xs y ys)
  have "unat x = (unat x * 256 ^ length xs + be_value xs) div 256 ^ length xs"
    "unat y = (unat y * 256 ^ length ys + be_value ys) div 256 ^ length ys"
    using be_value_less [of xs] be_value_less [of ys] by simp_all
  with Cons have "unat x = unat y" by (simp add: be_value_Cons)
  with Cons show ?case by (simp add: be_value_Cons)
qed simp

lemma signed_range:
  assumes "c \<noteq> []"
  shows "- (128 * 256 ^ (length c - 1)) \<le> signed_value c \<and> signed_value c < 128 * 256 ^ (length c - 1)"
proof -
  obtain x r where c: "c = x # r" using assms by (cases c) auto
  define u P m where "u = unat x" and "P = (256 :: int) ^ length r" and "m = int (be_value r)"
  have v: "signed_value c = int u * P + m - (if 128 \<le> u then 256 * P else 0)"
    by (simp add: c signed_value_def be_value_Cons u_def P_def m_def)
  have m: "0 \<le> m" "m < P" unfolding m_def P_def using be_value_less [of r] by (simp_all flip: of_nat_less_iff)
  have P: "0 < P" by (simp add: P_def)
  have u: "u < 256" unfolding u_def by (rule unat_byte_less)
  have "- (128 * P) \<le> signed_value c \<and> signed_value c < 128 * P"
  proof (cases "128 \<le> u")
    case True
    have "128 * P \<le> int u * P" "int u * P \<le> 255 * P" using True u P by (intro mult_right_mono; simp)+
    moreover have "signed_value c = int u * P + m - 256 * P" using True v by simp
    ultimately show ?thesis using m P by linarith
  next
    case False
    have "int u * P \<le> 127 * P" using False P by (intro mult_right_mono) auto
    moreover have "0 \<le> int u * P" using P by simp
    moreover have "signed_value c = int u * P + m" using False v by simp
    ultimately show ?thesis using m P by linarith
  qed
  then show ?thesis by (simp add: c P_def)
qed

lemma minimal_wide:
  assumes "minimal_integer c" "2 \<le> length c"
  shows "128 * 256 ^ (length c - 2) \<le> signed_value c \<or> signed_value c < - (128 * 256 ^ (length c - 2))"
proof -
  obtain x y r where c: "c = x # y # r" using assms(2) by (cases c; cases "tl c") auto
  define u w P m where "u = unat x" and "w = unat y" and "P = (256 :: int) ^ length r" and "m = int (be_value r)"
  have v: "signed_value c = int u * (256 * P) + (int w * P + m) - (if 128 \<le> u then 65536 * P else 0)"
    by (simp add: c signed_value_def be_value_Cons u_def w_def P_def m_def)
  have m: "0 \<le> m" "m < P" unfolding m_def P_def using be_value_less [of r] by (simp_all flip: of_nat_less_iff)
  have P: "0 < P" by (simp add: P_def)
  have uw: "u < 256" "w < 256" unfolding u_def w_def by (rule unat_byte_less)+
  have w: "0 \<le> int w * P" "int w * P \<le> 255 * P" using uw P by (simp, intro mult_right_mono) auto
  have ff: "w < 128" if "u = 255"
    using that assms(1) byte_of_nat [of x 255] by (simp add: minimal_integer_def c word_less_nat_alt not_le w_def u_def)
  have zero: "128 \<le> w" if "u = 0"
    using that assms(1) byte_of_nat [of x 0] by (simp add: minimal_integer_def c word_less_nat_alt not_less w_def u_def)
  have "128 * P \<le> signed_value c \<or> signed_value c < - (128 * P)"
  proof (cases "128 \<le> u")
    case True
    show ?thesis
    proof (cases "u = 255")
      case u: True
      have "int w * P \<le> 127 * P" using ff [OF u] P by (intro mult_right_mono) auto
      moreover have "signed_value c = int w * P + m - 256 * P" using u v by simp
      ultimately show ?thesis using m P by linarith
    next
      case False
      then have "int u * (256 * P) \<le> 254 * (256 * P)" using uw P by (intro mult_right_mono) auto
      moreover have "signed_value c = int u * (256 * P) + (int w * P + m) - 65536 * P" using True v by simp
      ultimately show ?thesis using m w P by linarith
    qed
  next
    case False
    show ?thesis
    proof (cases "u = 0")
      case u: True
      have "128 * P \<le> int w * P" using zero [OF u] P by (intro mult_right_mono) auto
      moreover have "signed_value c = int w * P + m" using u v by simp
      ultimately show ?thesis using m by linarith
    next
      case nz: False
      then have "1 * (256 * P) \<le> int u * (256 * P)" using P by (intro mult_right_mono) auto
      moreover have "signed_value c = int u * (256 * P) + (int w * P + m)" using False v by simp
      ultimately show ?thesis using m w P by linarith
    qed
  qed
  then show ?thesis by (simp add: c P_def)
qed

lemma minimal_not_longer:
  assumes "minimal_integer a" "minimal_integer b" "signed_value a = signed_value b"
  shows "length b \<le> length a"
proof (rule ccontr)
  assume "\<not> length b \<le> length a"
  moreover have "a \<noteq> []" using assms(1) by (simp add: minimal_integer_def)
  ultimately have l: "2 \<le> length b" "length a - 1 \<le> length b - 2" by (cases a; simp)+
  have "(256 :: int) ^ (length a - 1) \<le> 256 ^ (length b - 2)" using l(2) by (intro power_increasing) auto
  with signed_range [OF \<open>a \<noteq> []\<close>] minimal_wide [OF assms(2) l(1)] assms(3) show False by linarith
qed

lemma integer_canonical:
  assumes "minimal_integer a" "minimal_integer b" "signed_value a = signed_value b"
  shows "a = b"
proof -
  have l: "length a = length b"
    using minimal_not_longer [OF assms] minimal_not_longer [OF assms(2,1) assms(3) [symmetric]] by simp
  have ne: "a \<noteq> []" "b \<noteq> []" using assms by (simp_all add: minimal_integer_def)
  have "int (be_value a) < 256 ^ length a" "int (be_value b) < 256 ^ length b"
    using be_value_less [of a] be_value_less [of b] by (simp_all flip: of_nat_less_iff)
  then have "be_value a = be_value b" using assms(3)
    by (simp only: signed_value_def l split: if_splits)
  with l show ?thesis by (rule be_value_inj)
qed

lemma readInteger_accepts:
  assumes "readInteger b t = Inr i"
  shows "tlv_cls t = 0 \<and> tlv_tag t = 2 \<and> \<not> tlv_constructed t \<and> content b t = int_bytes i \<and> minimal_integer (int_bytes i)
    \<and> (int_negative i \<longleftrightarrow> signed_value (int_bytes i) < 0)
    \<and> int_value i = (if 0 \<le> signed_value (int_bytes i) \<and> signed_value (int_bytes i) < 2 ^ 53
                     then Some (nat (signed_value (int_bytes i))) else None)"
proof -
  let ?c = "content b t"
  from assms have e: "tlv_cls t = 0" "tlv_tag t = 2" "\<not> tlv_constructed t" and ne: "?c \<noteq> []"
    and m: "minimal_integer ?c"
    and i: "i = \<lparr> int_bytes = ?c, int_value = (if ?c ! 0 AND 0x80 = 0 \<and> (length ?c < 7 \<or> length ?c = 7 \<and> ?c ! 0 < 0x20)
        then Some (be_value ?c) else None), int_negative = (?c ! 0 AND 0x80 \<noteq> 0) \<rparr>"
    by (auto simp: readInteger_def expectTlv_def bindE_Inr_conv minimal_integer_def Let_def split: if_splits)
  obtain x r where c: "?c = x # r" using ne by (cases ?c) auto
  have lt: "int (be_value ?c) < 256 ^ length ?c" using be_value_less [of ?c] by (simp flip: of_nat_less_iff)
  have neg: "(?c ! 0 AND 0x80 \<noteq> 0) \<longleftrightarrow> signed_value ?c < 0"
    using lt by (auto simp: c signed_value_def byte_high_bit not_less)
  have small: "be_value ?c < 2 ^ 53 \<longleftrightarrow> length ?c < 7 \<or> length ?c = 7 \<and> ?c ! 0 < 0x20" if "unat x < 128"
  proof -
    consider "length ?c < 7" | "length ?c = 7" | "7 < length ?c" by linarith
    then show ?thesis
    proof cases
      case 1
      have "(256 :: nat) ^ length ?c \<le> 256 ^ 6" using 1 by (intro power_increasing) auto
      then show ?thesis using 1 be_value_less [of ?c] by simp
    next
      case 2
      then have l: "length r = 6" by (simp add: c)
      have "be_value r < 256 ^ 6" using be_value_less [of r] l by simp
      then show ?thesis using l by (auto simp: c be_value_Cons word_less_nat_alt)
    next
      case 3
      have "minimal_integer ?c" by (rule m)
      then have "128 * 256 ^ (length ?c - 2) \<le> int (be_value ?c)"
        using minimal_wide [of ?c] 3 that lt by (auto simp: c signed_value_def)
      moreover have "(256 :: int) ^ 6 \<le> 256 ^ (length ?c - 2)" using 3 by (intro power_increasing) auto
      ultimately have "2 ^ 53 \<le> int (be_value ?c)" by simp
      then show ?thesis using 3 by simp
    qed
  qed
  have "int_value i = (if 0 \<le> signed_value ?c \<and> signed_value ?c < 2 ^ 53 then Some (nat (signed_value ?c)) else None)"
  proof (cases "unat x < 128")
    case True
    then show ?thesis using small by (auto simp: i c signed_value_def byte_high_bit)
  next
    case False
    then show ?thesis using neg by (auto simp: i c byte_high_bit)
  qed
  then show ?thesis using e m neg by (simp add: i)
qed

subsection \<open>ECDSA signatures\<close>

definition der_integer_octets :: "bytes \<Rightarrow> bytes" where
  "der_integer_octets c = der_header 0 False 2 (length c) @ c"

definition ecdsa_octets :: "bytes \<Rightarrow> bytes \<Rightarrow> bytes" where
  "ecdsa_octets r s =
     der_header 0 True 16 (length (der_integer_octets r @ der_integer_octets s)) @ der_integer_octets r @ der_integer_octets s"

lemma signed_value_nonneg: "c \<noteq> [] \<Longrightarrow> 0 \<le> signed_value c \<Longrightarrow> signed_value c = int (be_value c)"
proof -
  assume "c \<noteq> []" "0 \<le> signed_value c"
  moreover have "int (be_value c) < 256 ^ length c" using be_value_less [of c] by (simp flip: of_nat_less_iff)
  ultimately show ?thesis by (simp only: signed_value_def split: if_splits) simp
qed

lemma ecdsa_half_value:
  assumes "ecdsa_half e n i = Inr h"
  shows "\<not> int_negative i \<and> length h = n \<and> be_value h = be_value (int_bytes i)"
proof -
  let ?x = "if length (int_bytes i) > 1 \<and> int_bytes i ! 0 = 0 then drop 1 (int_bytes i) else int_bytes i"
  from assms have h: "\<not> int_negative i" "length ?x \<le> n" "h = replicate (n - length ?x) 0 @ ?x"
    by (auto simp: ecdsa_half_def Let_def split: if_splits)
  have "be_value ?x = be_value (int_bytes i)"
    by (cases "int_bytes i") (auto simp: be_value_Cons)
  with h show ?thesis by simp
qed

lemma readInteger_element:
  assumes "readTlv b o' = Inr t" "readInteger b t = Inr i"
  shows "element b t = der_integer_octets (int_bytes i)"
  using readTlv_canonical [OF assms(1)] readInteger_accepts [OF assms(2)] by (simp add: der_integer_octets_def)

lemma ecdsa_accepts:
  assumes "ecdsaDerToRaw sig n e = Inr raw"
  shows "\<exists>r s. sig = ecdsa_octets r s \<and> minimal_integer r \<and> minimal_integer s
    \<and> signed_value r = int (be_value (take n raw)) \<and> signed_value s = int (be_value (drop n raw)) \<and> length raw = 2 * n"
proof -
  from assms obtain seq kids where all: "readAll sig = Inr seq"
    and sh: "tlv_cls seq = 0" "tlv_tag seq = 16" "tlv_constructed seq" and ch: "children sig seq = Inr kids"
    and two: "length kids = 2"
    by (auto simp: ecdsaDerToRaw_def bindE_Inr_conv expectTlv_def split: sum.splits if_splits)
  then obtain k1 k2 where kids: "kids = [k1, k2]"
    by (metis One_nat_def Suc_1 length_0_conv length_Suc_conv)
  from assms obtain i1 i2 h1 h2 where i: "readInteger sig k1 = Inr i1" "readInteger sig k2 = Inr i2"
    and h: "ecdsa_half e n i1 = Inr h1" "ecdsa_half e n i2 = Inr h2" and raw: "raw = h1 @ h2"
    by (auto simp: ecdsaDerToRaw_def all ch sh kids bindE_Inr_conv expectTlv_def split: sum.splits prod.splits)
  from all have rd: "readTlv sig 0 = Inr seq" and en: "tlv_end seq = length sig"
    by (auto simp: readAll_def bindE_Inr_conv split: if_splits)
  note bd = readTlv_bounds [OF rd]
  have loop: "children_loop sig seq (tlv_contentStart seq) = Inr kids" using ch sh by (simp add: children_def)
  from children_loop_tile [OF loop] bd
  have tile: "element sig k1 @ element sig k2 = content sig seq"
    and k: "\<exists>o'. readTlv sig o' = Inr k1" "\<exists>o'. readTlv sig o' = Inr k2"
    by (auto simp: kids content_def)
  have body: "content sig seq = der_integer_octets (int_bytes i1) @ der_integer_octets (int_bytes i2)"
    using tile k i readInteger_element by metis
  have "element sig seq = sig" using bd en by (simp add: element_def)
  then have "sig = ecdsa_octets (int_bytes i1) (int_bytes i2)"
    using readTlv_canonical [OF rd] sh body by (simp add: ecdsa_octets_def)
  moreover note readInteger_accepts [OF i(1)] readInteger_accepts [OF i(2)]
  moreover have "signed_value (int_bytes i1) = int (be_value h1)" "signed_value (int_bytes i2) = int (be_value h2)"
    using ecdsa_half_value [OF h(1)] ecdsa_half_value [OF h(2)] signed_value_nonneg
      readInteger_accepts [OF i(1)] readInteger_accepts [OF i(2)]
    by (simp_all add: minimal_integer_def not_less)
  ultimately show ?thesis using ecdsa_half_value [OF h(1)] ecdsa_half_value [OF h(2)] raw by auto
qed

lemma ecdsa_unique:
  assumes "ecdsaDerToRaw sig n e = Inr raw" "ecdsaDerToRaw sig' n e' = Inr raw"
  shows "sig = sig'"
  using ecdsa_accepts [OF assms(1)] ecdsa_accepts [OF assms(2)] integer_canonical by metis

subsection \<open>Canonical encodings are accepted\<close>

lemma be_octets_facts:
  "be_value (be_octets n) = n \<and> (be_octets n = [] \<or> hd (be_octets n) \<noteq> 0)"
proof (induction n rule: be_octets.induct)
  case (1 n)
  show ?case
  proof (cases "n = 0")
    case False
    from 1 [OF False] have IH: "be_value (be_octets (n div 256)) = n div 256"
      "be_octets (n div 256) = [] \<or> hd (be_octets (n div 256)) \<noteq> 0" by auto
    have d: "be_octets n = be_octets (n div 256) @ [of_nat (n mod 256)]" using False by (simp add: be_octets.simps [of n])
    have "hd (be_octets n) \<noteq> 0"
    proof (cases "n div 256 = 0")
      case True
      then have "n < 256" by simp
      then have "unat (of_nat n :: byte) \<noteq> 0" using False by (simp only: unat_of_nat_byte) simp
      then have "(of_nat n :: byte) \<noteq> 0" by (metis unsigned_0)
      then show ?thesis using d True \<open>n < 256\<close> by (simp add: be_octets.simps [of 0])
    next
      case F: False
      then have "be_octets (n div 256) \<noteq> []" by (simp add: be_octets.simps [of "n div 256"])
      then show ?thesis using IH(2) d by simp
    qed
    moreover have "be_value (be_octets n) = n" using IH(1) by (simp add: d unat_of_nat_byte)
    ultimately show ?thesis by simp
  qed (simp add: be_octets.simps [of 0])
qed

lemma length_be_octets: "n < 256 ^ k \<Longrightarrow> length (be_octets n) \<le> k"
proof (induction k arbitrary: n)
  case 0
  then show ?case by (simp add: be_octets.simps [of 0])
next
  case (Suc k)
  show ?case
  proof (cases "n = 0")
    case False
    have "n div 256 < 256 ^ k" using Suc.prems by (simp add: div_less_iff_less_mult mult.commute)
    from Suc.IH [OF this] show ?thesis using False by (simp add: be_octets.simps [of n])
  qed (simp add: be_octets.simps [of 0])
qed

lemma at_append: "length a = k \<Longrightarrow> (a @ x # r) ! k = x"
  by auto

lemma read_length_encoded:
  assumes "drop p b = der_length n @ rest" "n < 2 ^ 32" "p \<le> length b"
  shows "read_length b p = Inr (n, p + length (der_length n))"
proof (cases "n < 128")
  case True
  then have d: "drop p b = of_nat n # rest" using assms(1) by (simp add: der_length_def)
  then have p: "p < length b" by (metis drop_eq_Nil list.distinct(1) not_le)
  then have x: "b ! p = of_nat n" using d by (metis nth_via_drop)
  have "unat (of_nat n :: byte) = n" using True by (simp add: unat_of_nat_byte)
  then show ?thesis using True p x by (simp add: read_length_def der_length_def word_less_nat_alt)
next
  case False
  let ?o = "be_octets n"
  have o: "be_value ?o = n" "?o = [] \<or> hd ?o \<noteq> 0" using be_octets_facts [of n] by auto
  have l: "length ?o \<le> 4" using length_be_octets [of n 4] assms(2) by simp
  have ne: "?o \<noteq> []" using o(1) False by auto
  have d: "drop p b = of_nat (128 + length ?o) # ?o @ rest" using assms(1) False by (simp add: der_length_def)
  then have p: "p < length b" by (metis drop_eq_Nil list.distinct(1) not_le)
  have x: "b ! p = of_nat (128 + length ?o)" using d by (metis nth_via_drop)
  have d2: "drop (Suc p) b = ?o @ rest" using d by (metis drop_Suc list.sel(3) tl_drop)
  then have len: "Suc p + length ?o \<le> length b"
    by (metis add_le_mono1 append_take_drop_id le_add1 length_append length_drop le_diff_conv2 add.commute Suc_leI p)
  have y: "b ! Suc p = hd ?o"
    using d2 ne by (metis append_is_Nil_conv hd_append2 hd_drop_conv_nth drop_eq_Nil not_le)
  have u: "unat (of_nat (128 + length ?o) :: byte) = 128 + length ?o"
    using l by (simp only: unat_of_nat_byte) simp
  have low: "unat ((of_nat (128 + length ?o) :: byte) AND 0x7f) = length ?o" using l u by (simp only: byte_low7) simp
  have c: "\<not> (of_nat (128 + length ?o) :: byte) < 0x80" "(of_nat (128 + length ?o) :: byte) \<noteq> 0x80"
    "(of_nat (128 + length ?o) :: byte) \<noteq> 0xff"
    using u ne l by (auto simp: word_less_nat_alt word_eq_iff_unsigned [where ?'a = nat])
  show ?thesis
    using c low len d2 y o ne False l p
    unfolding read_length_def Let_def x by (simp add: der_length_def)
qed

lemma readTlv_encoded:
  assumes "drop k b = der_header cls cons tag (length c) @ c @ rest" "k \<le> length b" "cls < 4" "tag < 31"
    "length c < 2 ^ 32"
  shows "readTlv b k = Inr \<lparr> tlv_cls = cls, tlv_constructed = cons, tlv_tag = tag, tlv_start = k,
     tlv_headerLen = length (der_header cls cons tag (length c)), tlv_contentStart = k + length (der_header cls cons tag (length c)),
     tlv_contentEnd = k + length (der_header cls cons tag (length c)) + length c,
     tlv_end = k + length (der_header cls cons tag (length c)) + length c \<rparr>"
proof -
  let ?lead = "cls * 64 + (if cons then 32 else 0) + tag"
  have d: "drop k b = of_nat ?lead # der_length (length c) @ c @ rest"
    using assms(1,4) by (simp add: der_header_def der_tag_def)
  then have k: "k < length b" by (metis drop_eq_Nil list.distinct(1) not_le)
  define x where "x = (of_nat ?lead :: byte)"
  have x: "b ! k = x" unfolding x_def using d by (metis nth_via_drop)
  have u: "unat x = ?lead" unfolding x_def using assms(3,4) by (simp only: unat_of_nat_byte) simp
  have d2: "drop (Suc k) b = der_length (length c) @ c @ rest" using d by (metis drop_Suc list.sel(3) tl_drop)
  from read_length_encoded [OF d2 assms(5)] k
  have len: "read_length b (Suc k) = Inr (length c, Suc k + length (der_length (length c)))" by simp
  define q where "q = cls * 2 + (if cons then 1 else 0)"
  have lead: "?lead = tag + q * 32" by (simp add: q_def)
  have "?lead mod 32 = tag" "?lead div 32 = cls * 2 + (if cons then 1 else 0)"
    using assms(4) unfolding lead by (simp_all flip: q_def)
  then have low: "unat (x AND 0x1f) = tag" and bit: "(x AND 0x20 \<noteq> 0) = cons"
    unfolding byte_low5 byte_bit5 u by simp_all
  have cls: "unat (drop_bit 6 x) = cls" using lead_octet [of x] unfolding u low bit by simp
  have "length (drop k b) = length b - k" by simp
  then have fit: "Suc k + length (der_length (length c)) + length c \<le> length b" using d k by simp
  have tag: "read_tag b k = Inr (tag, Suc k)" using low assms(4) by (simp add: read_tag_def x)
  have h: "length (der_header cls cons tag (length c)) = Suc (length (der_length (length c)))"
    using assms(4) by (simp add: der_header_def der_tag_def)
  show ?thesis
    using k tag len fit cls bit by (simp add: readTlv_def Let_def x h not_le)
qed

end
