(* ===== verification/Der_Values.thy ===== *)
theory Der_Values
  imports Der_Correct
begin

text \<open>
  Round trips of the DER values: every pair of numbers has an ECDSA signature that converts to it, an
  object identifier is read back from its arcs and has one encoding while its arcs are exact in a double,
  and times are ordered as their digits are.
\<close>

subsection \<open>ECDSA signatures are accepted\<close>

lemma readInteger_encoded:
  assumes "minimal_integer c" "tlv_cls t = 0" "tlv_tag t = 2" "\<not> tlv_constructed t" "content b t = c"
  shows "\<exists>i. readInteger b t = Inr i \<and> int_bytes i = c \<and> (int_negative i \<longleftrightarrow> signed_value c < 0)"
proof -
  have "\<exists>i. readInteger b t = Inr i"
    using assms by (auto simp: readInteger_def expectTlv_def minimal_integer_def Let_def)
  then obtain i where i: "readInteger b t = Inr i" ..
  with readInteger_accepts [OF i] assms(5) show ?thesis by auto
qed

lemma ecdsa_half_encoded:
  assumes "minimal_integer c" "int_bytes i = c" "\<not> int_negative i" "0 \<le> signed_value c"
    "signed_value c < 256 ^ n" "0 < n"
  shows "\<exists>h. ecdsa_half e n i = Inr h"
proof -
  let ?x = "if length c > 1 \<and> c ! 0 = 0 then drop 1 c else c"
  have ne: "c \<noteq> []" using assms(1) by (simp add: minimal_integer_def)
  have v: "signed_value c = int (be_value c)" using signed_value_nonneg [OF ne assms(4)] .
  have x: "be_value ?x = be_value c" by (cases c) (auto simp: be_value_Cons)
  have "length ?x \<le> n"
  proof (cases "hd ?x = 0")
    case True
    then have "length c \<le> 1"
      using assms(1) ne by (cases c; cases "tl c") (auto simp: minimal_integer_def word_less_nat_alt split: if_splits)
    then show ?thesis using assms(6) by auto
  next
    case False
    then have "be_octets (be_value ?x) = ?x" by (intro be_octets_value) simp
    moreover have "int (be_value ?x) < int (256 ^ n)" using assms(5) v x by simp
    then have "be_value ?x < 256 ^ n" by (simp only: of_nat_less_iff)
    ultimately show ?thesis using length_be_octets [of "be_value ?x" n] by simp
  qed
  then show ?thesis using assms(2,3) by (auto simp: ecdsa_half_def Let_def)
qed

lemma content_range:
  "drop (tlv_contentStart t) b = c @ rest \<Longrightarrow> tlv_contentEnd t = tlv_contentStart t + length c \<Longrightarrow> content b t = c"
  by (simp add: content_def drop_take)

lemma ecdsa_encoded:
  assumes r: "minimal_integer r" "0 \<le> signed_value r" "signed_value r < 256 ^ n"
    and s: "minimal_integer s" "0 \<le> signed_value s" "signed_value s < 256 ^ n"
    and n: "0 < n" and len: "length (ecdsa_octets r s) < 2 ^ 32"
  shows "\<exists>raw. ecdsaDerToRaw (ecdsa_octets r s) n e = Inr raw"
proof -
  define b where "b = ecdsa_octets r s"
  define body where "body = der_integer_octets r @ der_integer_octets s"
  let ?h0 = "der_header 0 True 16 (length body)"
  let ?h1 = "der_header 0 False 2 (length r)" and ?h2 = "der_header 0 False 2 (length s)"
  have b: "b = ?h0 @ ?h1 @ r @ ?h2 @ s" by (simp add: b_def ecdsa_octets_def body_def der_integer_octets_def)
  have body: "body = ?h1 @ r @ ?h2 @ s" by (simp add: body_def der_integer_octets_def)
  have lb: "length b < 2 ^ 32" using len by (simp add: b_def)
  then have small: "length body < 2 ^ 32" "length r < 2 ^ 32" "length s < 2 ^ 32" by (simp_all add: b body)
  obtain seq where seq: "readTlv b 0 = Inr seq" "tlv_cls seq = 0" "tlv_constructed seq" "tlv_tag seq = 16"
    "tlv_contentStart seq = length ?h0" "tlv_contentEnd seq = length b" "tlv_end seq = length b"
    using readTlv_encoded [of 0 b 0 True 16 body "[]"] small(1) by (auto simp: b body)
  define p where "p = length ?h0"
  define q where "q = p + length ?h1 + length r"
  obtain k1 where k1: "readTlv b p = Inr k1" "tlv_cls k1 = 0" "\<not> tlv_constructed k1" "tlv_tag k1 = 2"
    "tlv_contentStart k1 = p + length ?h1" "tlv_contentEnd k1 = q" "tlv_end k1 = q"
    using readTlv_encoded [of p b 0 False 2 r "?h2 @ s"] small(2) by (auto simp: b p_def q_def)
  have dq: "drop q b = ?h2 @ s" by (simp add: b p_def q_def)
  obtain k2 where k2: "readTlv b q = Inr k2" "tlv_cls k2 = 0" "\<not> tlv_constructed k2" "tlv_tag k2 = 2"
    "tlv_contentStart k2 = q + length ?h2" "tlv_contentEnd k2 = length b" "tlv_end k2 = length b"
    using readTlv_encoded [of q b 0 False 2 s "[]"] small(3) dq by (auto simp: b p_def q_def)
  have c1: "content b k1 = r" by (rule content_range [of _ _ _ "?h2 @ s"]) (simp_all add: k1 b p_def q_def)
  have c2: "content b k2 = s" by (rule content_range [of _ _ _ "[]"]) (simp_all add: k2 b p_def q_def)
  have pq: "p < q" "q < length b"
    using readTlv_bounds [OF k1(1)] readTlv_bounds [OF k2(1)] k1(6) k2(6) by - (elim conjE, linarith)+
  have "children b seq = Inr [k1, k2]"
    using seq pq k1(1,7) k2(1,7)
    by (simp add: children_def p_def [symmetric] children_loop.simps [of b seq p] children_loop.simps [of b seq q]
        children_loop.simps [of b seq "length b"])
  moreover obtain i1 where i1: "readInteger b k1 = Inr i1" "int_bytes i1 = r" "\<not> int_negative i1"
    using readInteger_encoded [OF r(1) k1(2,4,3) c1] r(2) by auto
  moreover obtain i2 where i2: "readInteger b k2 = Inr i2" "int_bytes i2 = s" "\<not> int_negative i2"
    using readInteger_encoded [OF s(1) k2(2,4,3) c2] s(2) by auto
  moreover obtain h1 where "ecdsa_half e n i1 = Inr h1" using ecdsa_half_encoded [OF r(1) i1(2,3) r(2,3) n] by blast
  moreover obtain h2 where "ecdsa_half e n i2 = Inr h2" using ecdsa_half_encoded [OF s(1) i2(2,3) s(2,3) n] by blast
  ultimately show ?thesis
    using seq by (simp add: ecdsaDerToRaw_def readAll_def expectTlv_def flip: b_def)
qed

subsection \<open>Object identifiers\<close>

lemma to_double_exact: "n < 2 ^ 53 \<Longrightarrow> to_double n = n"
proof -
  have "to_double n = to_double_from (Suc 4) 0 n" by (simp add: to_double_def)
  then show "n < 2 ^ 53 \<Longrightarrow> to_double n = n" unfolding to_double_from.simps by (simp add: round_bits_def)
qed

lemma round_bits_ge: "2 ^ k dvd m \<Longrightarrow> m \<le> n \<Longrightarrow> m \<le> round_bits k n"
proof -
  assume m: "2 ^ k dvd m" "m \<le> n"
  then obtain a where a: "m = 2 ^ k * a" by blast
  have "a \<le> n div 2 ^ k" using m(2) a by (simp add: less_eq_div_iff_mult_less_eq mult.commute)
  then have "a * 2 ^ k \<le> n div 2 ^ k * 2 ^ k" by (rule mult_le_mono1)
  also have "\<dots> \<le> round_bits k n" unfolding round_bits_def Let_def by (intro mult_le_mono1) simp
  finally show ?thesis by (simp add: a mult.commute)
qed

lemma to_double_from_ge: "k \<le> 53 \<Longrightarrow> m + k \<le> 53 \<Longrightarrow> 2 ^ 53 \<le> n \<Longrightarrow> 2 ^ 53 \<le> to_double_from m k n"
proof (induction m arbitrary: k)
  case 0
  have "(2 :: nat) ^ 53 \<le> round_bits k n" by (rule round_bits_ge [OF le_imp_power_dvd]) (use 0 in simp_all)
  then show ?case by simp
next
  case (Suc m)
  have "2 ^ 53 \<le> round_bits k n" by (rule round_bits_ge [OF le_imp_power_dvd]) (use Suc.prems in simp_all)
  moreover have "2 ^ 53 \<le> to_double_from m (Suc k) n" using Suc.prems by (intro Suc.IH) simp_all
  ultimately show ?case by simp
qed

lemma to_double_small: "to_double n < 2 ^ 53 \<Longrightarrow> to_double n = n \<and> n < 2 ^ 53"
  using to_double_exact [of n] to_double_from_ge [of 0 5 n] by (cases "n < 2 ^ 53") (simp_all add: to_double_def)

text \<open>Octets of complete sub-identifiers.\<close>

lemma oid_loop_canonical:
  "oid_loop c v inSub arcs = Inr out \<Longrightarrow> (inSub \<longleftrightarrow> v \<noteq> 0) \<Longrightarrow> \<forall>a \<in> set out. a < 2 ^ 53 \<Longrightarrow>
   \<exists>new. out = arcs @ new \<and> b128_high v @ c = concat (map b128 new) \<and> (inSub \<longrightarrow> new \<noteq> [])"
proof (induction c v inSub arcs rule: oid_loop.induct)
  case (1 v inSub arcs)
  then show ?case by (auto simp: b128_high.simps [of 0] split: if_splits)
next
  case (2 x c v inSub arcs)
  let ?n = "v * 128 + unat (x AND 0x7f)"
  let ?v = "to_double ?n"
  from 2(3) have first: "inSub \<or> x \<noteq> 0x80" and sm: "v \<le> 0x3ffffffffffff"
    by (auto split: if_splits)
  have n: "?n div 128 = v" "?n mod 128 = unat x mod 128" by (simp_all add: byte_low7)
  show ?case
  proof (cases "x AND 0x80 = 0")
    case True
    with 2(3) first sm have r: "oid_loop c 0 False (arcs @ [?v]) = Inr out" by (simp add: Let_def split: if_splits)
    have "\<exists>new. out = (arcs @ [?v]) @ new \<and> b128_high 0 @ c = concat (map b128 new) \<and> (False \<longrightarrow> new \<noteq> [])"
      by (rule "2.IH"(1)) (use first sm True r 2(5) in auto)
    then obtain new where new: "out = arcs @ ?v # new" "c = concat (map b128 new)" by (auto simp: b128_high.simps [of 0])
    then have v: "?v = ?n" using 2(5) to_double_small [of ?n] by auto
    have "unat x < 128" using True by (simp add: byte_high_bit)
    then have "x = of_nat (?n mod 128)" using n by (intro byte_of_nat) simp
    then have "b128 ?n = b128_high v @ [x]" using n by (simp add: b128_def)
    then show ?thesis using new v by (intro exI [of _ "?v # new"]) simp
  next
    case False
    with 2(3) first sm have r: "oid_loop c ?v True arcs = Inr out" by (simp add: Let_def split: if_splits)
    have x: "unat x = 128 + unat x mod 128" using False by (intro byte_high7) (simp add: byte_high_bit)
    have nz: "?n \<noteq> 0"
    proof
      assume "?n = 0"
      then have "v = 0" "unat x = 128" using x by (simp_all add: byte_low7)
      then have "x = 0x80" using byte_of_nat [of x 128] by simp
      with \<open>v = 0\<close> first 2(4) show False by simp
    qed
    have vnz: "?v \<noteq> 0"
      using nz to_double_exact [of ?n] to_double_from_ge [of 0 5 ?n] by (cases "?n < 2 ^ 53") (simp_all add: to_double_def)
    have "\<exists>new. out = arcs @ new \<and> b128_high ?v @ c = concat (map b128 new) \<and> (True \<longrightarrow> new \<noteq> [])"
      by (rule "2.IH"(2)) (use first sm False r 2(5) vnz in auto)
    then obtain new where new: "out = arcs @ new" "b128_high ?v @ c = concat (map b128 new)" "new \<noteq> []" by blast
    have "?v \<le> 0x3ffffffffffff"
    proof -
      have "c \<noteq> []" using r by auto
      then obtain y c' where "c = y # c'" by (cases c) auto
      with r show ?thesis by (simp split: if_splits)
    qed
    then have v: "?v = ?n" using to_double_small [of ?n] by simp
    have "of_nat (128 + ?n mod 128) = x" using byte_of_nat [of x "128 + ?n mod 128"] x unfolding n(2) by simp
    then have "b128_high ?n = b128_high v @ [x]" using nz n(1) unfolding b128_high.simps [of ?n] by simp
    then show ?thesis using new v by auto
  qed
qed

lemma oid_contents:
  assumes "readOid b t = Inr out" "\<forall>a \<in> set out. a < 2 ^ 52"
  shows "\<exists>f arcs. content b t = concat (map b128 (f # arcs)) \<and> split_first_arc (f # arcs) = out"
proof -
  from assms(1) obtain arcs where c: "content b t \<noteq> []" "oid_loop (content b t) 0 False [] = Inr arcs"
    "out = split_first_arc arcs"
    by (auto simp: readOid_def bindE_Inr_conv Let_def split: if_splits)
  have "arcs \<noteq> []"
  proof
    assume "arcs = []"
    then show False using oid_loop_canonical [OF c(2)] c(1) by (auto simp: b128_high.simps [of 0])
  qed
  then obtain f rest where arcs: "arcs = f # rest" by (cases arcs) auto
  have "f < 2 ^ 53" "\<forall>a \<in> set rest. a < 2 ^ 53"
    using assms(2) by (auto simp: c(3) arcs split_first_arc_def Let_def split: if_splits)
  with oid_loop_canonical [OF c(2)] have "content b t = concat (map b128 arcs)"
    by (auto simp: b128_high.simps [of 0] arcs)
  with c(3) arcs show ?thesis by blast
qed

lemma split_first_arc_inj:
  "split_first_arc (f # a) = split_first_arc (g # b) \<Longrightarrow> f # a = g # b"
  by (auto simp: split_first_arc_def Let_def split: if_splits)

lemma oid_unique:
  assumes "readOid b t = Inr out" "readOid b' t' = Inr out" "\<forall>a \<in> set out. a < 2 ^ 52"
  shows "content b t = content b' t'"
  using oid_contents [OF assms(1,3)] oid_contents [OF assms(2,3)] split_first_arc_inj by metis

text \<open>An arc is converted exactly only below \<open>2 ^ 53\<close>: two different encodings give one identifier.\<close>

definition oid_tlv :: "bytes \<Rightarrow> tlv" where
  "oid_tlv c = \<lparr> tlv_cls = 0, tlv_constructed = False, tlv_tag = 6, tlv_start = 0, tlv_headerLen = 0,
     tlv_contentStart = 0, tlv_contentEnd = length c, tlv_end = length c \<rparr>"

lemma large_arcs_collide:
  "readOid [0x2a, 0x90, 0x80, 0x80, 0x80, 0x80, 0x80, 0x80, 0x00] (oid_tlv [0x2a, 0x90, 0x80, 0x80, 0x80, 0x80, 0x80, 0x80, 0x00])
     = Inr [1, 2, 9007199254740992]
   \<and> readOid [0x2a, 0x90, 0x80, 0x80, 0x80, 0x80, 0x80, 0x80, 0x01] (oid_tlv [0x2a, 0x90, 0x80, 0x80, 0x80, 0x80, 0x80, 0x80, 0x01])
     = Inr [1, 2, 9007199254740992]"
proof -
  have two_steps: "to_double n = (if n < 2 ^ 53 then round_bits 0 n else if n < 2 ^ 54 then round_bits 1 n
      else to_double_from 3 2 n)" for n
  proof -
    have "to_double n = to_double_from (Suc (Suc 3)) 0 n" by (simp add: to_double_def)
    then show ?thesis unfolding to_double_from.simps by (simp add: numeral_2_eq_2)
  qed
  have r: "to_double 9007199254740992 = 9007199254740992" "to_double 9007199254740993 = 9007199254740992"
    using two_steps [of 9007199254740992] two_steps [of 9007199254740993] by (simp_all add: round_bits_def)
  show ?thesis
    by (simp add: readOid_def oid_tlv_def expectTlv_def content_def split_first_arc_def to_double_exact r)
qed

subsection \<open>Times\<close>

lemma month_cases: "1 \<le> m \<Longrightarrow> m \<le> 12 \<Longrightarrow> m \<in> {1, 2, 3, 4, 5, 6, 7, 8, 9, 10, 11, 12 :: nat}"
  unfolding insert_iff empty_iff by arith

lemma months_ordered:
  assumes "1 \<le> m" "m < m'" "m' \<le> 12"
  shows "days_before_month y m + int (daysInMonth y m) \<le> days_before_month y m'"
proof -
  have "m \<in> {1, 2, 3, 4, 5, 6, 7, 8, 9, 10, 11, 12}" "m' \<in> {1, 2, 3, 4, 5, 6, 7, 8, 9, 10, 11, 12}"
    using assms by (intro month_cases; simp)+
  with assms(2) show ?thesis by (auto simp: days_before_month_def daysInMonth_def)
qed

lemma month_in_year:
  assumes "1 \<le> m" "m \<le> 12"
  shows "0 \<le> days_before_month y m \<and> days_before_month y m + int (daysInMonth y m) \<le> (if leap_year y then 366 else 365)"
  using month_cases [OF assms] by (auto simp: days_before_month_def daysInMonth_def)

lemma next_div: "0 < (k :: int) \<Longrightarrow> (a + 1) div k = a div k + (if (a + 1) mod k = 0 then 1 else 0)"
proof -
  assume k: "0 < k"
  define q r where "q = a div k" and "r = a mod k"
  have a: "a = k * q + r" "0 \<le> r" "r < k" using k by (simp_all add: q_def r_def)
  show ?thesis
  proof (cases "r + 1 = k")
    case True
    then have "a + 1 = k * (q + 1)" using a(1) by (simp add: algebra_simps)
    then show ?thesis using k by (simp add: q_def [symmetric])
  next
    case False
    then have "(a + 1) div k = q" "(a + 1) mod k = r + 1"
      using a by (simp_all add: add.assoc)
    then show ?thesis using a(2) by (simp add: q_def [symmetric])
  qed
qed

lemma shifted_mod: "(y + 1 - (c * k + 1)) mod k = y mod (k :: int)"
proof -
  have "y + 1 - (c * k + 1) = y + (- c) * k" by simp
  then show ?thesis by (simp only: mod_mult_self1)
qed

lemma year_step: "day_from_year (y + 1) = day_from_year y + (if leap_year y then 366 else 365)"
proof -
  define A A' B B' C C' where "A = (y - 1969) div 4" and "A' = (y + 1 - 1969) div 4"
    and "B = (y - 1901) div 100" and "B' = (y + 1 - 1901) div 100"
    and "C = (y - 1601) div 400" and "C' = (y + 1 - 1601) div 400"
  have A: "A' = A + (if y mod 4 = 0 then 1 else 0)"
    unfolding A_def A'_def using next_div [of 4 "y - 1969"] shifted_mod [of y 492 4] by (simp add: algebra_simps)
  have B: "B' = B + (if y mod 100 = 0 then 1 else 0)"
    unfolding B_def B'_def using next_div [of 100 "y - 1901"] shifted_mod [of y 19 100] by (simp add: algebra_simps)
  have C: "C' = C + (if y mod 400 = 0 then 1 else 0)"
    unfolding C_def C'_def using next_div [of 400 "y - 1601"] shifted_mod [of y 4 400] by (simp add: algebra_simps)
  have m: "y mod 400 = 0 \<longrightarrow> y mod 100 = 0" "y mod 100 = 0 \<longrightarrow> y mod 4 = 0"
    using mod_mod_cancel [of 100 400 y] mod_mod_cancel [of 4 100 y] by auto
  have "day_from_year y = 365 * (y - 1970) + A - B + C" "day_from_year (y + 1) = 365 * (y + 1 - 1970) + A' - B' + C'"
    by (simp_all only: day_from_year_def A_def A'_def B_def B'_def C_def C'_def)
  then show ?thesis using m by (cases "y mod 4 = 0"; cases "y mod 100 = 0"; cases "y mod 400 = 0")
      (simp_all add: A B C leap_year_def)
qed

lemma years_ordered: "day_from_year y + (if leap_year y then 366 else 365) \<le> day_from_year (y + 1 + int k)"
proof (induction k)
  case 0
  show ?case by (simp add: year_step)
next
  case (Suc k)
  have "day_from_year (y + 1 + int k) \<le> day_from_year (y + 1 + int k + 1)"
    using year_step [of "y + 1 + int k"] by simp
  moreover have "y + 1 + int k + 1 = y + 1 + int (Suc k)" by simp
  ultimately show ?case using Suc by simp
qed

definition day_number :: "nat \<Rightarrow> nat \<Rightarrow> nat \<Rightarrow> int" where
  "day_number y mo d = day_from_year (int y) + days_before_month (int y) mo + int d - 1"

lemma days_ordered:
  assumes "1 \<le> mo" "mo \<le> 12" "1 \<le> d" "d \<le> daysInMonth (int y) mo"
    and "1 \<le> mo'" "mo' \<le> 12" "1 \<le> d'" "d' \<le> daysInMonth (int y') mo'"
    and "y < y' \<or> y = y' \<and> (mo < mo' \<or> mo = mo' \<and> d < d')"
  shows "day_number y mo d < day_number y' mo' d'"
proof -
  consider (year) "y < y'" | (month) "y = y'" "mo < mo'" | (day) "y = y'" "mo = mo'" "d < d'" using assms(9) by blast
  then show ?thesis
  proof cases
    case year
    define k where "k = y' - y - 1"
    have "int y' = int y + 1 + int k" using year by (simp add: k_def)
    then have "day_from_year (int y) + (if leap_year (int y) then 366 else 365) \<le> day_from_year (int y')"
      using years_ordered [of "int y" k] by simp
    with month_in_year [OF assms(1,2), of "int y"] month_in_year [OF assms(5,6), of "int y'"] assms(4,7)
    show ?thesis unfolding day_number_def by (simp split: if_splits)
  next
    case month
    with months_ordered [OF assms(1) month(2) assms(6), of "int y"] assms(4,7)
    show ?thesis unfolding day_number_def by simp
  next
    case day
    then show ?thesis unfolding day_number_def by simp
  qed
qed

text \<open>The number that the decimal digits of a date and time spell.\<close>

definition stamp :: "nat \<Rightarrow> nat \<Rightarrow> nat \<Rightarrow> nat \<Rightarrow> nat \<Rightarrow> nat \<Rightarrow> nat" where
  "stamp y mo d h mi s = ((((y * 100 + mo) * 100 + d) * 100 + h) * 100 + mi) * 100 + s"

lemma hundred_less: "a * 100 + x < b * 100 + (z :: nat) \<Longrightarrow> x < 100 \<Longrightarrow> z < 100 \<Longrightarrow> a < b \<or> a = b \<and> x < z"
  by linarith

lemma dim_le: "daysInMonth y m \<le> 31" if "1 \<le> m" "m \<le> 12"
  using month_cases [OF that] by (auto simp: daysInMonth_def)

lemma toEpochMs_Inr:
  assumes "toEpochMs y mo d h mi s = Inr a" "100 \<le> y"
  shows "1 \<le> mo \<and> mo \<le> 12 \<and> 1 \<le> d \<and> d \<le> daysInMonth (int y) mo \<and> d \<le> 31 \<and> h \<le> 23 \<and> mi \<le> 59 \<and> s \<le> 59
    \<and> a = day_number y mo d * 86400000 + int h * 3600000 + int mi * 60000 + int s * 1000"
  using assms dim_le [of mo "int y"]
  by (auto simp: toEpochMs_def date_utc_def day_number_def Let_def split: if_splits)

lemma times_ordered:
  assumes a: "toEpochMs y mo d h mi s = Inr a" "100 \<le> y" and a': "toEpochMs y' mo' d' h' mi' s' = Inr a'" "100 \<le> y'"
    and less: "stamp y mo d h mi s < stamp y' mo' d' h' mi' s'"
  shows "a < a'"
proof -
  note f = toEpochMs_Inr [OF a] and f' = toEpochMs_Inr [OF a']
  from less have lex: "(y < y' \<or> y = y' \<and> (mo < mo' \<or> mo = mo' \<and> d < d'))
      \<or> y = y' \<and> mo = mo' \<and> d = d' \<and> (h < h' \<or> h = h' \<and> (mi < mi' \<or> mi = mi' \<and> s < s'))"
    unfolding stamp_def using f f' by (auto dest!: hundred_less)
  show ?thesis
  proof (cases "y < y' \<or> y = y' \<and> (mo < mo' \<or> mo = mo' \<and> d < d')")
    case True
    have "day_number y mo d < day_number y' mo' d'" by (rule days_ordered) (use f f' True in auto)
    with f f' show ?thesis by linarith
  next
    case False
    with lex f f' show ?thesis by auto
  qed
qed

definition time_digits :: "bytes \<Rightarrow> nat" where
  "time_digits c = foldl (\<lambda>a x. a * 10 + (unat x - 0x30)) 0 c"

lemma generalized_time_fields:
  assumes "readGeneralizedTime b t = Inr a"
  shows "\<exists>y mo d h mi s. toEpochMs y mo d h mi s = Inr a \<and> time_digits (take 14 (content b t)) = stamp y mo d h mi s"
proof -
  let ?c = "content b t"
  from assms have l: "length ?c = 15"
    and e: "toEpochMs (two_digits ?c 0 * 100 + two_digits ?c 2) (two_digits ?c 4) (two_digits ?c 6) (two_digits ?c 8)
       (two_digits ?c 10) (two_digits ?c 12) = Inr a"
    by (auto simp: readGeneralizedTime_def bindE_Inr_conv Let_def split: if_splits)
  obtain c0 c1 c2 c3 c4 c5 c6 c7 c8 c9 c10 c11 c12 c13 c14 where
    c: "?c = [c0, c1, c2, c3, c4, c5, c6, c7, c8, c9, c10, c11, c12, c13, c14]"
    using l by (auto simp: length_Suc_conv eval_nat_numeral)
  have "time_digits (take 14 ?c) = stamp (two_digits ?c 0 * 100 + two_digits ?c 2) (two_digits ?c 4) (two_digits ?c 6)
      (two_digits ?c 8) (two_digits ?c 10) (two_digits ?c 12)"
    by (simp add: c time_digits_def two_digits_def stamp_def)
  with e show ?thesis by blast
qed

text \<open>The digits determine the fields.\<close>

lemma hundred_eq: "a * 100 + x = b * 100 + (z :: nat) \<Longrightarrow> x < 100 \<Longrightarrow> z < 100 \<Longrightarrow> a = b \<and> x = z"
  by (cases a b rule: linorder_cases) linarith+

lemma stamp_inj:
  assumes "toEpochMs y mo d h mi s = Inr a" "100 \<le> y" "toEpochMs y' mo' d' h' mi' s' = Inr a'" "100 \<le> y'"
    and "stamp y mo d h mi s = stamp y' mo' d' h' mi' s'"
  shows "a = a'"
proof -
  note f = toEpochMs_Inr [OF assms(1,2)] and f' = toEpochMs_Inr [OF assms(3,4)]
  have "s < 100" "s' < 100" "mi < 100" "mi' < 100" "h < 100" "h' < 100" "d < 100" "d' < 100" "mo < 100" "mo' < 100"
    using f f' by auto
  with assms(5) have "y = y' \<and> mo = mo' \<and> d = d' \<and> h = h' \<and> mi = mi' \<and> s = s'"
    unfolding stamp_def by (metis hundred_eq)
  with assms(1,3) show ?thesis by simp
qed

lemma stamp_year:
  assumes "toEpochMs y mo d h mi s = Inr a"
  shows "10 ^ 12 \<le> stamp y mo d h mi s \<longleftrightarrow> 100 \<le> y"
proof -
  have "mo \<le> 12" "d \<le> 31" "h \<le> 23" "mi \<le> 59" "s \<le> 59"
    using assms dim_le [of mo "int y"] by (auto simp: toEpochMs_def split: if_splits)
  then show ?thesis unfolding stamp_def by simp linarith
qed

end
