(* ===== verification/Strings.thy ===== *)
theory Strings
  imports Text
begin

text \<open>
  More of JavaScript's string library: splitting at a string, prefixes and suffixes, slices by a
  character, joining, and the dotted and colon-separated texts built on them.
\<close>

subsection \<open>Operations\<close>

definition starts_with :: "jsstr \<Rightarrow> jsstr \<Rightarrow> bool" where
  "starts_with s p \<longleftrightarrow> take (length p) s = p"

definition ends_with :: "jsstr \<Rightarrow> jsstr \<Rightarrow> bool" where
  "ends_with s p \<longleftrightarrow> length p \<le> length s \<and> drop (length s - length p) s = p"

text \<open>\<open>s.split(sep)\<close> for a non-empty separator: leftmost occurrences, not overlapping.\<close>

function split_at :: "jsstr \<Rightarrow> jsstr \<Rightarrow> jsstr list" where
  "split_at sep [] = [[]]"
| "split_at sep (u # s) =
     (if sep \<noteq> [] \<and> starts_with (u # s) sep then [] # split_at sep (drop (length sep) (u # s))
      else case split_at sep s of [] \<Rightarrow> [[u]] | p # ps \<Rightarrow> (u # p) # ps)"
  by pat_completeness auto
termination
proof (relation "measure (\<lambda>(sep, s). length s)", goal_cases)
  case (2 sep u s)
  then show ?case by (cases sep) auto
qed auto

text \<open>\<open>parts.join(c)\<close> for a single character.\<close>

fun join_unit :: "nat \<Rightarrow> jsstr list \<Rightarrow> jsstr" where
  "join_unit c [] = []"
| "join_unit c [p] = p"
| "join_unit c (p # ps) = p @ c # join_unit c ps"

text \<open>\<open>s.lastIndexOf(c)\<close>.\<close>

definition last_index_unit :: "nat \<Rightarrow> jsstr \<Rightarrow> nat option" where
  "last_index_unit c s = map_option (\<lambda>k. length s - 1 - k) (index_unit c (rev s))"

subsection \<open>Lemmas\<close>

lemma join_split [simp]: "join_unit c (split_unit c s) = s"
proof (induction s)
  case (Cons u s)
  obtain p ps where p: "split_unit c s = p # ps" by (cases "split_unit c s") auto
  have "join_unit c ((u # p) # ps) = u # join_unit c (p # ps)" by (cases ps) simp_all
  with Cons p show ?case by auto
qed simp

lemma split_no_unit: "p \<in> set (split_unit c s) \<Longrightarrow> c \<notin> set p"
  by (induction s arbitrary: p) (auto split: list.splits if_splits)

lemma split_unit_join:
  "ps \<noteq> [] \<Longrightarrow> \<forall>p \<in> set ps. c \<notin> set p \<Longrightarrow> split_unit c (join_unit c ps) = ps"
proof (induction ps rule: join_unit.induct)
  case (2 c p)
  then show ?case by (simp add: split_unit_plain)
next
  case (3 c p q ps)
  have "split_unit c (a @ c # b) = a # split_unit c b" if "c \<notin> set a" for a b
    using that by (induction a) auto
  with 3 show ?case by simp
qed simp

lemma split_unit_append: "c \<notin> set a \<Longrightarrow> split_unit c (a @ c # b) = a # split_unit c b"
  by (induction a) auto

lemma split_at_front: "a \<notin> set l \<Longrightarrow> split_at (a # sep) (l @ a # sep @ r) = l # split_at (a # sep) r"
proof (induction l)
  case Nil
  then show ?case by (simp add: starts_with_def)
next
  case (Cons u l)
  then have "\<not> starts_with (u # l @ a # sep @ r) (a # sep)" by (auto simp: starts_with_def)
  with Cons show ?case by simp
qed

lemma split_at_plain: "a \<notin> set l \<Longrightarrow> split_at (a # sep) l = [l]"
  by (induction l) (auto simp: starts_with_def)

lemma split_at_nonempty [simp]: "split_at sep s \<noteq> []"
  by (cases "(sep, s)" rule: split_at.cases) (simp_all split: list.split)

lemma ends_with_append: "ends_with s p \<longleftrightarrow> (\<exists>x. s = x @ p)"
proof
  assume "ends_with s p"
  then show "\<exists>x. s = x @ p" unfolding ends_with_def by (metis append_take_drop_id)
qed (auto simp: ends_with_def)

lemma starts_with_append: "starts_with s p \<longleftrightarrow> (\<exists>x. s = p @ x)"
proof
  assume "starts_with s p"
  then show "\<exists>x. s = p @ x" unfolding starts_with_def by (metis append_take_drop_id)
qed (auto simp: starts_with_def)

lemma last_index_unit_Some:
  assumes "last_index_unit c s = Some k"
  shows "k < length s \<and> s ! k = c \<and> c \<notin> set (drop (Suc k) s)"
proof -
  from assms obtain j where j: "index_unit c (rev s) = Some j" and k: "k = length s - 1 - j"
    by (auto simp: last_index_unit_def)
  from index_unit_Some [OF j] have f: "j < length s" "rev s ! j = c" "c \<notin> set (take j (rev s))" by auto
  have "Suc k = length s - j" using f(1) k by simp
  then have "drop (Suc k) s = rev (take j (rev s))" by (simp only: take_rev rev_rev_ident)
  with f k show ?thesis by (auto simp: rev_nth)
qed

end
