(* ===== verification/Names.thy ===== *)
theory Names
  imports Strings Bytes
begin

text \<open>
  \<open>src/trust/name.js\<close>: IP literals, the identity check of a certificate against a host name, and the
  name and address subtrees of name constraints.
\<close>

subsection \<open>IP literals\<close>

definition decimal_octet :: "jsstr \<Rightarrow> nat option" where
  "decimal_octet p =
     (if \<not> (1 \<le> length p \<and> length p \<le> 3 \<and> list_all is_digit p) \<or> (length p > 1 \<and> p ! 0 = 0x30) then None
      else if parse_base 10 p > 255 then None
      else Some (parse_base 10 p))"

fun all_some :: "'a option list \<Rightarrow> 'a list option" where
  "all_some [] = Some []"
| "all_some (None # xs) = None"
| "all_some (Some x # xs) = map_option ((#) x) (all_some xs)"

definition parseIpv4 :: "jsstr \<Rightarrow> bytes option" where
  "parseIpv4 text =
     (let parts = split_unit 0x2E text
      in if length parts \<noteq> 4 then None
         else map_option (map of_nat) (all_some (map decimal_octet parts)))"

text \<open>The parts of a run between colons; a dotted quad only as the last part of the tail.\<close>

fun run_parts :: "bool \<Rightarrow> jsstr list \<Rightarrow> nat list option" where
  "run_parts isTail [] = Some []"
| "run_parts isTail (p # ps) =
     (if p = [] then None
      else if 0x2E \<in> set p then
        (if \<not> isTail \<or> ps \<noteq> [] then None
         else case parseIpv4 p of
                None \<Rightarrow> None
              | Some v4 \<Rightarrow> Some [unat (v4 ! 0) * 256 + unat (v4 ! 1), unat (v4 ! 2) * 256 + unat (v4 ! 3)])
      else if \<not> (length p \<le> 4 \<and> list_all is_hex p) then None
      else map_option ((#) (parse_base 16 p)) (run_parts isTail ps))"

definition parse_run :: "jsstr \<Rightarrow> bool \<Rightarrow> nat list option" where
  "parse_run run isTail = (if run = [] then Some [] else run_parts isTail (split_unit 0x3A run))"

definition group_octets :: "nat list \<Rightarrow> bytes" where
  "group_octets gs = concat (map (\<lambda>g. [of_nat (g div 256), of_nat (g mod 256)]) gs)"

definition parseIpv6 :: "jsstr \<Rightarrow> bytes option" where
  "parseIpv6 text =
     (if 0x25 \<in> set text then None
      else
        (let halves = split_at [0x3A, 0x3A] text
         in if length halves > 2 then None
            else if length halves = 2 then
              (case (parse_run (halves ! 0) False, parse_run (halves ! 1) True) of
                 (Some left, Some right) \<Rightarrow>
                   if length left + length right > 7 then None
                   else Some (group_octets (left @ replicate (8 - length left - length right) 0 @ right))
               | _ \<Rightarrow> None)
            else
              (case parse_run text True of
                 Some groups \<Rightarrow> if length groups \<noteq> 8 then None else Some (group_octets groups)
               | None \<Rightarrow> None)))"

definition parseIp :: "jsstr \<Rightarrow> bytes option" where
  "parseIp text =
     (let t = (if starts_with text [0x5B] \<and> ends_with text [0x5D] then butlast (tl text) else text)
      in if 0x3A \<in> set t then parseIpv6 t
         else if t \<noteq> [] \<and> list_all (\<lambda>u. is_digit u \<or> u = 0x2E) t then parseIpv4 t
         else None)"

subsection \<open>Host names\<close>

definition isAscii :: "jsstr \<Rightarrow> bool" where
  "isAscii s \<longleftrightarrow> list_all (\<lambda>u. 0x21 \<le> u \<and> u \<le> 0x7e) s"

definition config_invalid :: tf_error where
  "config_invalid = Thrown ConfigError (Config CONFIG_INVALID)"

definition name_mismatch :: tf_error where
  "name_mismatch = Thrown CertificateError (Cert CERT_NAME_MISMATCH)"

text \<open>The address, or no address and the name in lower case.\<close>

definition normalizeHostname :: "jsstr \<Rightarrow> tf_error + (bytes option \<times> jsstr)" where
  "normalizeHostname hostname =
     (if hostname = [] then Inl config_invalid
      else if 0 \<in> set hostname then Inl config_invalid
      else
        case parseIp hostname of
          Some ip \<Rightarrow> Inr (Some ip, hostname)
        | None \<Rightarrow>
            (let host = (if last hostname = 0x2E then butlast hostname else hostname)
             in if host = [] then Inl config_invalid
                else if \<not> isAscii host then Inl config_invalid
                else Inr (None, toLowerCase host)))"

definition dnsNameMatches :: "jsstr \<Rightarrow> jsstr \<Rightarrow> bool" where
  "dnsNameMatches san host =
     (if san = [] \<or> 0 \<in> set san \<or> \<not> isAscii san then False
      else
        (let s = toLowerCase san
         in if 0x2A \<notin> set s then s = host
            else if \<not> starts_with s [0x2A, 0x2E] then False
            else
              (let rest = drop 2 s
               in if 0x2A \<in> set rest then False
                  else
                    (let restLabels = split_unit 0x2E rest
                     in if length restLabels < 2 \<or> [] \<in> set restLabels then False
                        else
                          (let hostLabels = split_unit 0x2E host
                           in if length hostLabels \<noteq> length restLabels + 1 then False
                              else if hd hostLabels = [] then False
                              else join_unit 0x2E (tl hostLabels) = rest)))))"

record subject_alt_names =
  san_present :: bool
  san_dns :: "jsstr list"
  san_ip :: "bytes list"

definition matchesIdentity :: "subject_alt_names \<Rightarrow> jsstr \<Rightarrow> tf_error + unit" where
  "matchesIdentity san hostname =
     bindE (normalizeHostname hostname) (\<lambda>(ip, host).
       if \<not> san_present san then Inl name_mismatch
       else case ip of
              Some a \<Rightarrow> if \<exists>e \<in> set (san_ip san). equal_bytes e a then Inr () else Inl name_mismatch
            | None \<Rightarrow> if \<exists>e \<in> set (san_dns san). dnsNameMatches e host then Inr () else Inl name_mismatch)"

subsection \<open>Subtrees\<close>

definition dnsWithinSubtree :: "jsstr \<Rightarrow> jsstr \<Rightarrow> bool" where
  "dnsWithinSubtree name base =
     (let n = toLowerCase name; b = toLowerCase base
      in if b = [] then True
         else if starts_with b [0x2E] then length n > length b \<and> ends_with n b
         else n = b \<or> ends_with n (0x2E # b))"

fun masked_equal :: "bytes \<Rightarrow> bytes \<Rightarrow> bytes \<Rightarrow> bool" where
  "masked_equal (i # ip) (a # addr) (m # mk) \<longleftrightarrow> i AND m = a AND m \<and> masked_equal ip addr mk"
| "masked_equal _ _ _ \<longleftrightarrow> True"

definition ipWithinSubtree :: "bytes \<Rightarrow> bytes \<Rightarrow> bytes \<Rightarrow> bool" where
  "ipWithinSubtree ip addr mk =
     (if length ip \<noteq> length addr \<or> length addr \<noteq> length mk then False else masked_equal ip addr mk)"

subsection \<open>What the checks mean\<close>

lemma lower_set: "c \<in> {0x2A, 0x2E} \<Longrightarrow> c \<in> set (toLowerCase s) \<longleftrightarrow> c \<in> set s"
  by (auto simp: toLowerCase_def lower_unit_def is_upper_def image_iff)

lemma split_join_Cons:
  assumes "split_unit c s = p # ps" "ps \<noteq> []"
  shows "s = p @ c # join_unit c ps"
  using join_split [of c s] assms by (cases ps) (simp_all)

text \<open>A wildcard covers one non-empty label in front of at least two literal ones.\<close>

definition wildcard_covers :: "jsstr \<Rightarrow> jsstr \<Rightarrow> bool" where
  "wildcard_covers s host \<longleftrightarrow>
     (\<exists>label rest. s = 0x2A # 0x2E # rest \<and> host = label @ 0x2E # rest \<and> label \<noteq> [] \<and> 0x2E \<notin> set label
        \<and> 0x2A \<notin> set rest \<and> 0x2E \<in> set rest \<and> [] \<notin> set (split_unit 0x2E rest))"

lemma split_unit_length: "2 \<le> length (split_unit c s) \<longleftrightarrow> c \<in> set s"
proof (induction s)
  case (Cons u s)
  then show ?case by (cases "split_unit c s") auto
qed simp

lemma ascii_no_nul: "isAscii s \<Longrightarrow> 0 \<notin> set s"
  by (auto simp: isAscii_def list_all_iff)

lemma dns_match_iff:
  "dnsNameMatches san host \<longleftrightarrow>
     san \<noteq> [] \<and> isAscii san
     \<and> (0x2A \<notin> set san \<and> toLowerCase san = host \<or> wildcard_covers (toLowerCase san) host)"
proof (cases "0x2A \<in> set san")
  case False
  then have "0x2A \<notin> set (toLowerCase san)" by (simp add: lower_set)
  then have "\<not> wildcard_covers (toLowerCase san) host" by (auto simp: wildcard_covers_def)
  then show ?thesis using False ascii_no_nul [of san] by (auto simp: dnsNameMatches_def lower_set)
next
  case True
  define s where "s = toLowerCase san"
  have star: "0x2A \<in> set s" using True by (simp add: s_def lower_set)
  have "dnsNameMatches san host \<longleftrightarrow> san \<noteq> [] \<and> isAscii san \<and> starts_with s [0x2A, 0x2E]
      \<and> 0x2A \<notin> set (drop 2 s) \<and> 2 \<le> length (split_unit 0x2E (drop 2 s)) \<and> [] \<notin> set (split_unit 0x2E (drop 2 s))
      \<and> length (split_unit 0x2E host) = length (split_unit 0x2E (drop 2 s)) + 1
      \<and> hd (split_unit 0x2E host) \<noteq> [] \<and> join_unit 0x2E (tl (split_unit 0x2E host)) = drop 2 s"
    using star ascii_no_nul [of san] by (auto simp: dnsNameMatches_def Let_def s_def)
  also have "\<dots> \<longleftrightarrow> san \<noteq> [] \<and> isAscii san \<and> wildcard_covers s host"
  proof -
    have "length (split_unit 0x2E host) = length (split_unit 0x2E rest) + 1 \<and> hd (split_unit 0x2E host) \<noteq> []
        \<and> join_unit 0x2E (tl (split_unit 0x2E host)) = rest
      \<longleftrightarrow> (\<exists>label. host = label @ 0x2E # rest \<and> label \<noteq> [] \<and> 0x2E \<notin> set label)" for rest
    proof
      assume a: "length (split_unit 0x2E host) = length (split_unit 0x2E rest) + 1 \<and> hd (split_unit 0x2E host) \<noteq> []
        \<and> join_unit 0x2E (tl (split_unit 0x2E host)) = rest"
      obtain p ps where p: "split_unit 0x2E host = p # ps" by (cases "split_unit 0x2E host") auto
      have "ps \<noteq> []" using a p by (cases ps) auto
      then have "host = p @ 0x2E # rest" using split_join_Cons [OF p] a p by simp
      moreover have "0x2E \<notin> set p" using split_no_unit [of p "0x2E" host] p by simp
      ultimately show "\<exists>label. host = label @ 0x2E # rest \<and> label \<noteq> [] \<and> 0x2E \<notin> set label" using a p by auto
    next
      assume "\<exists>label. host = label @ 0x2E # rest \<and> label \<noteq> [] \<and> 0x2E \<notin> set label"
      then show "length (split_unit 0x2E host) = length (split_unit 0x2E rest) + 1 \<and> hd (split_unit 0x2E host) \<noteq> []
        \<and> join_unit 0x2E (tl (split_unit 0x2E host)) = rest"
        by (auto simp: split_unit_append)
    qed
    moreover have "starts_with s [0x2A, 0x2E] \<longleftrightarrow> (\<exists>rest. s = 0x2A # 0x2E # rest)" by (simp add: starts_with_append)
    ultimately show ?thesis unfolding wildcard_covers_def split_unit_length by auto
  qed
  finally show ?thesis using True by (simp add: s_def)
qed

lemma matches_identity_iff:
  "matchesIdentity san hostname = Inr () \<longleftrightarrow>
     san_present san \<and> hostname \<noteq> [] \<and> 0 \<notin> set hostname
     \<and> (case parseIp hostname of
          Some ip \<Rightarrow> ip \<in> set (san_ip san)
        | None \<Rightarrow>
            (let host = (if last hostname = 0x2E then butlast hostname else hostname)
             in host \<noteq> [] \<and> isAscii host \<and> (\<exists>e \<in> set (san_dns san). dnsNameMatches e (toLowerCase host))))"
  by (auto simp: matchesIdentity_def normalizeHostname_def bindE_Inr_conv Let_def equal_bytes_iff split: option.splits if_splits)

text \<open>Addresses have four or sixteen octets.\<close>

lemma all_some_length: "all_some xs = Some ys \<Longrightarrow> length ys = length xs"
  by (induction xs arbitrary: ys rule: all_some.induct) auto

lemma parseIpv4_length: "parseIpv4 t = Some ip \<Longrightarrow> length ip = 4"
  by (auto simp: parseIpv4_def Let_def dest!: all_some_length split: if_splits)

lemma group_octets_length: "length (group_octets gs) = 2 * length gs"
  by (induction gs) (simp_all add: group_octets_def)

lemma parseIpv6_length: "parseIpv6 t = Some ip \<Longrightarrow> length ip = 16"
  by (auto simp: parseIpv6_def Let_def group_octets_length split: if_splits option.splits)

lemma parseIp_length: "parseIp t = Some ip \<Longrightarrow> length ip = 4 \<or> length ip = 16"
  by (auto simp: parseIp_def Let_def dest: parseIpv4_length parseIpv6_length split: if_splits)

text \<open>Subtrees nest, and cut at label boundaries.\<close>

lemma within_iff:
  "dnsWithinSubtree name base \<longleftrightarrow>
     base = [] \<or> (\<exists>x. toLowerCase name = x @ toLowerCase base
        \<and> (x = [] \<and> hd (toLowerCase base) \<noteq> 0x2E \<or> x \<noteq> [] \<and> (hd (toLowerCase base) = 0x2E \<or> last x = 0x2E)))"
proof (cases base)
  case Nil
  then show ?thesis by (simp add: dnsWithinSubtree_def toLowerCase_def)
next
  case (Cons u r)
  let ?n = "toLowerCase name" and ?b = "toLowerCase base"
  have b: "?b \<noteq> []" using Cons by (simp add: toLowerCase_def)
  have st: "starts_with ?b [0x2E] \<longleftrightarrow> hd ?b = 0x2E" using b by (cases ?b) (auto simp: starts_with_def)
  show ?thesis
  proof (cases "hd ?b = 0x2E")
    case True
    then show ?thesis using b Cons st by (auto simp: dnsWithinSubtree_def Let_def ends_with_append)
  next
    case False
    have "(\<exists>y. ?n = y @ 0x2E # ?b) \<longleftrightarrow> (\<exists>x. ?n = x @ ?b \<and> x \<noteq> [] \<and> last x = 0x2E)"
    proof
      assume "\<exists>y. ?n = y @ 0x2E # ?b"
      then obtain y where "?n = (y @ [0x2E]) @ ?b" by auto
      then show "\<exists>x. ?n = x @ ?b \<and> x \<noteq> [] \<and> last x = 0x2E" by (intro exI [of _ "y @ [0x2E]"]) simp
    next
      assume "\<exists>x. ?n = x @ ?b \<and> x \<noteq> [] \<and> last x = 0x2E"
      then show "\<exists>y. ?n = y @ 0x2E # ?b" by (metis append.assoc append_Cons append_Nil append_butlast_last_id)
    qed
    then show ?thesis using False b Cons st by (auto simp: dnsWithinSubtree_def Let_def ends_with_append)
  qed
qed

lemma within_trans:
  assumes "dnsWithinSubtree a b" "dnsWithinSubtree b c"
  shows "dnsWithinSubtree a c"
proof (cases "c = [] \<or> b = []")
  case True
  then show ?thesis using assms by (auto simp: within_iff toLowerCase_def)
next
  case False
  from assms(1) False obtain x where x: "toLowerCase a = x @ toLowerCase b"
      "x = [] \<and> hd (toLowerCase b) \<noteq> 0x2E \<or> x \<noteq> [] \<and> (hd (toLowerCase b) = 0x2E \<or> last x = 0x2E)"
    unfolding within_iff by blast
  from assms(2) False obtain y where y: "toLowerCase b = y @ toLowerCase c"
      "y = [] \<and> hd (toLowerCase c) \<noteq> 0x2E \<or> y \<noteq> [] \<and> (hd (toLowerCase c) = 0x2E \<or> last y = 0x2E)"
    unfolding within_iff by blast
  have "toLowerCase a = (x @ y) @ toLowerCase c" using x(1) y(1) by simp
  moreover have "x @ y = [] \<and> hd (toLowerCase c) \<noteq> 0x2E
      \<or> x @ y \<noteq> [] \<and> (hd (toLowerCase c) = 0x2E \<or> last (x @ y) = 0x2E)"
    using x(2) y by (cases "y = []") auto
  ultimately show ?thesis unfolding within_iff by blast
qed

lemma masked_equal_iff:
  "length ip = length addr \<Longrightarrow> length addr = length mk \<Longrightarrow>
   masked_equal ip addr mk \<longleftrightarrow> (\<forall>i < length ip. ip ! i AND mk ! i = addr ! i AND mk ! i)"
proof (induction ip addr mk rule: masked_equal.induct)
  case (1 i ip a addr m mk)
  then show ?case by (auto simp: nth_Cons split: nat.splits) 
qed auto

end
