(* ===== verification/Duplex.thy ===== *)
theory Duplex
  imports ByteReader Names Utf8
begin

text \<open>
  The socket that an injected \<open>connect\<close> function hands out, as the proxy handshakes use it: a reader
  over its readable half, the octets its writable half has taken, and what became of the two. The
  transport is a parameter: which octets arrive (the reader), how many writes it takes before it
  rejects one, and whether \<open>opened\<close> rejects.
\<close>

record 's duplex =
  dx_in :: 's
  dx_out :: bytes
  dx_writes :: "nat option"
  dx_opened :: "tf_error option"
  dx_cancelled :: bool
  dx_closed :: bool

definition dx_write :: "bytes \<Rightarrow> ('s duplex, tf_error, unit) action" where
  "dx_write b d =
     (case dx_writes d of
        None \<Rightarrow> (Inr (), d\<lparr>dx_out := dx_out d @ b\<rparr>)
      | Some 0 \<Rightarrow> (Inl (TransportFailure 0), d)
      | Some (Suc n) \<Rightarrow> (Inr (), d\<lparr>dx_out := dx_out d @ b, dx_writes := Some n\<rparr>))"

definition dx_read :: "('s, tf_error, 'a) action \<Rightarrow> ('s duplex, tf_error, 'a) action" where
  "dx_read m d = (case m (dx_in d) of (r, s') \<Rightarrow> (r, d\<lparr>dx_in := s'\<rparr>))"

definition dx_await_opened :: "('s duplex, tf_error, unit) action" where
  "dx_await_opened d = (case dx_opened d of None \<Rightarrow> (Inr (), d) | Some e \<Rightarrow> (Inl e, d))"

text \<open>The handler of a failed handshake: a reader that exists is cancelled, the socket is closed.\<close>

definition dx_abandon :: "bool \<Rightarrow> 's duplex \<Rightarrow> 's duplex" where
  "dx_abandon has_reader d = d\<lparr>dx_cancelled := (dx_cancelled d \<or> has_reader), dx_closed := True\<rparr>"

text \<open>A fresh socket, over any reader.\<close>

definition new_duplex :: "'s \<Rightarrow> nat option \<Rightarrow> tf_error option \<Rightarrow> 's duplex" where
  "new_duplex s n e = \<lparr> dx_in = s, dx_out = [], dx_writes = n, dx_opened = e, dx_cancelled = False, dx_closed = False \<rparr>"

text \<open>The addresses of \<open>connect\<close> and its \<open>secureTransport\<close> option.\<close>

datatype transport_mode = TransportOff | TransportOn | TransportStarttls

type_synonym 's connector = "jsstr \<times> nat \<Rightarrow> transport_mode \<Rightarrow> 's duplex option"

subsection \<open>Proxy configuration\<close>

datatype proxy_scheme = HttpProxy | HttpsProxy | Socks5Proxy | OtherScheme jsstr

text \<open>
  A \<open>ProxyConfig\<close> as \<open>normalise\<close> returns it. Missing credentials are \<open>None\<close>; \<open>proxyConnection\<close> is absent
  (\<open>None\<close>), \<open>null\<close> (\<open>Some None\<close>) or a string.
\<close>

record proxy_config =
  px_protocol :: proxy_scheme
  px_hostname :: jsstr
  px_port :: nat
  px_username :: "jsstr option"
  px_password :: "jsstr option"
  px_proxyConnection :: "jsstr option option"

record tunnel_target =
  tg_hostname :: jsstr
  tg_port :: nat

definition proxy_error :: "proxy_code \<Rightarrow> tf_error" where
  "proxy_error c = Thrown ProxyError (Proxy c)"

definition credentials :: "proxy_config \<Rightarrow> bool" where
  "credentials p \<longleftrightarrow> (case px_username p of None \<Rightarrow> False | Some u \<Rightarrow> u \<noteq> [])"

text \<open>Decimal text of a number, as a template literal writes it.\<close>

fun decimal :: "nat \<Rightarrow> jsstr" where
  "decimal n = (if n < 10 then [0x30 + n] else decimal (n div 10) @ [0x30 + n mod 10])"

declare decimal.simps [simp del]

subsection \<open>Lemmas\<close>

lemma dx_write_out:
  "dx_write b d = (r, d') \<Longrightarrow> dx_in d' = dx_in d \<and> dx_cancelled d' = dx_cancelled d \<and> dx_closed d' = dx_closed d
     \<and> dx_opened d' = dx_opened d
     \<and> (case r of Inl e \<Rightarrow> e = TransportFailure 0 \<and> dx_out d' = dx_out d | Inr _ \<Rightarrow> dx_out d' = dx_out d @ b)"
  by (auto simp: dx_write_def split: option.splits nat.splits)

lemma dx_write_Inl: "dx_write b d = (Inl e, d') \<Longrightarrow> d' = d \<and> e = TransportFailure 0"
  by (auto simp: dx_write_def split: option.splits nat.splits)

lemma dx_write_Inr: "dx_write b d = (Inr u, d') \<Longrightarrow> dx_out d' = dx_out d @ b \<and> dx_in d' = dx_in d"
  by (auto simp: dx_write_def split: option.splits nat.splits)

lemma dx_read_out:
  "dx_read m d = (r, d') \<Longrightarrow> m (dx_in d) = (r, dx_in d') \<and> d' = d\<lparr>dx_in := dx_in d'\<rparr>"
  by (auto simp: dx_read_def split: prod.splits)

lemma bindA_lift [simp]: "bindA (liftA (Inr x)) f = f x" "bindA (liftA (Inl e)) f = throwA e" "bindA (returnA x) f = f x"
  "bindA (throwA e) f = throwA e"
  by (rule ext, simp add: bindA_def)+

lemma throw_unless: "(if c then throwA e else m) s = (Inr y, t) \<longleftrightarrow> \<not> c \<and> m s = (Inr y, t)"
  by simp

lemma bindA_assoc: "bindA (bindA m f) g = bindA m (\<lambda>x. bindA (f x) g)"
  by (rule ext) (auto simp: bindA_def split: prod.splits sum.splits)

text \<open>The socket over the octets still to come.\<close>

definition dx_view :: "('s \<Rightarrow> 't) \<Rightarrow> 's duplex \<Rightarrow> 't duplex" where
  "dx_view f d = new_duplex (f (dx_in d)) (dx_writes d) (dx_opened d)
     \<lparr>dx_out := dx_out d, dx_cancelled := dx_cancelled d, dx_closed := dx_closed d\<rparr>"

lemma dx_view_sel [simp]:
  "dx_in (dx_view f d) = f (dx_in d)" "dx_out (dx_view f d) = dx_out d" "dx_writes (dx_view f d) = dx_writes d"
  "dx_opened (dx_view f d) = dx_opened d" "dx_cancelled (dx_view f d) = dx_cancelled d"
  "dx_closed (dx_view f d) = dx_closed d"
  by (simp_all add: dx_view_def new_duplex_def)

lemma dx_eqI:
  "dx_in a = dx_in b \<Longrightarrow> dx_out a = dx_out b \<Longrightarrow> dx_writes a = dx_writes b \<Longrightarrow> dx_opened a = dx_opened b \<Longrightarrow>
   dx_cancelled a = dx_cancelled b \<Longrightarrow> dx_closed a = dx_closed b \<Longrightarrow> a = (b :: 's duplex)"
  by (cases a, cases b) simp

lemma simulates_write: "simulates (ok \<circ> dx_in) (dx_view v) (dx_write b) (dx_write b)"
  by (rule simulatesI)
    (auto simp: dx_write_def split: option.splits nat.splits intro: dx_eqI)

lemma simulates_read:
  assumes "simulates ok v m m'"
  shows "simulates (ok \<circ> dx_in) (dx_view v) (dx_read m) (dx_read m')"
proof (rule simulatesI)
  fix d r d' assume ok: "(ok \<circ> dx_in) d" and run: "dx_read m d = (r, d')"
  obtain q s where ms: "m (dx_in d) = (q, s)" by (cases "m (dx_in d)")
  then have d': "q = r" "d' = d\<lparr>dx_in := s\<rparr>" using run by (simp_all add: dx_read_def)
  have sim: "ok s \<and> m' (v (dx_in d)) = (r, v s)" using simulatesD [OF assms _ ms] ok d'(1) by simp
  have "(dx_view v d)\<lparr>dx_in := v s\<rparr> = dx_view v (d\<lparr>dx_in := s\<rparr>)" by (rule dx_eqI) simp_all
  then show "(ok \<circ> dx_in) d' \<and> dx_read m' (dx_view v d) = (r, dx_view v d')"
    using sim by (simp add: dx_read_def d'(2))
qed

lemma simulates_opened: "simulates (ok \<circ> dx_in) (dx_view v) dx_await_opened dx_await_opened"
  by (rule simulatesI) (auto simp: dx_await_opened_def split: option.splits)

lemma dx_view_abandon: "dx_view f (dx_abandon b d) = dx_abandon b (dx_view f d)"
  by (rule dx_eqI) (simp_all add: dx_abandon_def)

end
