(* ===== verification/Socks5.thy ===== *)
theory Socks5
  imports Duplex
begin

text \<open>
  \<open>src/proxy/socks5.js\<close>: the SOCKS5 client handshake (RFC 1928) with username and password
  authentication (RFC 1929), over any reader, and the encoding of the target address.
\<close>

subsection \<open>Addresses\<close>

definition isIpv4 :: "jsstr \<Rightarrow> bool" where
  "isIpv4 h \<longleftrightarrow>
     (let ps = split_unit 0x2E h
      in length ps = 4 \<and> list_all (\<lambda>p. 1 \<le> length p \<and> length p \<le> 3 \<and> list_all is_digit p) ps
         \<and> list_all (\<lambda>p. parse_base 10 p \<le> 255) ps)"

definition strip_brackets :: "jsstr \<Rightarrow> jsstr" where
  "strip_brackets t =
     (let a = (if starts_with t [0x5B] then tl t else t)
      in if ends_with a [0x5D] then butlast a else a)"

definition hex_group :: "jsstr \<Rightarrow> tf_error + nat" where
  "hex_group g = (if 1 \<le> length g \<and> length g \<le> 4 \<and> list_all is_hex g then Inr (parse_base 16 g) else Inl config_invalid)"

fun hex_groups :: "jsstr list \<Rightarrow> tf_error + nat list" where
  "hex_groups [] = Inr []"
| "hex_groups (g # gs) = bindE (hex_group g) (\<lambda>x. bindE (hex_groups gs) (\<lambda>xs. Inr (x # xs)))"

definition parse_part :: "jsstr \<Rightarrow> tf_error + nat list" where
  "parse_part part = (if part = [] then Inr [] else hex_groups (split_unit 0x3A part))"

text \<open>An embedded dotted quad is cut off and stands as two zero groups.\<close>

definition split_tail :: "jsstr \<Rightarrow> tf_error + (jsstr \<times> nat list)" where
  "split_tail s =
     (let cut = (case last_index_unit 0x3A s of None \<Rightarrow> 0 | Some k \<Rightarrow> k + 1); maybeV4 = drop cut s
      in if 0x2E \<notin> set maybeV4 then Inr (s, [])
         else if \<not> isIpv4 maybeV4 then Inl config_invalid
         else (let o4 = map (parse_base 10) (split_unit 0x2E maybeV4)
               in Inr (take cut s @ js ''0:0'', [o4 ! 0 * 256 + o4 ! 1, o4 ! 2 * 256 + o4 ! 3])))"

definition expand_groups :: "jsstr \<Rightarrow> tf_error + nat list" where
  "expand_groups s =
     (let halves = split_at [0x3A, 0x3A] s
      in if length halves > 2 then Inl config_invalid
         else if length halves = 2 then
           bindE (parse_part (halves ! 0)) (\<lambda>hd_groups.
             bindE (parse_part (halves ! 1)) (\<lambda>rest.
               if length hd_groups + length rest > 8 then Inl config_invalid
               else Inr (hd_groups @ replicate (8 - length hd_groups - length rest) 0 @ rest)))
         else parse_part (halves ! 0))"

definition socks_parseIpv6 :: "jsstr \<Rightarrow> tf_error + bytes" where
  "socks_parseIpv6 text =
     bindE (split_tail (takeWhile (\<lambda>u. u \<noteq> 0x25) (strip_brackets text))) (\<lambda>(s, tail).
       bindE (expand_groups s) (\<lambda>groups0.
         let groups = (if tail \<noteq> [] then take 8 (take 6 groups0 @ tail) else groups0)
         in if length groups \<noteq> 8 then Inl config_invalid else Inr (group_octets groups)))"

definition encodeAddress :: "tunnel_target \<Rightarrow> tf_error + bytes" where
  "encodeAddress target =
     (let hostname = tg_hostname target; portBytes = u16 (tg_port target)
      in if isIpv4 hostname
         then Inr (0x01 # map (\<lambda>p. of_nat (parse_base 10 p)) (split_unit 0x2E hostname) @ portBytes)
         else if 0x3A \<in> set hostname
         then bindE (socks_parseIpv6 hostname) (\<lambda>a. Inr (0x04 # a @ portBytes))
         else (let name = utf8 hostname
               in if length name = 0 \<or> length name > 255 then Inl config_invalid
                  else Inr (0x03 # of_nat (length name) # name @ portBytes)))"

subsection \<open>The handshake\<close>

definition socks_read :: "'s reader_ops \<Rightarrow> nat \<Rightarrow> ('s duplex, tf_error, bytes) action" where
  "socks_read R n = catchA (dx_read (rd_exactly R (int n))) (\<lambda>_. throwA (proxy_error PROXY_PROTOCOL))"

definition socks_methods :: "proxy_config \<Rightarrow> bytes" where
  "socks_methods proxy = (if credentials proxy then [0x00, 0x02] else [0x00])"

definition greet :: "'s reader_ops \<Rightarrow> proxy_config \<Rightarrow> ('s duplex, tf_error, byte) action" where
  "greet R proxy =
     (let methods = socks_methods proxy
      in bindA (dx_write (0x05 # of_nat (length methods) # methods)) (\<lambda>_.
           bindA (socks_read R 2) (\<lambda>reply.
             if reply ! 0 \<noteq> 0x05 then throwA (proxy_error PROXY_PROTOCOL)
             else if reply ! 1 = 0xff then throwA (proxy_error SOCKS5_NO_ACCEPTABLE_AUTH)
             else if reply ! 1 \<notin> set methods then throwA (proxy_error SOCKS5_NO_ACCEPTABLE_AUTH)
             else returnA (reply ! 1))))"

definition text_or_empty :: "jsstr option \<Rightarrow> jsstr" where
  "text_or_empty s = (case s of None \<Rightarrow> [] | Some t \<Rightarrow> t)"

definition auth_message :: "proxy_config \<Rightarrow> tf_error + bytes" where
  "auth_message proxy =
     (let user = utf8 (text_or_empty (px_username proxy)); pass = utf8 (text_or_empty (px_password proxy))
      in if length user > 255 \<or> length pass > 255 then Inl config_invalid
         else Inr (0x01 # of_nat (length user) # user @ of_nat (length pass) # pass))"

definition authenticate :: "'s reader_ops \<Rightarrow> proxy_config \<Rightarrow> ('s duplex, tf_error, unit) action" where
  "authenticate R proxy =
     bindA (liftA (auth_message proxy)) (\<lambda>msg.
       bindA (dx_write msg) (\<lambda>_.
         bindA (socks_read R 2) (\<lambda>reply.
           if reply ! 0 \<noteq> 0x01 then throwA (proxy_error PROXY_PROTOCOL)
           else if reply ! 1 \<noteq> 0x00 then throwA (proxy_error PROXY_AUTH_FAILED)
           else returnA ())))"

definition boundAddressLength :: "'s reader_ops \<Rightarrow> byte \<Rightarrow> ('s duplex, tf_error, nat) action" where
  "boundAddressLength R atyp =
     (if atyp = 0x01 then returnA 4
      else if atyp = 0x04 then returnA 16
      else if atyp = 0x03 then bindA (socks_read R 1) (\<lambda>len. returnA (unat (len ! 0)))
      else throwA (proxy_error SOCKS5_ADDR_TYPE))"

definition socks_request :: "'s reader_ops \<Rightarrow> tunnel_target \<Rightarrow> ('s duplex, tf_error, unit) action" where
  "socks_request R target =
     bindA (liftA (encodeAddress target)) (\<lambda>address.
       bindA (dx_write ([0x05, 0x01, 0x00] @ address)) (\<lambda>_.
         bindA (socks_read R 4) (\<lambda>reply.
           if reply ! 0 \<noteq> 0x05 then throwA (proxy_error PROXY_PROTOCOL)
           else bindA (boundAddressLength R (reply ! 3)) (\<lambda>addrLen.
             bindA (socks_read R (addrLen + 2)) (\<lambda>_.
               if reply ! 1 \<noteq> 0x00 then throwA (proxy_error SOCKS5_REPLY) else returnA ())))))"

definition socks_handshake :: "'s reader_ops \<Rightarrow> proxy_config \<Rightarrow> tunnel_target \<Rightarrow> ('s duplex, tf_error, unit) action" where
  "socks_handshake R proxy target =
     bindA (greet R proxy) (\<lambda>m.
       bindA (if m = 0x02 then authenticate R proxy else returnA ()) (\<lambda>_. socks_request R target))"

text \<open>The outcome, and the socket as it is left, if one was obtained.\<close>

definition openSocks5 ::
  "'s reader_ops \<Rightarrow> tf_error option \<Rightarrow> 's connector \<Rightarrow> proxy_config \<Rightarrow> tunnel_target \<Rightarrow> (tf_error + unit) \<times> 's duplex option" where
  "openSocks5 R signal connect proxy target =
     (case signal of
        Some reason \<Rightarrow> (Inl reason, None)
      | None \<Rightarrow>
          (case connect (px_hostname proxy, px_port proxy) TransportStarttls of
             None \<Rightarrow> (Inl (proxy_error PROXY_UNREACHABLE), None)
           | Some socket \<Rightarrow>
               (case dx_await_opened socket of
                  (Inl e, d) \<Rightarrow> (Inl e, Some (dx_abandon False d))
                | (Inr _, d) \<Rightarrow>
                    (case socks_handshake R proxy target d of
                       (Inl e, d') \<Rightarrow> (Inl e, Some (dx_abandon True d'))
                     | (Inr _, d') \<Rightarrow> (Inr (), Some d')))))"

end
