(* ===== verification/Socks5_Correct.thy ===== *)
theory Socks5_Correct
  imports Socks5
begin

text \<open>
  The SOCKS5 handshake succeeds exactly on the replies the protocol allows, takes exactly these octets, and
  puts the credentials on the wire only when they were offered and selected.
\<close>

declare add_2_eq_Suc [simp del] add_2_eq_Suc' [simp del]

subsection \<open>Fragmentation does not matter\<close>

context byte_source
begin

abbreviation dsim :: "('s duplex, tf_error, 'a) action \<Rightarrow> (wire duplex, tf_error, 'a) action \<Rightarrow> bool" where
  "dsim \<equiv> simulates (ok \<circ> dx_in) (dx_view view)"

lemmas dsim_intros =
  simulates_return [of "ok \<circ> dx_in" "dx_view view"] simulates_throw [of "ok \<circ> dx_in" "dx_view view"]
  simulates_lift [of "ok \<circ> dx_in" "dx_view view"] simulates_bind [of "ok \<circ> dx_in" "dx_view view"]
  simulates_catch [of "ok \<circ> dx_in" "dx_view view"] simulates_if [of "ok \<circ> dx_in" "dx_view view"]
  simulates_write simulates_read

lemma dsim_socks_read: "dsim (socks_read R n) (socks_read wire_ops n)"
  unfolding socks_read_def using sim_exactly by (intro dsim_intros) simp

lemma dsim_socks_handshake: "dsim (socks_handshake R p t) (socks_handshake wire_ops p t)"
  unfolding socks_handshake_def greet_def authenticate_def socks_request_def boundAddressLength_def Let_def
  by (intro dsim_intros dsim_socks_read)

end

subsection \<open>The octets a server sends\<close>

definition bound_address :: "bytes \<Rightarrow> bool" where
  "bound_address b \<longleftrightarrow>
     (\<exists>x. b = 0x01 # x \<and> length x = 4 + 2 \<or> b = 0x04 # x \<and> length x = 16 + 2
        \<or> (\<exists>n. b = 0x03 # n # x \<and> length x = unat n + 2))"

text \<open>
  The replies of a server that lets the client through: a method that was offered, the answer to the
  credentials if these were selected, the answer to CONNECT with its bound address.
\<close>

definition server_opening :: "proxy_config \<Rightarrow> byte \<Rightarrow> bytes \<Rightarrow> bool" where
  "server_opening proxy m b \<longleftrightarrow>
     m \<in> set (socks_methods proxy)
     \<and> (\<exists>reserved address. b = [0x05, m] @ (if m = 0x02 then [0x01, 0x00] else []) @ [0x05, 0x00, reserved] @ address
          \<and> bound_address address)"

definition greeting :: "proxy_config \<Rightarrow> bytes" where
  "greeting proxy = 0x05 # of_nat (length (socks_methods proxy)) # socks_methods proxy"

text \<open>What the client says.\<close>

definition client_opening :: "proxy_config \<Rightarrow> byte \<Rightarrow> bytes \<Rightarrow> bytes \<Rightarrow> bytes" where
  "client_opening proxy m auth address =
     greeting proxy @ (if m = 0x02 then auth else []) @ [0x05, 0x01, 0x00] @ address"

subsection \<open>Each step on the whole input\<close>

lemma dx_write_ok: "dx_writes d = None \<Longrightarrow> dx_write b d = (Inr (), d\<lparr>dx_out := dx_out d @ b\<rparr>)"
  by (simp add: dx_write_def)

text \<open>A socket that has taken the octets \<open>b\<close> and sent the octets \<open>out\<close>.\<close>

definition advanced :: "wire duplex \<Rightarrow> bytes \<Rightarrow> bytes \<Rightarrow> wire duplex \<Rightarrow> bool" where
  "advanced d b out d' \<longleftrightarrow>
     fst (dx_in d) = b @ fst (dx_in d') \<and> snd (dx_in d') = snd (dx_in d) \<and> dx_out d' = dx_out d @ out
     \<and> dx_writes d' = dx_writes d \<and> dx_opened d' = dx_opened d
     \<and> dx_cancelled d' = dx_cancelled d \<and> dx_closed d' = dx_closed d"

lemma advanced_trans: "advanced d b out d1 \<Longrightarrow> advanced d1 b' out' d2 \<Longrightarrow> advanced d (b @ b') (out @ out') d2"
  by (simp add: advanced_def)

lemma advanced_split:
  assumes "advanced d (b @ b') (out @ out') d'"
  obtains d1 where "advanced d b out d1" "advanced d1 b' out' d'"
proof
  show "advanced d b out (d'\<lparr>dx_in := (b' @ fst (dx_in d'), snd (dx_in d')), dx_out := dx_out d @ out\<rparr>)"
    "advanced (d'\<lparr>dx_in := (b' @ fst (dx_in d'), snd (dx_in d')), dx_out := dx_out d @ out\<rparr>) b' out' d'"
    using assms by (simp_all add: advanced_def)
qed

lemma advanced_writes: "advanced d b out d' \<Longrightarrow> dx_writes d' = dx_writes d"
  by (simp add: advanced_def)

lemma advanced_after_write: "advanced (d\<lparr>dx_out := dx_out d @ out\<rparr>) b [] d' \<longleftrightarrow> advanced d b out d'"
  by (simp add: advanced_def)

lemma socks_read_iff:
  assumes n: "n \<le> 1000"
  shows "socks_read wire_ops n d = (Inr b, d') \<longleftrightarrow> length b = n \<and> advanced d b [] d'"
proof -
  obtain inp e where w: "dx_in d = (inp, e)" by (cases "dx_in d")
  have safe: "int n \<le> int max_safe_integer" using n by (simp add: max_safe_integer_def)
  show ?thesis
  proof (cases "n \<le> length inp")
    case True
    then have "socks_read wire_ops n d = (Inr (take n inp), d\<lparr>dx_in := (drop n inp, e)\<rparr>)"
      using safe w by (simp add: socks_read_def dx_read_def wire_exactly_def catchA_def)
    then show ?thesis using True w by (auto simp: advanced_def intro!: dx_eqI prod_eqI)
  next
    case False
    then have "socks_read wire_ops n d = (Inl (proxy_error PROXY_PROTOCOL), d\<lparr>dx_in := (inp, e)\<rparr>)"
      using safe w by (simp add: socks_read_def dx_read_def wire_exactly_def catchA_def)
    then show ?thesis using False w by (auto simp: advanced_def)
  qed
qed

text \<open>A write followed by a read of a fixed length.\<close>

lemma write_read_iff:
  assumes "dx_writes d = None" "n \<le> 1000"
  shows "bindA (dx_write out) (\<lambda>_. bindA (socks_read wire_ops n) f) d = (Inr y, d') \<longleftrightarrow>
     (\<exists>b d1. length b = n \<and> advanced d b out d1 \<and> f b d1 = (Inr y, d'))"
  unfolding bindA_Inr_conv dx_write_ok [OF assms(1)]
  by (simp add: socks_read_iff [OF assms(2)] advanced_after_write bindA_Inr_conv)

lemma read_iff:
  assumes "n \<le> 1000"
  shows "bindA (socks_read wire_ops n) f d = (Inr y, d') \<longleftrightarrow>
     (\<exists>b d1. length b = n \<and> advanced d b [] d1 \<and> f b d1 = (Inr y, d'))"
  by (simp add: bindA_Inr_conv socks_read_iff [OF assms])

lemma two_octets: "length b = 2 \<longleftrightarrow> b = [b ! 0, b ! 1]"
  by (auto simp: length_Suc_conv numeral_2_eq_2)

lemma greet_iff:
  assumes "dx_writes d = None"
  shows "greet wire_ops p d = (Inr m, d') \<longleftrightarrow> m \<in> set (socks_methods p) \<and> advanced d [0x05, m] (greeting p) d'"
proof -
  have "greet wire_ops p d = (Inr m, d') \<longleftrightarrow>
     (\<exists>b. length b = 2 \<and> advanced d b (greeting p) d' \<and> b ! 0 = 0x05 \<and> b ! 1 \<noteq> 0xff \<and> b ! 1 = m \<and> m \<in> set (socks_methods p))"
    unfolding greet_def Let_def greeting_def [symmetric]
    by (subst write_read_iff [OF assms]) (auto split: if_splits)
  also have "\<dots> \<longleftrightarrow> m \<in> set (socks_methods p) \<and> advanced d [0x05, m] (greeting p) d'"
  proof
    assume "\<exists>b. length b = 2 \<and> advanced d b (greeting p) d' \<and> b ! 0 = 0x05 \<and> b ! 1 \<noteq> 0xff \<and> b ! 1 = m \<and> m \<in> set (socks_methods p)"
    then show "m \<in> set (socks_methods p) \<and> advanced d [0x05, m] (greeting p) d'" using two_octets by metis
  next
    assume "m \<in> set (socks_methods p) \<and> advanced d [0x05, m] (greeting p) d'"
    then show "\<exists>b. length b = 2 \<and> advanced d b (greeting p) d' \<and> b ! 0 = 0x05 \<and> b ! 1 \<noteq> 0xff \<and> b ! 1 = m \<and> m \<in> set (socks_methods p)"
      by (intro exI [of _ "[0x05, m]"]) (auto simp: socks_methods_def split: if_splits)
  qed
  finally show ?thesis .
qed

lemma authenticate_iff:
  assumes "dx_writes d = None" "auth_message p = Inr au"
  shows "authenticate wire_ops p d = (Inr (), d') \<longleftrightarrow> advanced d [0x01, 0x00] au d'"
proof -
  have "authenticate wire_ops p d = (Inr (), d') \<longleftrightarrow>
     (\<exists>b. length b = 2 \<and> advanced d b au d' \<and> b ! 0 = 0x01 \<and> b ! 1 = 0x00)"
    unfolding authenticate_def by (simp add: assms(2)) (subst write_read_iff [OF assms(1)], auto split: if_splits)
  also have "\<dots> \<longleftrightarrow> advanced d [0x01, 0x00] au d'"
    using two_octets by (metis (no_types, lifting) One_nat_def length_Cons list.size(3) nth_Cons_0 nth_Cons_Suc numeral_2_eq_2)
  finally show ?thesis .
qed

text \<open>The bound address and port are taken whole.\<close>

lemma advanced_trivial: "advanced d [] [] d' \<longleftrightarrow> d' = d"
  by (auto simp: advanced_def intro!: dx_eqI prod_eqI)

lemma bound_iff:
  "bindA (boundAddressLength wire_ops t) (\<lambda>n. bindA (socks_read wire_ops (n + 2)) (\<lambda>_. g)) d = (Inr y, d') \<longleftrightarrow>
     (\<exists>b d1. bound_address (t # b) \<and> advanced d b [] d1 \<and> g d1 = (Inr y, d'))"
proof -
  consider "t = 0x01" | "t = 0x04" | "t = 0x03" | "t \<noteq> 0x01 \<and> t \<noteq> 0x04 \<and> t \<noteq> 0x03" by blast
  then show ?thesis
  proof cases
    case 3
    have short: "unat (n :: byte) + 2 \<le> 1000" for n using unat_byte_less [of n] by linarith
    have "bindA (boundAddressLength wire_ops t) (\<lambda>n. bindA (socks_read wire_ops (n + 2)) (\<lambda>_. g)) d = (Inr y, d') \<longleftrightarrow>
       (\<exists>l d0 b d1. length l = 1 \<and> advanced d l [] d0 \<and> length b = unat (l ! 0) + 2 \<and> advanced d0 b [] d1 \<and> g d1 = (Inr y, d'))"
      by (simp add: boundAddressLength_def 3 bindA_assoc read_iff short)
    also have "\<dots> \<longleftrightarrow> (\<exists>b d1. bound_address (t # b) \<and> advanced d b [] d1 \<and> g d1 = (Inr y, d'))"
    proof
      assume "\<exists>l d0 b d1. length l = 1 \<and> advanced d l [] d0 \<and> length b = unat (l ! 0) + 2 \<and> advanced d0 b [] d1 \<and> g d1 = (Inr y, d')"
      then obtain l d0 b d1 where l: "length l = 1" "advanced d l [] d0" "length b = unat (l ! 0) + 2" "advanced d0 b [] d1"
        "g d1 = (Inr y, d')" by blast
      moreover have "bound_address (t # l @ b)" using l(1,3) 3 by (auto simp: bound_address_def length_Suc_conv)
      ultimately show "\<exists>b d1. bound_address (t # b) \<and> advanced d b [] d1 \<and> g d1 = (Inr y, d')"
        using advanced_trans [OF l(2,4)] by auto
    next
      assume "\<exists>b d1. bound_address (t # b) \<and> advanced d b [] d1 \<and> g d1 = (Inr y, d')"
      then obtain n x d1 where x: "length x = unat n + 2" "advanced d (n # x) [] d1" "g d1 = (Inr y, d')"
        using 3 by (auto simp: bound_address_def)
      then have "advanced d ([n] @ x) ([] @ []) d1" by simp
      then obtain d0 where "advanced d [n] [] d0" "advanced d0 x [] d1" by (rule advanced_split)
      then show "\<exists>l d0 b d1. length l = 1 \<and> advanced d l [] d0 \<and> length b = unat (l ! 0) + 2 \<and> advanced d0 b [] d1 \<and> g d1 = (Inr y, d')"
        using x by (intro exI [of _ "[n]"] exI) auto
    qed
    finally show ?thesis .
  qed (auto simp: boundAddressLength_def bound_address_def read_iff)
qed

lemma request_iff:
  assumes "dx_writes d = None" "encodeAddress t = Inr a"
  shows "socks_request wire_ops t d = (Inr (), d') \<longleftrightarrow>
     (\<exists>reserved address. bound_address address \<and> advanced d ([0x05, 0x00, reserved] @ address) ([0x05, 0x01, 0x00] @ a) d')"
    (is "_ = ?spec")
proof -
  let ?steps = "\<exists>b d1 x. length b = 4 \<and> advanced d b ([0x05, 0x01, 0x00] @ a) d1 \<and> b ! 0 = 0x05 \<and> b ! 1 = 0x00
        \<and> bound_address (b ! 3 # x) \<and> advanced d1 x [] d'"
  have "socks_request wire_ops t d = (Inr (), d') \<longleftrightarrow> ?steps"
    unfolding socks_request_def assms(2) bindA_lift
    by (subst write_read_iff [OF assms(1)], simp, simp only: throw_unless bound_iff returnA_simp, blast)
  also have "?steps \<longleftrightarrow> ?spec"
  proof
    assume ?steps
    then obtain b d1 x where b: "length b = 4" "b ! 0 = 0x05" "b ! 1 = 0x00" "bound_address (b ! 3 # x)"
      and adv: "advanced d b ([0x05, 0x01, 0x00] @ a) d1" "advanced d1 x [] d'" by blast
    have "b = [b ! 0, b ! 1, b ! 2, b ! 3]" using b(1) by (auto simp: length_Suc_conv numeral_eq_Suc)
    with b have "b @ x = [0x05, 0x00, b ! 2] @ b ! 3 # x" by (metis append_Cons append_Nil)
    with advanced_trans [OF adv] b(4) show ?spec by (metis append_Nil2)
  next
    assume ?spec
    then obtain r c where c: "bound_address c" "advanced d ([0x05, 0x00, r] @ c) ([0x05, 0x01, 0x00] @ a) d'" by blast
    then obtain u x where x: "bound_address (u # x)" "advanced d ([0x05, 0x00, r] @ u # x) ([0x05, 0x01, 0x00] @ a) d'"
      by (cases c) (auto simp: bound_address_def)
    then have "advanced d ([0x05, 0x00, r, u] @ x) (([0x05, 0x01, 0x00] @ a) @ []) d'" by simp
    then obtain d1 where "advanced d [0x05, 0x00, r, u] ([0x05, 0x01, 0x00] @ a) d1" "advanced d1 x [] d'"
      by (rule advanced_split)
    then show ?steps
      using x(1) by (intro exI [of _ "[0x05, 0x00, r, u]"] exI [of _ d1] exI [of _ x]) (simp add: eval_nat_numeral)
  qed
  finally show ?thesis .
qed

lemma handshake_iff:
  assumes "dx_writes d = None" "encodeAddress t = Inr a" "credentials p \<Longrightarrow> auth_message p = Inr au"
  shows "socks_handshake wire_ops p t d = (Inr (), d') \<longleftrightarrow>
     (\<exists>m b. server_opening p m b \<and> advanced d b (client_opening p m au a) d')"
proof
  assume "socks_handshake wire_ops p t d = (Inr (), d')"
  then obtain m d1 d2 where g: "greet wire_ops p d = (Inr m, d1)"
    and au: "(if m = 0x02 then authenticate wire_ops p else returnA ()) d1 = (Inr (), d2)"
    and r: "socks_request wire_ops t d2 = (Inr (), d')"
    by (auto simp: socks_handshake_def bindA_Inr_conv)
  have m: "m \<in> set (socks_methods p)" "advanced d [0x05, m] (greeting p) d1" using g greet_iff [OF assms(1)] by auto
  then have w1: "dx_writes d1 = None" using assms(1) advanced_writes by metis
  have a: "advanced d1 (if m = 0x02 then [0x01, 0x00] else []) (if m = 0x02 then au else []) d2"
  proof (cases "m = 0x02")
    case True
    then have "credentials p" using m(1) by (auto simp: socks_methods_def split: if_splits)
    then show ?thesis using au True authenticate_iff [OF w1 assms(3)] by simp
  next
    case False
    then show ?thesis using au by (simp add: advanced_trivial)
  qed
  then have "dx_writes d2 = None" using w1 advanced_writes by metis
  then obtain u v where v: "bound_address v" "advanced d2 ([0x05, 0x00, u] @ v) ([0x05, 0x01, 0x00] @ a) d'"
    using r request_iff [OF _ assms(2)] by blast
  have "advanced d ([0x05, m] @ (if m = 0x02 then [0x01, 0x00] else []) @ [0x05, 0x00, u] @ v) (client_opening p m au a) d'"
    using advanced_trans [OF m(2) advanced_trans [OF a v(2)]] unfolding client_opening_def by simp
  moreover have "server_opening p m ([0x05, m] @ (if m = 0x02 then [0x01, 0x00] else []) @ [0x05, 0x00, u] @ v)"
    using m(1) v(1) unfolding server_opening_def by blast
  ultimately show "\<exists>m b. server_opening p m b \<and> advanced d b (client_opening p m au a) d'" by blast
next
  assume "\<exists>m b. server_opening p m b \<and> advanced d b (client_opening p m au a) d'"
  then obtain m u v where m: "m \<in> set (socks_methods p)" and v: "bound_address v"
    and adv: "advanced d ([0x05, m] @ (if m = 0x02 then [0x01, 0x00] else []) @ [0x05, 0x00, u] @ v) (client_opening p m au a) d'"
    unfolding server_opening_def by blast
  obtain d1 where 1: "advanced d [0x05, m] (greeting p) d1" and adv1: "advanced d1 ((if m = 0x02 then [0x01, 0x00] else [])
      @ [0x05, 0x00, u] @ v) ((if m = 0x02 then au else []) @ [0x05, 0x01, 0x00] @ a) d'"
    using adv unfolding client_opening_def by (rule advanced_split)
  obtain d2 where 2: "advanced d1 (if m = 0x02 then [0x01, 0x00] else []) (if m = 0x02 then au else []) d2"
    and 3: "advanced d2 ([0x05, 0x00, u] @ v) ([0x05, 0x01, 0x00] @ a) d'"
    using adv1 by (rule advanced_split)
  have w: "dx_writes d1 = None" "dx_writes d2 = None" using 1 2 assms(1) by (simp_all add: advanced_def)
  have "greet wire_ops p d = (Inr m, d1)" using greet_iff [OF assms(1)] m 1 by blast
  moreover have "(if m = 0x02 then authenticate wire_ops p else returnA ()) d1 = (Inr (), d2)"
  proof (cases "m = 0x02")
    case True
    then have "credentials p" using m by (auto simp: socks_methods_def split: if_splits)
    then show ?thesis using 2 True authenticate_iff [OF w(1) assms(3)] by simp
  next
    case False
    then show ?thesis using 2 by (simp only: if_False advanced_trivial returnA_simp)
  qed
  moreover have "socks_request wire_ops t d2 = (Inr (), d')" using request_iff [OF w(2) assms(2)] v 3 by blast
  ultimately show "socks_handshake wire_ops p t d = (Inr (), d')"
    unfolding socks_handshake_def bindA_Inr_conv by blast
qed


subsection \<open>What can be on the wire\<close>

text \<open>
  Over any transport, reader and failure: what has been sent is a prefix, message by message, of the opening,
  and the credentials are in it only when they were offered and the server's answer to the greeting selected
  them.
\<close>

definition selected_password :: "'s reader_ops \<Rightarrow> proxy_config \<Rightarrow> 's duplex \<Rightarrow> bool" where
  "selected_password R p d \<longleftrightarrow>
     credentials p \<and> (\<exists>reply s. rd_exactly R 2 (dx_in d) = (Inr reply, s) \<and> reply ! 0 = 0x05 \<and> reply ! 1 = 0x02)"

lemma socks_read_out: "socks_read R n d = (r, d') \<Longrightarrow> dx_out d' = dx_out d"
  by (auto simp: socks_read_def catchA_def dx_read_def split: sum.splits prod.splits)

lemma socks_read_reply: "socks_read R 2 d = (Inr b, d') \<Longrightarrow> \<exists>s. rd_exactly R 2 (dx_in d) = (Inr b, s)"
  by (auto simp: socks_read_def catchA_def dx_read_def split: sum.splits prod.splits)

lemma bindA_cases:
  assumes "bindA m f s = (r, t)"
  obtains (fails) e where "m s = (Inl e, t)" "r = Inl e" | (continues) x s' where "m s = (Inr x, s')" "f x s' = (r, t)"
  using assms by (auto simp: bindA_def split: sum.splits prod.splits)

lemma greet_sends:
  assumes "greet R p d = (r, d')"
  shows "dx_out d' = dx_out d \<and> r = Inl (TransportFailure 0) \<or> dx_out d' = dx_out d @ greeting p
     \<and> (r = Inr 0x02 \<longrightarrow> selected_password R p d)"
proof -
  have "(if reply ! 0 \<noteq> 0x05 then throwA e1 else if reply ! 1 = 0xff then throwA e2
      else if reply ! 1 \<notin> M then throwA e2 else returnA (reply ! 1)) s = (r, d') \<Longrightarrow>
      d' = s \<and> (r = Inr x \<longrightarrow> reply ! 0 = 0x05 \<and> reply ! 1 = x \<and> x \<in> M)" for reply M s x e1 e2
    by (auto split: if_splits)
  note last = this
  from assms show ?thesis
    unfolding greet_def Let_def greeting_def [symmetric]
  proof (cases rule: bindA_cases)
    case (fails e)
    then show ?thesis using dx_write_Inl by blast
  next
    case (continues u d1)
    note w = dx_write_Inr [OF continues(1)]
    from continues(2) show ?thesis
    proof (cases rule: bindA_cases)
      case (fails e)
      then show ?thesis using socks_read_out [OF fails(1)] w by auto
    next
      case (continues reply d2)
      note l = last [OF continues(2), of "0x02"]
      have out: "dx_out d' = dx_out d @ greeting p" using l socks_read_out [OF continues(1)] w by simp
      have "selected_password R p d" if "r = Inr 0x02"
      proof -
        have "reply ! 0 = 0x05" "reply ! 1 = 0x02" "0x02 \<in> set (socks_methods p)" using l that by auto
        moreover have "credentials p" using \<open>0x02 \<in> set (socks_methods p)\<close> by (auto simp: socks_methods_def split: if_splits)
        ultimately show ?thesis using socks_read_reply [OF continues(1)] w unfolding selected_password_def by auto
      qed
      then show ?thesis using out by blast
    qed
  qed
qed

lemma authenticate_sends:
  assumes "authenticate R p d = (r, d')"
  shows "dx_out d' = dx_out d \<and> (\<exists>e. r = Inl e)
     \<or> (\<exists>au. auth_message p = Inr au \<and> dx_out d' = dx_out d @ au)"
proof (cases "auth_message p")
  case (Inl e)
  then show ?thesis using assms by (auto simp: authenticate_def)
next
  case (Inr au)
  have last: "(if reply ! 0 \<noteq> 0x01 then throwA e1 else if reply ! 1 \<noteq> 0x00 then throwA e2 else returnA ()) s = (r, d') \<Longrightarrow> d' = s"
    for reply s e1 e2 by (auto split: if_splits)
  with assms Inr show ?thesis
    unfolding authenticate_def Inr bindA_lift
    by (elim bindA_cases) (auto dest!: last dx_write_Inl dx_write_Inr socks_read_out)
qed

lemma request_sends:
  assumes "socks_request R t d = (r, d')"
  shows "dx_out d' = dx_out d \<or> (\<exists>a. encodeAddress t = Inr a \<and> dx_out d' = dx_out d @ [0x05, 0x01, 0x00] @ a)"
proof (cases "encodeAddress t")
  case (Inl e)
  then show ?thesis using assms by (auto simp: socks_request_def)
next
  case (Inr a)
  have bal: "boundAddressLength R x s = (q, s') \<Longrightarrow> dx_out s' = dx_out s" for x s q s'
    by (auto simp: boundAddressLength_def dest: socks_read_out elim!: bindA_cases split: if_splits)
  have "bindA (boundAddressLength R x) (\<lambda>n. bindA (socks_read R (n + 2)) (\<lambda>_. if c then throwA e1 else returnA ())) s = (r, d')
      \<Longrightarrow> dx_out d' = dx_out s" for x c e1 s
    by (elim bindA_cases) (auto dest!: bal socks_read_out split: if_splits)
  then have rest: "(if reply ! 0 \<noteq> 0x05 then throwA e0 else bindA (boundAddressLength R x) (\<lambda>n. bindA (socks_read R (n + 2))
      (\<lambda>_. if c then throwA e1 else returnA ()))) s = (r, d') \<Longrightarrow> dx_out d' = dx_out s" for reply x c e0 e1 s
    by (auto split: if_splits)
  show ?thesis using assms
    unfolding socks_request_def Inr bindA_lift
    by (elim bindA_cases) (auto dest!: dx_write_Inl dx_write_Inr socks_read_out rest)
qed

text \<open>The stages a handshake can have reached.\<close>

definition sent_so_far :: "'s reader_ops \<Rightarrow> proxy_config \<Rightarrow> tunnel_target \<Rightarrow> 's duplex \<Rightarrow> bytes \<Rightarrow> bool" where
  "sent_so_far R p t d sent \<longleftrightarrow>
     sent = [] \<or> sent = greeting p
     \<or> (\<exists>a. encodeAddress t = Inr a \<and> sent = greeting p @ [0x05, 0x01, 0x00] @ a)
     \<or> selected_password R p d \<and> (\<exists>au. auth_message p = Inr au \<and>
          (sent = greeting p @ au \<or> (\<exists>a. encodeAddress t = Inr a \<and> sent = greeting p @ au @ [0x05, 0x01, 0x00] @ a)))"

lemma handshake_sends:
  assumes "socks_handshake R p t d = (r, d')"
  shows "\<exists>sent. dx_out d' = dx_out d @ sent \<and> sent_so_far R p t d sent"
  using assms unfolding socks_handshake_def
proof (cases rule: bindA_cases)
  case (fails e)
  then show ?thesis using greet_sends [OF fails(1)] by (auto simp: sent_so_far_def)
next
  case (continues m d1)
  note g = greet_sends [OF continues(1)]
  from continues(2) show ?thesis
  proof (cases rule: bindA_cases)
    case (fails e)
    then have "m = 0x02" "authenticate R p d1 = (Inl e, d')" by (auto split: if_splits)
    with g authenticate_sends [of R p d1] show ?thesis by (auto simp: sent_so_far_def)
  next
    case (continues u d2)
    note q = request_sends [OF continues(2)]
    show ?thesis
    proof (cases "m = 0x02")
      case True
      then have "\<exists>au. auth_message p = Inr au \<and> dx_out d2 = dx_out d1 @ au"
        using authenticate_sends [of R p d1] continues(1) by auto
      then show ?thesis using g q True by (auto simp: sent_so_far_def)
    next
      case False
      then show ?thesis using g q continues(1) by (auto simp: sent_so_far_def)
    qed
  qed
qed

end
