(* ===== verification/Http_Connect.thy ===== *)
theory Http_Connect
  imports Socks5
begin

text \<open>
  \<open>src/proxy/http-connect.js\<close> and \<open>src/proxy/direct.js\<close>: the CONNECT request, the proxy's reply and the
  tunnel that remains, and the direct connection.
\<close>

subsection \<open>The request\<close>

text \<open>\<open>btoa\<close> of a string of code units below 256, here given as octets.\<close>

definition base64_unit :: "nat \<Rightarrow> nat" where
  "base64_unit v =
     (if v < 26 then 0x41 + v else if v < 52 then 0x61 + (v - 26) else if v < 62 then 0x30 + (v - 52)
      else if v = 62 then 0x2B else 0x2F)"

fun btoa :: "bytes \<Rightarrow> jsstr" where
  "btoa [] = []"
| "btoa [a] = [base64_unit (unat a div 4), base64_unit (unat a mod 4 * 16), 0x3D, 0x3D]"
| "btoa [a, b] =
     [base64_unit (unat a div 4), base64_unit (unat a mod 4 * 16 + unat b div 16), base64_unit (unat b mod 16 * 4), 0x3D]"
| "btoa (a # b # c # r) =
     base64_unit (unat a div 4) # base64_unit (unat a mod 4 * 16 + unat b div 16)
     # base64_unit (unat b mod 16 * 4 + unat c div 64) # base64_unit (unat c mod 64) # btoa r"

definition basicCredentials :: "jsstr option \<Rightarrow> jsstr option \<Rightarrow> jsstr" where
  "basicCredentials username password = btoa (utf8 (text_or_empty username @ 0x3A # text_or_empty password))"

definition authority :: "jsstr \<Rightarrow> nat \<Rightarrow> jsstr" where
  "authority hostname port =
     (if 0x3A \<in> set hostname then 0x5B # hostname @ [0x5D, 0x3A] @ decimal port
      else hostname @ [0x3A] @ decimal port)"

definition crlf :: jsstr where
  "crlf = [0x0D, 0x0A]"

fun join_crlf :: "jsstr list \<Rightarrow> jsstr" where
  "join_crlf [] = []"
| "join_crlf [l] = l"
| "join_crlf (l # ls) = l @ crlf @ join_crlf ls"

definition connect_lines :: "proxy_config \<Rightarrow> tunnel_target \<Rightarrow> jsstr list" where
  "connect_lines proxy target =
     (let host = authority (tg_hostname target) (tg_port target)
      in [js ''CONNECT '' @ host @ js '' HTTP/1.1'', js ''Host: '' @ host]
         @ (if credentials proxy
            then [js ''Proxy-Authorization: Basic '' @ basicCredentials (px_username proxy) (px_password proxy)] else [])
         @ (case px_proxyConnection proxy of
              None \<Rightarrow> [js ''Proxy-Connection: keep-alive'']
            | Some None \<Rightarrow> []
            | Some (Some pc) \<Rightarrow> [js ''Proxy-Connection: '' @ pc]))"

definition buildConnectRequest :: "proxy_config \<Rightarrow> tunnel_target \<Rightarrow> jsstr" where
  "buildConnectRequest proxy target = join_crlf (connect_lines proxy target) @ crlf @ crlf"

subsection \<open>The reply\<close>

record connect_reply =
  cr_version :: jsstr
  cr_status :: nat
  cr_reason :: jsstr
  cr_headers :: "(jsstr \<times> jsstr) list"

text \<open>\<open>/^HTTP\/(\d)\.(\d) (\d{3})(?: (.*))?$/\<close>; a dot matches no line terminator.\<close>

definition line_terminator :: "nat \<Rightarrow> bool" where
  "line_terminator u \<longleftrightarrow> u \<in> {0x0A, 0x0D, 0x2028, 0x2029}"

definition connect_status_line :: "jsstr \<Rightarrow> (jsstr \<times> nat \<times> jsstr) option" where
  "connect_status_line s =
     (if 12 \<le> length s \<and> starts_with s (js ''HTTP/'') \<and> is_digit (s ! 5) \<and> s ! 6 = 0x2E \<and> is_digit (s ! 7)
         \<and> s ! 8 = 0x20 \<and> list_all is_digit (take 3 (drop 9 s))
         \<and> (length s = 12 \<or> s ! 12 = 0x20 \<and> list_all (\<lambda>u. \<not> line_terminator u) (drop 13 s))
      then Some ([s ! 5, 0x2E, s ! 7], parse_base 10 (take 3 (drop 9 s)), drop 13 s)
      else None)"

text \<open>A later field replaces an earlier one of the same name in the \<open>Map\<close>.\<close>

definition map_set :: "jsstr \<Rightarrow> 'a \<Rightarrow> (jsstr \<times> 'a) list \<Rightarrow> (jsstr \<times> 'a) list" where
  "map_set k v m = (if k \<in> fst ` set m then map (\<lambda>e. if fst e = k then (k, v) else e) m else m @ [(k, v)])"

fun reply_headers :: "jsstr list \<Rightarrow> (jsstr \<times> jsstr) list \<Rightarrow> (jsstr \<times> jsstr) list" where
  "reply_headers [] m = m"
| "reply_headers (line # ls) m =
     (if line = [] then m
      else case index_unit 0x3A line of
             None \<Rightarrow> reply_headers ls m
           | Some i \<Rightarrow>
               if i = 0 then reply_headers ls m
               else reply_headers ls (map_set (js_trim (toLowerCase (take i line))) (js_trim (drop (i + 1) line)) m))"

definition parseReply :: "jsstr \<Rightarrow> tf_error + connect_reply" where
  "parseReply t =
     (case split_at crlf t of
        [] \<Rightarrow> Inl (proxy_error PROXY_PROTOCOL)
      | statusLine # headerLines \<Rightarrow>
          (case connect_status_line statusLine of
             None \<Rightarrow> Inl (proxy_error PROXY_PROTOCOL)
           | Some (v, status, reason) \<Rightarrow>
               Inr \<lparr> cr_version = v, cr_status = status, cr_reason = reason, cr_headers = reply_headers headerLines [] \<rparr>))"

definition replyError :: "connect_reply \<Rightarrow> proxy_config \<Rightarrow> tf_error" where
  "replyError reply proxy =
     (if cr_status reply = 407
      then (if credentials proxy then proxy_error PROXY_AUTH_FAILED else proxy_error PROXY_AUTH_REQUIRED)
      else proxy_error PROXY_CONNECT_REFUSED)"

definition CRLFCRLF :: bytes where
  "CRLFCRLF = [0x0D, 0x0A, 0x0D, 0x0A]"

definition connect_exchange :: "'s reader_ops \<Rightarrow> proxy_config \<Rightarrow> nat \<Rightarrow> ('s duplex, tf_error, unit) action" where
  "connect_exchange R proxy maxBytes =
     bindA (catchA (dx_read (rd_until R CRLFCRLF maxBytes))
             (\<lambda>cause. throwA (if instanceof cause LimitError then cause else proxy_error PROXY_PROTOCOL))) (\<lambda>block.
       bindA (liftA (parseReply (latin1 block))) (\<lambda>reply.
         if cr_status reply < 200 \<or> cr_status reply > 299 then throwA (replyError reply proxy) else returnA ()))"

text \<open>\<open>maxProxyReplyBytes\<close> is the caller's limit or \<open>MAX_REPLY_HEADER\<close>.\<close>

definition MAX_REPLY_HEADER :: nat where
  "MAX_REPLY_HEADER = 32768"

definition openHttpConnect ::
  "'s reader_ops \<Rightarrow> tf_error option \<Rightarrow> 's connector \<Rightarrow> nat option \<Rightarrow> proxy_config \<Rightarrow> tunnel_target \<Rightarrow>
   (tf_error + unit) \<times> 's duplex option" where
  "openHttpConnect R signal connect maxBytes proxy target =
     (case signal of
        Some reason \<Rightarrow> (Inl reason, None)
      | None \<Rightarrow>
          (case connect (px_hostname proxy, px_port proxy)
                  (if px_protocol proxy = HttpsProxy then TransportOn else TransportStarttls) of
             None \<Rightarrow> (Inl (proxy_error PROXY_UNREACHABLE), None)
           | Some socket \<Rightarrow>
               (case bindA dx_await_opened (\<lambda>_. dx_write (utf8 (buildConnectRequest proxy target))) socket of
                  (Inl e, d) \<Rightarrow> (Inl e, Some (dx_abandon False d))
                | (Inr _, d) \<Rightarrow>
                    (case connect_exchange R proxy (case maxBytes of None \<Rightarrow> MAX_REPLY_HEADER | Some m \<Rightarrow> m) d of
                       (Inl e, d') \<Rightarrow> (Inl e, Some (dx_abandon True d'))
                     | (Inr _, d') \<Rightarrow> (Inr (), Some d')))))"

subsection \<open>No proxy\<close>

definition openDirect ::
  "tf_error option \<Rightarrow> 's connector \<Rightarrow> tunnel_target \<Rightarrow> (tf_error + unit) \<times> 's duplex option" where
  "openDirect signal connect target =
     (case signal of
        Some reason \<Rightarrow> (Inl reason, None)
      | None \<Rightarrow>
          (case connect (tg_hostname target, tg_port target) TransportOff of
             None \<Rightarrow> (Inl (proxy_error PROXY_UNREACHABLE), None)
           | Some socket \<Rightarrow>
               (case dx_await_opened socket of
                  (Inl e, d) \<Rightarrow> (Inl (proxy_error PROXY_UNREACHABLE), Some (d\<lparr>dx_closed := True\<rparr>))
                | (Inr _, d) \<Rightarrow> (Inr (), Some d))))"

end
