(* ===== verification/Connect_Correct.thy ===== *)
theory Connect_Correct
  imports Http_Connect Socks5_Correct
begin

text \<open>
  The CONNECT request reads back as its lines, with credentials that decode to what was configured; the
  reply's status alone decides, and what follows the head is left for the tunnel.
\<close>

subsection \<open>The request reads back\<close>

definition base64_value :: "nat \<Rightarrow> nat" where
  "base64_value u =
     (if is_upper u then u - 0x41 else if is_lower u then u - 0x61 + 26 else if is_digit u then u - 0x30 + 52
      else if u = 0x2B then 62 else 63)"

text \<open>The receiving side: four characters to three octets, a padded group to fewer.\<close>

fun base64_decode :: "jsstr \<Rightarrow> bytes" where
  "base64_decode (p # q # r # s # t) =
     of_nat (base64_value p * 4 + base64_value q div 16)
     # (if r = 0x3D then []
        else of_nat (base64_value q mod 16 * 16 + base64_value r div 4)
          # (if s = 0x3D then [] else [of_nat (base64_value r mod 4 * 64 + base64_value s)]))
     @ base64_decode t"
| "base64_decode _ = []"

lemma base64_value_unit: "v < 64 \<Longrightarrow> base64_value (base64_unit v) = v \<and> base64_unit v \<noteq> 0x3D"
  by (auto simp: base64_value_def base64_unit_def is_upper_def is_lower_def is_digit_def)

lemma base64_unit_text: "v < 64 \<Longrightarrow> base64_unit v \<noteq> 0x0D"
  by (auto simp: base64_unit_def)

lemma sextets:
  fixes a b c :: nat
  assumes "a < 256" "b < 256" "c < 256"
  shows "a div 4 < 64" "a mod 4 * 16 + b div 16 < 64" "b mod 16 * 4 + c div 64 < 64" "c mod 64 < 64"
    "a mod 4 * 16 < 64" "b mod 16 * 4 < 64"
    "a div 4 * 4 + (a mod 4 * 16 + b div 16) div 16 = a" "a div 4 * 4 + a mod 4 * 16 div 16 = a"
    "(a mod 4 * 16 + b div 16) mod 16 * 16 + (b mod 16 * 4 + c div 64) div 4 = b"
    "(a mod 4 * 16 + b div 16) mod 16 * 16 + b mod 16 * 4 div 4 = b"
    "(b mod 16 * 4 + c div 64) mod 4 * 64 + c mod 64 = c"
proof -
  have d: "b div 16 < 16" "c div 64 < 4" "a div 4 < 64" using assms by (simp_all add: less_mult_imp_div_less)
  have m: "a mod 4 < 4" "b mod 16 < 16" "c mod 64 < 64" by simp_all
  show "a div 4 < 64" "c mod 64 < 64" using d m by simp_all
  show "a mod 4 * 16 + b div 16 < 64" "b mod 16 * 4 + c div 64 < 64" "a mod 4 * 16 < 64" "b mod 16 * 4 < 64"
    using d m by linarith+
  have q: "(a mod 4 * 16 + b div 16) div 16 = a mod 4" "(a mod 4 * 16 + b div 16) mod 16 = b div 16"
    "(b mod 16 * 4 + c div 64) div 4 = b mod 16" "(b mod 16 * 4 + c div 64) mod 4 = c div 64"
    using d by simp_all
  show "a div 4 * 4 + (a mod 4 * 16 + b div 16) div 16 = a" "a div 4 * 4 + a mod 4 * 16 div 16 = a"
    "(a mod 4 * 16 + b div 16) mod 16 * 16 + (b mod 16 * 4 + c div 64) div 4 = b"
    "(a mod 4 * 16 + b div 16) mod 16 * 16 + b mod 16 * 4 div 4 = b"
    "(b mod 16 * 4 + c div 64) mod 4 * 64 + c mod 64 = c"
    unfolding q by simp_all
qed

lemma word_of_nat_unat_byte: "of_nat (unat (b :: byte)) = b"
  by simp

lemma base64_round_trip: "base64_decode (btoa b) = b"
proof (induction b rule: btoa.induct)
  case (2 a)
  note s = sextets [OF unat_byte_less [of a] unat_byte_less [of 0] unat_byte_less [of 0]]
  show ?case using s by (simp add: base64_value_unit del: of_nat_add of_nat_mult)
next
  case (3 a b)
  note s = sextets [OF unat_byte_less [of a] unat_byte_less [of b] unat_byte_less [of 0]]
  show ?case using s by (simp add: base64_value_unit del: of_nat_add of_nat_mult)
next
  case (4 a b c r)
  note s = sextets [OF unat_byte_less [of a] unat_byte_less [of b] unat_byte_less [of c]]
  show ?case using s 4 by (simp add: base64_value_unit del: of_nat_add of_nat_mult)
qed simp

lemma btoa_text: "0x0D \<notin> set (btoa b)"
proof (induction b rule: btoa.induct)
  case (2 a)
  note s = sextets [OF unat_byte_less [of a] unat_byte_less [of 0] unat_byte_less [of 0]]
  show ?case using s base64_unit_text by (simp add: eq_commute [of 13])
next
  case (3 a b)
  note s = sextets [OF unat_byte_less [of a] unat_byte_less [of b] unat_byte_less [of 0]]
  show ?case using s base64_unit_text by (simp add: eq_commute [of 13])
next
  case (4 a b c r)
  note s = sextets [OF unat_byte_less [of a] unat_byte_less [of b] unat_byte_less [of c]]
  show ?case using s 4 base64_unit_text by (simp add: eq_commute [of 13])
qed simp

lemma split_crlf_line: "0x0D \<notin> set l \<Longrightarrow> split_at crlf (l @ crlf @ r) = l # split_at crlf r"
  using split_at_front [of "0x0D" l "[0x0A]" r] by (simp add: crlf_def)

lemma split_crlf_join:
  "ls \<noteq> [] \<Longrightarrow> \<forall>l \<in> set ls. 0x0D \<notin> set l \<Longrightarrow> split_at crlf (join_crlf ls @ crlf @ r) = ls @ split_at crlf r"
  by (induction ls rule: join_crlf.induct) (simp_all add: split_crlf_line)

lemma decimal_text: "u \<in> set (decimal n) \<Longrightarrow> is_digit u"
proof (induction n rule: decimal.induct)
  case (1 n)
  then show ?case by (subst (asm) (2) decimal.simps) (auto simp: is_digit_def split: if_splits)
qed

lemma authority_text: "0x0D \<notin> set h \<Longrightarrow> 0x0D \<notin> set (authority h p)"
  by (auto simp: authority_def is_digit_def dest!: decimal_text)

lemma request_reads_back:
  assumes "0x0D \<notin> set (tg_hostname target)" "\<forall>pc. px_proxyConnection proxy = Some (Some pc) \<longrightarrow> 0x0D \<notin> set pc"
  shows "split_at crlf (buildConnectRequest proxy target) = connect_lines proxy target @ [[], []]"
proof -
  have "\<forall>l \<in> set (connect_lines proxy target). 0x0D \<notin> set l"
    using assms authority_text [OF assms(1)] btoa_text
    by (auto simp: connect_lines_def Let_def basicCredentials_def split: option.splits if_splits)
  moreover have "connect_lines proxy target \<noteq> []" by (simp add: connect_lines_def Let_def)
  moreover have "split_at crlf crlf = [[], []]" by (simp add: crlf_def starts_with_def)
  ultimately show ?thesis unfolding buildConnectRequest_def using split_crlf_join by metis
qed

subsection \<open>The status line\<close>

lemma status_line_iff:
  "connect_status_line s = Some (v, n, reason) \<longleftrightarrow>
     (\<exists>a b x y z tail. s = js ''HTTP/'' @ [a, 0x2E, b, 0x20, x, y, z] @ tail \<and> list_all is_digit [a, b, x, y, z]
        \<and> v = [a, 0x2E, b] \<and> n = parse_base 10 [x, y, z] \<and> (tail = [] \<and> reason = [] \<or> tail = 0x20 # reason)
        \<and> list_all (\<lambda>u. \<not> line_terminator u) reason)" (is "_ = ?spelled")
proof
  assume st: "connect_status_line s = Some (v, n, reason)"
  then have l: "12 \<le> length s" by (auto simp: connect_status_line_def split: if_splits)
  define h where "h = take 12 s"
  have s: "s = h @ drop 12 s" by (simp add: h_def)
  have "length h = 12" using l by (simp add: h_def)
  then obtain h0 h1 h2 h3 h4 h5 h6 h7 h8 h9 h10 h11 where h: "h = [h0, h1, h2, h3, h4, h5, h6, h7, h8, h9, h10, h11]"
    by (auto simp: length_Suc_conv numeral_eq_Suc)
  obtain t where t: "drop 12 s = t" by blast
  have s': "s = h0 # h1 # h2 # h3 # h4 # h5 # h6 # h7 # h8 # h9 # h10 # h11 # t" using s h t by simp
  show ?spelled
    using st unfolding s'
    by (cases t) (auto simp: connect_status_line_def starts_with_def numeral_eq_Suc split: if_splits)
next
  assume ?spelled
  then show "connect_status_line s = Some (v, n, reason)"
    by (auto simp: connect_status_line_def starts_with_def numeral_eq_Suc)
qed

subsection \<open>The exchange\<close>

text \<open>The outcome that the reply head alone decides.\<close>

definition connect_outcome :: "proxy_config \<Rightarrow> bytes \<Rightarrow> tf_error + unit" where
  "connect_outcome proxy block =
     bindE (parseReply (latin1 block)) (\<lambda>reply.
       if 200 \<le> cr_status reply \<and> cr_status reply \<le> 299 then Inr () else Inl (replyError reply proxy))"

lemma exchange_on_wire:
  assumes "dx_in d = (block @ payload, e)" "indexOf (block @ payload) CRLFCRLF 0 = Some (length block - 4)"
    "4 \<le> length block" "length block \<le> m"
  shows "connect_exchange wire_ops p m d = (connect_outcome p block, d\<lparr>dx_in := (payload, e)\<rparr>)"
proof -
  have "wire_until CRLFCRLF m (block @ payload, e) = (Inr block, (payload, e))"
    using assms(2-4) by (simp add: wire_until_def CRLFCRLF_def)
  then show ?thesis
    using assms(1)
    by (auto simp: connect_exchange_def connect_outcome_def dx_read_def catchA_def bindA_def bindE_def split: sum.split)
qed

context byte_source
begin

lemma dsim_exchange: "dsim (connect_exchange R p m) (connect_exchange wire_ops p m)"
  unfolding connect_exchange_def using sim_until by (intro dsim_intros) simp

end

text \<open>The tunnel over the buffered reader, however the octets are delivered.\<close>

lemma exchange_over_reader:
  assumes "concat cs = block @ payload" "dx_in d = new_ByteReader cs e"
    "indexOf (block @ payload) CRLFCRLF 0 = Some (length block - 4)" "4 \<le> length block" "length block \<le> m"
  shows "\<exists>d'. connect_exchange byte_reader_ops p m d = (connect_outcome p block, d')
     \<and> view (dx_in d') = (payload, e) \<and> dx_out d' = dx_out d"
proof -
  obtain r d' where run: "connect_exchange byte_reader_ops p m d = (r, d')" by fastforce
  let ?v = "dx_view view d"
  have "(reader_ok \<circ> dx_in) d" using assms(2) reader_ok_new by simp
  from simulatesD [OF br.dsim_exchange this run]
  have sim: "connect_exchange wire_ops p m ?v = (r, dx_view view d')" by simp
  have "dx_in ?v = (block @ payload, e)" using assms(1,2) by (simp add: view_new)
  from exchange_on_wire [OF this assms(3-5), of p] sim
  have "r = connect_outcome p block" "dx_view view d' = ?v\<lparr>dx_in := (payload, e)\<rparr>" by simp_all
  then have "view (dx_in d') = (payload, e)" "dx_out d' = dx_out d"
    by (metis dx_view_sel(1) duplex.select_convs(1) duplex.surjective duplex.update_convs(1),
        metis dx_view_sel(2) duplex.select_convs(2) duplex.surjective duplex.update_convs(1))
  with run \<open>r = connect_outcome p block\<close> show ?thesis by blast
qed

end
