(* ===== verification/Proxies.thy ===== *)
theory Proxies
  imports Http_Connect Der
begin

text \<open>
  \<open>src/proxy/index.js\<close> and \<open>src/proxy/tunnel.js\<close>: reading a proxy specification, checking the target,
  choosing the dialect, and the readable half of the tunnel. The platform's URL parser is a parameter.
\<close>

subsection \<open>URLs\<close>

text \<open>The components of a parsed URL, as the properties of a \<open>URL\<close> object return them.\<close>

record url =
  url_protocol :: jsstr
  url_username :: jsstr
  url_password :: jsstr
  url_hostname :: jsstr
  url_port :: jsstr
  url_pathname :: jsstr
  url_search :: jsstr
  url_hash :: jsstr

subsection \<open>Percent-decoding\<close>

text \<open>\<open>decodeURIComponent\<close>; \<open>None\<close> is its \<open>URIError\<close>.\<close>

definition percent_octet :: "jsstr \<Rightarrow> nat option" where
  "percent_octet s =
     (if 3 \<le> length s \<and> s ! 0 = 0x25 \<and> is_hex (s ! 1) \<and> is_hex (s ! 2)
      then Some (hex_value (s ! 1) * 16 + hex_value (s ! 2)) else None)"

fun percent_octets :: "nat \<Rightarrow> jsstr \<Rightarrow> nat list option" where
  "percent_octets 0 s = Some []"
| "percent_octets (Suc n) s =
     (case percent_octet s of None \<Rightarrow> None | Some b \<Rightarrow> map_option ((#) b) (percent_octets n (drop 3 s)))"

definition utf8_length :: "nat \<Rightarrow> nat" where
  "utf8_length b = (if b < 0x80 then 1 else if b < 0xC0 then 0 else if b < 0xE0 then 2 else if b < 0xF0 then 3
     else if b < 0xF8 then 4 else 0)"

definition utf8_point :: "nat list \<Rightarrow> nat option" where
  "utf8_point bs =
     (let c = foldl (\<lambda>a b. a * 64 + b mod 64)
                (if length bs = 1 then hd bs else hd bs mod 2 ^ (7 - length bs)) (tl bs)
      in if scalar c \<and> utf8_char c = bs then Some c else None)"

function decodeURIComponent :: "jsstr \<Rightarrow> jsstr option" where
  "decodeURIComponent [] = Some []"
| "decodeURIComponent (u # s) =
     (if u \<noteq> 0x25 then map_option ((#) u) (decodeURIComponent s)
      else case percent_octet (u # s) of
             None \<Rightarrow> None
           | Some b \<Rightarrow>
               (let n = utf8_length b
                in if n = 0 then None
                   else case percent_octets n (u # s) of
                          None \<Rightarrow> None
                        | Some bs \<Rightarrow>
                            (case utf8_point bs of
                               None \<Rightarrow> None
                             | Some c \<Rightarrow> map_option ((@) (utf16_char c)) (decodeURIComponent (drop (3 * n) (u # s))))))"
  by pat_completeness auto
termination
  by (relation "measure length") auto

subsection \<open>Specifications\<close>

datatype port_value = NoPort | IntegerPort int | OtherPort

record raw_proxy =
  rp_protocol :: "jsstr option"
  rp_hostname :: "jsstr option"
  rp_port :: port_value
  rp_username :: "jsstr option"
  rp_password :: "jsstr option"
  rp_proxyConnection :: "jsstr option option"

text \<open>
  \<open>protocol in DEFAULT_PORTS\<close>: the operator sees the properties of the object's prototype too. Of these,
  two are spelled in lower case.
\<close>

definition own_protocols :: "(jsstr \<times> nat) list" where
  "own_protocols = [(js ''http'', 8080), (js ''https'', 443), (js ''socks5'', 1080), (js ''socks5h'', 1080)]"

definition inherited_names :: "jsstr list" where
  "inherited_names = [js ''constructor'', js ''__proto__'']"

definition DEFAULT_PORT :: "jsstr \<Rightarrow> port_value" where
  "DEFAULT_PORT protocol = (case map_of own_protocols protocol of Some n \<Rightarrow> IntegerPort (int n) | None \<Rightarrow> OtherPort)"

definition scheme_of :: "jsstr \<Rightarrow> proxy_scheme" where
  "scheme_of protocol =
     (if protocol = js ''http'' then HttpProxy else if protocol = js ''https'' then HttpsProxy
      else if protocol = js ''socks5'' \<or> protocol = js ''socks5h'' then Socks5Proxy else OtherScheme protocol)"

definition strip_colon :: "jsstr \<Rightarrow> jsstr" where
  "strip_colon s = (if ends_with s [0x3A] then butlast s else s)"

definition nonempty :: "jsstr option \<Rightarrow> jsstr option" where
  "nonempty s = (case s of Some t \<Rightarrow> if t = [] then None else Some t | None \<Rightarrow> None)"

definition normalise :: "raw_proxy \<Rightarrow> tf_error + proxy_config" where
  "normalise cfg =
     (let protocol = strip_colon (toLowerCase (text_or_empty (rp_protocol cfg)))
      in if protocol \<notin> set (map fst own_protocols) \<union> set inherited_names then Inl config_invalid
         else if nonempty (rp_hostname cfg) = None then Inl config_invalid
         else (case (case rp_port cfg of NoPort \<Rightarrow> DEFAULT_PORT protocol | p \<Rightarrow> p) of
                 IntegerPort port \<Rightarrow>
                   if port < 1 \<or> port > 65535 then Inl config_invalid
                   else if nonempty (rp_password cfg) \<noteq> None \<and> nonempty (rp_username cfg) = None then Inl config_invalid
                   else Inr \<lparr> px_protocol = scheme_of protocol, px_hostname = the (rp_hostname cfg), px_port = nat port,
                              px_username = nonempty (rp_username cfg), px_password = nonempty (rp_password cfg),
                              px_proxyConnection = rp_proxyConnection cfg \<rparr>
               | _ \<Rightarrow> Inl config_invalid))"

text \<open>The port written in the authority.\<close>

fun after_scheme :: "jsstr \<Rightarrow> jsstr option" where
  "after_scheme [] = None"
| "after_scheme (u # s) = (if starts_with (u # s) (js ''://'') then Some (drop 3 (u # s)) else after_scheme s)"

definition port_suffix :: "jsstr \<Rightarrow> nat option option" where
  "port_suffix r =
     (if r = [] then Some None
      else if hd r = 0x3A \<and> tl r \<noteq> [] \<and> list_all is_digit (tl r) then Some (Some (parse_base 10 (tl r)))
      else None)"

definition bracketed_suffix :: "jsstr \<Rightarrow> nat option option" where
  "bracketed_suffix h =
     (if starts_with h [0x5B] \<and> 0x5D \<in> set h then port_suffix (tl (dropWhile (\<lambda>u. u \<noteq> 0x5D) h)) else None)"

definition explicitPort :: "jsstr \<Rightarrow> nat option" where
  "explicitPort spec =
     (case after_scheme spec of
        None \<Rightarrow> None
      | Some rest \<Rightarrow>
          (let auth = takeWhile (\<lambda>u. u \<notin> {0x2F, 0x3F, 0x23}) rest;
               hostPart = (case last_index_unit 0x40 auth of None \<Rightarrow> auth | Some k \<Rightarrow> drop (k + 1) auth)
           in case bracketed_suffix hostPart of
                Some m \<Rightarrow> m
              | None \<Rightarrow> (case port_suffix (dropWhile (\<lambda>u. u \<noteq> 0x3A) hostPart) of Some m \<Rightarrow> m | None \<Rightarrow> None)))"

definition decodePart :: "jsstr \<Rightarrow> tf_error + jsstr option" where
  "decodePart v =
     (if v = [] then Inr None
      else case decodeURIComponent v of None \<Rightarrow> Inl config_invalid | Some t \<Rightarrow> Inr (Some t))"

definition parse_proxy_url :: "jsstr \<Rightarrow> url \<Rightarrow> tf_error + proxy_config" where
  "parse_proxy_url spec u =
     bindE (decodePart (url_username u)) (\<lambda>username.
       bindE (decodePart (url_password u)) (\<lambda>password.
         normalise \<lparr> rp_protocol = Some (toLowerCase (strip_colon (url_protocol u))),
           rp_hostname = Some (strip_brackets (url_hostname u)),
           rp_port = (if url_port u \<noteq> [] then IntegerPort (int (parse_base 10 (url_port u)))
                      else case explicitPort spec of None \<Rightarrow> NoPort | Some n \<Rightarrow> IntegerPort (int n)),
           rp_username = username, rp_password = password, rp_proxyConnection = None \<rparr>))"

text \<open>What a caller can give: nothing, a string, an object, or an object that is frozen already.\<close>

datatype proxy_spec = NoProxy | ProxyText jsstr | ProxyObject raw_proxy | FrozenProxy proxy_config

definition raw_of :: "proxy_config \<Rightarrow> raw_proxy" where
  "raw_of p =
     \<lparr> rp_protocol = Some (case px_protocol p of HttpProxy \<Rightarrow> js ''http'' | HttpsProxy \<Rightarrow> js ''https''
                          | Socks5Proxy \<Rightarrow> js ''socks5'' | OtherScheme s \<Rightarrow> s),
       rp_hostname = Some (px_hostname p), rp_port = IntegerPort (int (px_port p)),
       rp_username = px_username p, rp_password = px_password p, rp_proxyConnection = px_proxyConnection p \<rparr>"

definition parseProxy :: "(jsstr \<Rightarrow> url option) \<Rightarrow> proxy_spec \<Rightarrow> tf_error + proxy_config option" where
  "parseProxy parse_url spec =
     (case spec of
        NoProxy \<Rightarrow> Inr None
      | ProxyText s \<Rightarrow>
          if s = [] then Inr None
          else (case parse_url s of
                  None \<Rightarrow> Inl config_invalid
                | Some u \<Rightarrow> bindE (parse_proxy_url s u) (\<lambda>p. Inr (Some p)))
      | ProxyObject r \<Rightarrow> bindE (normalise r) (\<lambda>p. Inr (Some p))
      | FrozenProxy p \<Rightarrow> bindE (normalise (raw_of p)) (\<lambda>p. Inr (Some p)))"

subsection \<open>Opening a tunnel\<close>

record raw_target =
  rt_hostname :: "jsstr option"
  rt_port :: port_value

definition validateTarget :: "raw_target \<Rightarrow> tf_error + tunnel_target" where
  "validateTarget t =
     (case nonempty (rt_hostname t) of
        None \<Rightarrow> Inl config_invalid
      | Some h \<Rightarrow>
          (case rt_port t of
             IntegerPort port \<Rightarrow>
               if port < 1 \<or> port > 65535 then Inl config_invalid
               else if list_ex (\<lambda>u. u = 0 \<or> js_space u) h then Inl config_invalid
               else Inr \<lparr> tg_hostname = h, tg_port = nat port \<rparr>
           | _ \<Rightarrow> Inl config_invalid))"

text \<open>
  The result says whether the tunnel goes through a proxy. A frozen object is taken as it is; an empty
  string is not, it means no proxy.
\<close>

definition openTunnel ::
  "'s reader_ops \<Rightarrow> (jsstr \<Rightarrow> url option) \<Rightarrow> tf_error option \<Rightarrow> 's connector option \<Rightarrow> nat option \<Rightarrow> proxy_spec \<Rightarrow>
   raw_target \<Rightarrow> (tf_error + bool) \<times> 's duplex option" where
  "openTunnel R parse_url signal connector maxBytes proxy t =
     (case connector of
        None \<Rightarrow> (Inl config_invalid, None)
      | Some connect \<Rightarrow>
          (case validateTarget t of
             Inl e \<Rightarrow> (Inl e, None)
           | Inr target \<Rightarrow>
               (case (case proxy of FrozenProxy p \<Rightarrow> Inr (Some p) | _ \<Rightarrow> parseProxy parse_url proxy) of
                  Inl e \<Rightarrow> (Inl e, None)
                | Inr None \<Rightarrow> apfst (map_sum id (\<lambda>_. False)) (openDirect signal connect target)
                | Inr (Some cfg) \<Rightarrow>
                    (case px_protocol cfg of
                       Socks5Proxy \<Rightarrow> apfst (map_sum id (\<lambda>_. True)) (openSocks5 R signal connect cfg target)
                     | OtherScheme s \<Rightarrow> (Inl config_invalid, None)
                     | _ \<Rightarrow> apfst (map_sum id (\<lambda>_. True)) (openHttpConnect R signal connect maxBytes cfg target)))))"

subsection \<open>The tunnel's readable half\<close>

text \<open>
  Once the handshake's reader has nothing buffered, its lock on the socket is given up and the socket is
  read directly, through a byte-stream reader if it has one and a new buffered reader otherwise; either
  reads the same remaining deliveries.
\<close>

record tunnel_stream =
  ts_reader :: byte_reader
  ts_promoted :: bool

definition new_tunnel_stream :: "byte_reader \<Rightarrow> tunnel_stream" where
  "new_tunnel_stream r = \<lparr> ts_reader = r, ts_promoted = False \<rparr>"

definition promote :: "tunnel_stream \<Rightarrow> tunnel_stream" where
  "promote t =
     (if ts_promoted t \<or> len (ts_reader t) > 0 \<or> atEof (ts_reader t) then t
      else \<lparr> ts_reader = new_ByteReader (source (ts_reader t)) (source_end (ts_reader t)), ts_promoted = True \<rparr>)"

definition tunnel_pull :: "nat \<Rightarrow> (tunnel_stream, tf_error, bytes option) action" where
  "tunnel_pull n t =
     (let t' = promote t
      in case readSome n (ts_reader t') of (r, s) \<Rightarrow> (r, t'\<lparr>ts_reader := s\<rparr>))"

end
