(* ===== verification/Proxy_Properties.thy ===== *)
theory Proxy_Properties
  imports Proxies Connect_Correct "HOL-Library.Code_Target_Nat"
begin

text \<open>
  What the layers above rely on: a tunnel starts at the first octet the proxy did not write for itself, the
  credentials go only where they were asked for, and no target can add a line to the request.
\<close>

definition sample_proxy :: "proxy_scheme \<Rightarrow> proxy_config" where
  "sample_proxy scheme =
     \<lparr> px_protocol = scheme, px_hostname = js ''proxy'', px_port = 1080, px_username = Some (js ''u''),
       px_password = Some (js ''p''), px_proxyConnection = None \<rparr>"

definition sample_target :: tunnel_target where
  "sample_target = \<lparr> tg_hostname = js ''a.b'', tg_port = 443 \<rparr>"

text \<open>C31: over any fragmentation of the proxy's stream and a transport that takes every write, the SOCKS5
  handshake succeeds exactly when the stream begins with the replies of a server that lets the client
  through; the tunnel's reader then holds exactly the octets after them, and exactly the greeting, the
  credentials if they were selected, and the request have been sent.\<close>

theorem socks_tunnel_is_aligned:
  assumes "dx_writes d = None" "dx_in d = new_ByteReader cs e" "encodeAddress t = Inr a"
    "credentials p \<longrightarrow> auth_message p = Inr au"
  shows "case socks_handshake byte_reader_ops p t d of
      (Inl _, _) \<Rightarrow> \<nexists>m replies rest. concat cs = replies @ rest \<and> server_opening p m replies
    | (Inr _, d') \<Rightarrow> \<exists>m replies. server_opening p m replies \<and> (concat cs, e) = (replies @ fst (view (dx_in d')), snd (view (dx_in d')))
        \<and> dx_out d' = dx_out d @ client_opening p m au a"
proof -
  let ?v = "dx_view view d"
  obtain r d' where run: "socks_handshake byte_reader_ops p t d = (r, d')" by fastforce
  have "(reader_ok \<circ> dx_in) d" using assms(2) reader_ok_new by simp
  from simulatesD [OF br.dsim_socks_handshake this run]
  have sim: "socks_handshake wire_ops p t ?v = (r, dx_view view d')" by simp
  have v: "dx_in ?v = (concat cs, e)" "dx_writes ?v = None" "dx_out ?v = dx_out d"
    using assms(1,2) by (simp_all add: view_new)
  note iff = handshake_iff [OF v(2) assms(3) assms(4) [rule_format]]
  show ?thesis
  proof (cases r)
    case (Inr u)
    with sim obtain m b where "server_opening p m b" "advanced ?v b (client_opening p m au a) (dx_view view d')"
      using iff by auto
    then have "concat cs = b @ fst (view (dx_in d'))" "snd (view (dx_in d')) = e"
      "dx_out d' = dx_out d @ client_opening p m au a" using v by (simp_all add: advanced_def)
    with \<open>server_opening p m b\<close> run Inr show ?thesis by auto
  next
    case (Inl x)
    have "False" if o: "concat cs = replies @ rest" "server_opening p m replies" for m replies rest
    proof -
      let ?d = "?v\<lparr>dx_in := (rest, e), dx_out := dx_out d @ client_opening p m au a\<rparr>"
      have "advanced ?v replies (client_opening p m au a) ?d" using o v by (simp add: advanced_def)
      with iff o(2) have "socks_handshake wire_ops p t ?v = (Inr (), ?d)" by blast
      with sim Inl show False by simp
    qed
    then show ?thesis using run Inl by auto
  qed
qed

theorem socks_tunnel_is_aligned_witness:
  "case socks_handshake byte_reader_ops (sample_proxy Socks5Proxy) sample_target
       (new_duplex (new_ByteReader [[5], [2, 1, 0, 5, 0, 0, 3], [1, 120, 1, 187, 22]] CleanEnd) None None) of
     (Inr _, d') \<Rightarrow> fst (view (dx_in d')) = [22] | _ \<Rightarrow> False"
proof -
  let ?cs = "[[5], [2, 1, 0, 5, 0, 0, 3], [1, 120, 1, 187, 22]] :: bytes list"
  let ?d = "new_duplex (new_ByteReader ?cs CleanEnd) None None"
  let ?p = "sample_proxy Socks5Proxy"
  have a: "encodeAddress sample_target = Inr [3, 3, 97, 46, 98, 1, 187]" by code_simp
  have au: "credentials ?p \<longrightarrow> auth_message ?p = Inr [1, 1, 117, 1, 112]" by code_simp
  have "bound_address [3, 1, 120, 1, 187]" by (simp add: bound_address_def)
  then have so: "server_opening ?p 2 [5, 2, 1, 0, 5, 0, 0, 3, 1, 120, 1, 187]"
    by (auto simp: server_opening_def socks_methods_def credentials_def sample_proxy_def)
  have d: "dx_writes ?d = None" "dx_in ?d = new_ByteReader ?cs CleanEnd" by (simp_all add: new_duplex_def)
  have "case socks_handshake byte_reader_ops ?p sample_target ?d of
     (Inr _, d') \<Rightarrow> fst (view (dx_in d')) = [22] | _ \<Rightarrow> False" by code_simp
  with socks_tunnel_is_aligned [OF d a au] so show ?thesis by simp
qed

text \<open>C32: whatever the proxy and the transport do, what has been sent is a prefix of the opening, message by
  message, and the credentials are in it only if they were offered and the two octets read as the answer
  to the greeting selected them.\<close>

theorem credentials_only_when_selected:
  assumes "socks_handshake R p t d = (r, d')"
  shows "\<exists>sent. dx_out d' = dx_out d @ sent
    \<and> (sent \<in> {[], greeting p}
       \<or> (\<exists>a. encodeAddress t = Inr a \<and> sent = greeting p @ [0x05, 0x01, 0x00] @ a)
       \<or> credentials p \<and> (\<exists>reply s. rd_exactly R 2 (dx_in d) = (Inr reply, s) \<and> reply ! 0 = 0x05 \<and> reply ! 1 = 0x02)
         \<and> (\<exists>au. auth_message p = Inr au \<and> (sent = greeting p @ au
              \<or> (\<exists>a. encodeAddress t = Inr a \<and> sent = greeting p @ au @ [0x05, 0x01, 0x00] @ a))))"
  using handshake_sends [OF assms] by (simp add: sent_so_far_def selected_password_def)

theorem credentials_only_when_selected_witness:
  "case socks_handshake wire_ops (sample_proxy Socks5Proxy) sample_target (new_duplex ([5, 0, 5, 2], CleanEnd) None None) of
     (r, d') \<Rightarrow> r = Inl (proxy_error PROXY_PROTOCOL)
       \<and> dx_out d' = greeting (sample_proxy Socks5Proxy) @ [5, 1, 0] @ [3, 3, 97, 46, 98, 1, 187]"
proof -
  let ?d = "new_duplex ([5, 0, 5, 2], CleanEnd) None None :: wire duplex"
  obtain r d' where run: "socks_handshake wire_ops (sample_proxy Socks5Proxy) sample_target ?d = (r, d')" by fastforce
  have "case socks_handshake wire_ops (sample_proxy Socks5Proxy) sample_target ?d of
     (r, d') \<Rightarrow> r = Inl (proxy_error PROXY_PROTOCOL)
       \<and> dx_out d' = greeting (sample_proxy Socks5Proxy) @ [5, 1, 0] @ [3, 3, 97, 46, 98, 1, 187]" by code_simp
  with credentials_only_when_selected [OF run] run show ?thesis by simp
qed

text \<open>C33: over any fragmentation, the outcome of CONNECT is decided by the reply head alone: a status line with
  any version and reason and a status of 200 to 299 opens the tunnel, 407 is reported by whether
  credentials were sent, every other reply is refused; the reader is left with exactly the octets after
  the blank line, and nothing more is sent.\<close>

theorem connect_outcome_is_the_status:
  assumes "concat cs = block @ payload" "dx_in d = new_ByteReader cs e"
    "indexOf (block @ payload) CRLFCRLF 0 = Some (length block - 4)" "4 \<le> length block" "length block \<le> m"
  shows "case connect_exchange byte_reader_ops p m d of (r, d') \<Rightarrow>
      view (dx_in d') = (payload, e) \<and> dx_out d' = dx_out d
      \<and> (r = Inr () \<longleftrightarrow> (\<exists>v n reason. connect_status_line (hd (split_at crlf (latin1 block))) = Some (v, n, reason)
            \<and> 200 \<le> n \<and> n \<le> 299))
      \<and> (\<forall>v n reason. connect_status_line (hd (split_at crlf (latin1 block))) = Some (v, n, reason) \<and> (n < 200 \<or> 299 < n) \<longrightarrow>
           r = Inl (proxy_error (if n \<noteq> 407 then PROXY_CONNECT_REFUSED
                                 else if credentials p then PROXY_AUTH_FAILED else PROXY_AUTH_REQUIRED)))"
proof -
  obtain d' where run: "connect_exchange byte_reader_ops p m d = (connect_outcome p block, d')"
    and d': "view (dx_in d') = (payload, e)" "dx_out d' = dx_out d"
    using exchange_over_reader [OF assms] by blast
  obtain l ls where "split_at crlf (latin1 block) = l # ls" by (cases "split_at crlf (latin1 block)") auto
  then show ?thesis
    using run d' by (auto simp: connect_outcome_def parseReply_def replyError_def split: option.splits)
qed

theorem connect_outcome_is_the_status_witness:
  "case connect_exchange byte_reader_ops (sample_proxy HttpProxy) 100
      (new_duplex (new_ByteReader [ascii_bytes ''HTTP/1.0 200 OK'' @ [13, 10], [13, 10, 22, 3]] CleanEnd) None None) of
     (r, d') \<Rightarrow> r = Inr () \<and> view (dx_in d') = ([22, 3], CleanEnd)"
proof -
  let ?block = "ascii_bytes ''HTTP/1.0 200 OK'' @ [13, 10] @ [13, 10]"
  let ?cs = "[ascii_bytes ''HTTP/1.0 200 OK'' @ [13, 10], [13, 10, 22, 3]]"
  let ?d = "new_duplex (new_ByteReader ?cs CleanEnd) None None"
  have c: "concat ?cs = ?block @ [22, 3]" "dx_in ?d = new_ByteReader ?cs CleanEnd" by (simp_all add: new_duplex_def)
  have i: "indexOf (?block @ [22, 3]) CRLFCRLF 0 = Some (length ?block - 4)" by code_simp
  have l: "4 \<le> length ?block" "length ?block \<le> 100" by (simp_all add: ascii_bytes_def)
  have "connect_status_line (hd (split_at crlf (latin1 ?block))) = Some (js ''1.0'', 200, js '' OK'')
    \<or> connect_status_line (hd (split_at crlf (latin1 ?block))) = Some (js ''1.0'', 200, js ''OK'')" by code_simp
  with connect_outcome_is_the_status [OF c i l, of "sample_proxy HttpProxy"] show ?thesis by (auto split: prod.splits)
qed

text \<open>The tunnel's readable half: giving up the handshake's reader loses nothing, and every pull delivers the
  next octets of the stream, or its end.\<close>

lemma promote_keeps: "reader_ok (ts_reader t) \<Longrightarrow> reader_ok (ts_reader (promote t)) \<and> view (ts_reader (promote t)) = view (ts_reader t)"
  using reader_ok_new by (auto simp: promote_def view_new) (auto simp: reader_ok_def view_def pending_def)

lemma tunnel_pull_delivers:
  assumes "reader_ok (ts_reader t)" "tunnel_pull n t = (r, t')" "0 < n"
  shows "reader_ok (ts_reader t')
    \<and> (case r of
         Inr (Some c) \<Rightarrow> c \<noteq> [] \<and> length c \<le> n \<and> fst (view (ts_reader t)) = c @ fst (view (ts_reader t'))
       | Inr None \<Rightarrow> view (ts_reader t) = ([], CleanEnd)
       | Inl e \<Rightarrow> (\<exists>k. view (ts_reader t) = ([], Fails k) \<and> e = TransportFailure k))"
proof -
  let ?s = "ts_reader (promote t)"
  note p = promote_keeps [OF assms(1)]
  obtain s' where run: "readSome n ?s = (r, s')" and t': "ts_reader t' = s'"
    using assms(2) by (auto simp: tunnel_pull_def Let_def split: prod.splits)
  have ops: "rd_some byte_reader_ops = readSome" by (simp add: byte_reader_ops_def)
  show ?thesis
  proof (cases "fst (view ?s) = []")
    case True
    from br.some_end_law [unfolded ops, OF conjunct1 [OF p] True run] True p t' show ?thesis
      by (cases "view (ts_reader t)") (auto simp: wire_some_def split: source_end.splits)
  next
    case False
    from br.some_data_law [unfolded ops, OF conjunct1 [OF p] False, of n] run p t' assms(3) show ?thesis by auto
  qed
qed

text \<open>An embedded IPv4 address replaces whatever groups stand from the seventh on, so an address with too many
  groups is accepted; and the operator \<open>in\<close> accepts a protocol that only the prototype of the table knows.\<close>

lemma ipv6_tail_overwrites_groups:
  "socks_parseIpv6 (js ''1:2:3:4:5:6:7:8:9:1.2.3.4'') = socks_parseIpv6 (js ''1:2:3:4:5:6:1.2.3.4'')
   \<and> socks_parseIpv6 (js ''1:2:3:4:5:6:1.2.3.4'') = Inr [0, 1, 0, 2, 0, 3, 0, 4, 0, 5, 0, 6, 1, 2, 3, 4]"
  by code_simp

lemma inherited_protocol_is_accepted:
  "case normalise \<lparr> rp_protocol = Some (js ''constructor''), rp_hostname = Some (js ''proxy''), rp_port = IntegerPort 1,
      rp_username = None, rp_password = None, rp_proxyConnection = None \<rparr> of
     Inr p \<Rightarrow> px_protocol p = OtherScheme (js ''constructor'') | Inl _ \<Rightarrow> False"
  by code_simp

text \<open>Normalising is idempotent, and a normalised proxy has a name, a port in range and no password alone.\<close>

lemma normalise_result:
  assumes "normalise cfg = Inr p"
  shows "px_hostname p \<noteq> [] \<and> 1 \<le> px_port p \<and> px_port p \<le> 65535 \<and> (px_password p \<noteq> None \<longrightarrow> credentials p)"
  using assms by (auto simp: normalise_def Let_def nonempty_def credentials_def nat_le_eq_zle
      split: if_splits option.splits port_value.splits)





end
