(* ===== verification/Cookies.thy ===== *)
theory Cookies
  imports Proxies "HOL-Library.Product_Lexorder"
begin

text \<open>
  \<open>src/client/cookies.js\<close>: the cookie jar. The \<open>Map\<close> from keys to records is an association list in
  insertion order; the clock is an argument of every operation and stands still during a call, and the
  creation counter, a variable of the module, is part of the state. Header values have code units below
  0x100.
\<close>

subsection \<open>Dates\<close>

definition date_delimiter :: "nat \<Rightarrow> bool" where
  "date_delimiter u \<longleftrightarrow> u = 0x09 \<or> (0x20 \<le> u \<and> u \<le> 0x2f) \<or> (0x3b \<le> u \<and> u \<le> 0x40) \<or> (0x5b \<le> u \<and> u \<le> 0x60)
     \<or> (0x7b \<le> u \<and> u \<le> 0x7e)"

text \<open>The non-empty tokens between runs of delimiters.\<close>

fun date_tokens :: "jsstr \<Rightarrow> jsstr list" where
  "date_tokens [] = []"
| "date_tokens (u # s) =
     (if date_delimiter u then date_tokens s
      else case s of
             [] \<Rightarrow> [[u]]
           | v # _ \<Rightarrow> if date_delimiter v then [u] # date_tokens s
                     else (case date_tokens s of [] \<Rightarrow> [[u]] | t # ts \<Rightarrow> (u # t) # ts))"

text \<open>
  A run of \<open>lo\<close> to \<open>hi\<close> digits and what follows it. In every pattern of the parser a non-digit or the end
  must follow, so the run is the whole one.
\<close>

definition digit_run :: "nat \<Rightarrow> nat \<Rightarrow> jsstr \<Rightarrow> (nat \<times> jsstr) option" where
  "digit_run lo hi s =
     (let d = takeWhile is_digit s
      in if lo \<le> length d \<and> length d \<le> hi then Some (parse_base 10 d, dropWhile is_digit s) else None)"

text \<open>\<open>(?:\D.*)?$\<close> after a maximal run of digits.\<close>

definition junk_tail :: "jsstr \<Rightarrow> bool" where
  "junk_tail s \<longleftrightarrow> list_all (\<lambda>u. \<not> line_terminator u) (tl s)"

definition number_token :: "nat \<Rightarrow> nat \<Rightarrow> jsstr \<Rightarrow> nat option" where
  "number_token lo hi tok =
     (case digit_run lo hi tok of Some (n, r) \<Rightarrow> if junk_tail r then Some n else None | None \<Rightarrow> None)"

definition after_colon :: "jsstr \<Rightarrow> jsstr option" where
  "after_colon r = (if starts_with r [0x3A] then Some (tl r) else None)"

definition time_token :: "jsstr \<Rightarrow> (nat \<times> nat \<times> nat) option" where
  "time_token tok =
     (case digit_run 1 2 tok of
        None \<Rightarrow> None
      | Some (h, r) \<Rightarrow>
          (case Option.bind (after_colon r) (digit_run 1 2) of
             None \<Rightarrow> None
           | Some (m, r') \<Rightarrow> map_option (\<lambda>s. (h, m, s)) (Option.bind (after_colon r') (number_token 1 2))))"

definition MONTHS :: "jsstr list" where
  "MONTHS = [js ''jan'', js ''feb'', js ''mar'', js ''apr'', js ''may'', js ''jun'', js ''jul'', js ''aug'', js ''sep'',
             js ''oct'', js ''nov'', js ''dec'']"

fun position :: "'a \<Rightarrow> 'a list \<Rightarrow> nat option" where
  "position x [] = None"
| "position x (y # ys) = (if x = y then Some 0 else map_option Suc (position x ys))"

record date_parts =
  dp_time :: "(nat \<times> nat \<times> nat) option"
  dp_day :: "nat option"
  dp_month :: "nat option"
  dp_year :: "nat option"

text \<open>A token goes to the first category that is still unset and that it matches.\<close>

definition date_step :: "date_parts \<Rightarrow> jsstr \<Rightarrow> date_parts" where
  "date_step p tok =
     (if dp_time p = None \<and> time_token tok \<noteq> None then p\<lparr>dp_time := time_token tok\<rparr>
      else if dp_day p = None \<and> number_token 1 2 tok \<noteq> None then p\<lparr>dp_day := number_token 1 2 tok\<rparr>
      else if dp_month p = None \<and> position (toLowerCase (take 3 tok)) MONTHS \<noteq> None
           then p\<lparr>dp_month := position (toLowerCase (take 3 tok)) MONTHS\<rparr>
      else if dp_year p = None \<and> number_token 2 4 tok \<noteq> None then p\<lparr>dp_year := number_token 2 4 tok\<rparr>
      else p)"

definition full_year :: "nat \<Rightarrow> nat" where
  "full_year y = (if 70 \<le> y \<and> y \<le> 99 then y + 1900 else if y \<le> 69 then y + 2000 else y)"

definition parseCookieDate :: "jsstr \<Rightarrow> int option" where
  "parseCookieDate s =
     (let p = foldl date_step \<lparr> dp_time = None, dp_day = None, dp_month = None, dp_year = None \<rparr> (date_tokens s)
      in case (dp_time p, dp_day p, dp_month p, dp_year p) of
           (Some (hh, mm, ss), Some day, Some month, Some y) \<Rightarrow>
             (let year = full_year y
              in if day < 1 \<or> day > 31 \<or> year < 1601 \<or> hh > 23 \<or> mm > 59 \<or> ss > 59 then None
                 else Some (date_utc (int year) (month + 1) day hh mm ss))
         | _ \<Rightarrow> None)"

subsection \<open>Matching\<close>

definition defaultPath :: "jsstr \<Rightarrow> jsstr" where
  "defaultPath requestPath =
     (if requestPath = [] \<or> hd requestPath \<noteq> 0x2F then [0x2F]
      else case last_index_unit 0x2F requestPath of
             Some k \<Rightarrow> if k = 0 then [0x2F] else take k requestPath
           | None \<Rightarrow> [0x2F])"

definition pathMatches :: "jsstr \<Rightarrow> jsstr \<Rightarrow> bool" where
  "pathMatches requestPath cookiePath \<longleftrightarrow>
     requestPath = cookiePath
     \<or> starts_with requestPath cookiePath
       \<and> (ends_with cookiePath [0x2F]
          \<or> length cookiePath < length requestPath \<and> requestPath ! length cookiePath = 0x2F)"

definition domainMatches :: "jsstr \<Rightarrow> jsstr \<Rightarrow> bool" where
  "domainMatches host cookieDomain \<longleftrightarrow> host = cookieDomain \<or> ends_with host (0x2E # cookieDomain)"

definition looksLikeIp :: "jsstr \<Rightarrow> bool" where
  "looksLikeIp host \<longleftrightarrow>
     (let ps = split_unit 0x2E host
      in length ps = 4 \<and> list_all (\<lambda>p. 1 \<le> length p \<and> length p \<le> 3 \<and> list_all is_digit p) ps)
     \<or> 0x3A \<in> set host
     \<or> (2 \<le> length host \<and> starts_with host [0x5B] \<and> ends_with host [0x5D]
        \<and> list_all (\<lambda>u. \<not> line_terminator u) (butlast (tl host)))"

subsection \<open>The jar\<close>

text \<open>\<open>None\<close> is an expiry of \<open>Infinity\<close>.\<close>

record cookie =
  ck_name :: jsstr
  ck_value :: jsstr
  ck_domain :: jsstr
  ck_hostOnly :: bool
  ck_path :: jsstr
  ck_secure :: bool
  ck_httpOnly :: bool
  ck_sameSite :: "jsstr option"
  ck_expiry :: "int option"
  ck_creation :: int
  ck_seq :: nat

record jar =
  j_cookies :: "(jsstr \<times> cookie) list"
  j_rejected :: nat
  j_seq :: nat
  j_maxCookies :: nat
  j_maxPerDomain :: nat

definition new_CookieJar :: "nat \<Rightarrow> nat \<Rightarrow> nat \<Rightarrow> jar" where
  "new_CookieJar seqCounter maxCookies maxPerDomain =
     \<lparr> j_cookies = [], j_rejected = 0, j_seq = seqCounter, j_maxCookies = maxCookies, j_maxPerDomain = maxPerDomain \<rparr>"

definition make_key :: "jsstr \<Rightarrow> jsstr \<Rightarrow> jsstr \<Rightarrow> jsstr" where
  "make_key domain path name = domain @ 0x7C # path @ 0x7C # name"

definition cookie_key :: "cookie \<Rightarrow> jsstr" where
  "cookie_key c = make_key (ck_domain c) (ck_path c) (ck_name c)"

definition map_delete :: "'k \<Rightarrow> ('k \<times> 'v) list \<Rightarrow> ('k \<times> 'v) list" where
  "map_delete k m = filter (\<lambda>e. fst e \<noteq> k) m"

definition expired :: "int \<Rightarrow> cookie \<Rightarrow> bool" where
  "expired now c \<longleftrightarrow> (case ck_expiry c of None \<Rightarrow> False | Some t \<Rightarrow> t \<le> now)"

text \<open>The oldest records of a list, as many as it has more than the cap; deleted by their keys.\<close>

definition oldest :: "nat \<Rightarrow> cookie list \<Rightarrow> cookie list" where
  "oldest cap cs = take (length cs - cap) (sort_key (\<lambda>c. (ck_creation c, ck_seq c)) cs)"

definition delete_all :: "cookie list \<Rightarrow> (jsstr \<times> cookie) list \<Rightarrow> (jsstr \<times> cookie) list" where
  "delete_all cs m = foldl (\<lambda>m c. map_delete (cookie_key c) m) m cs"

definition enforceCaps :: "int \<Rightarrow> jsstr \<Rightarrow> jar \<Rightarrow> jar" where
  "enforceCaps now domain j =
     (let m1 = filter (\<lambda>e. \<not> expired now (snd e)) (j_cookies j);
          inDomain = filter (\<lambda>c. ck_domain c = domain) (map snd m1);
          m2 = (if length inDomain > j_maxPerDomain j then delete_all (oldest (j_maxPerDomain j) inDomain) m1 else m1);
          m3 = (if length m2 > j_maxCookies j then delete_all (oldest (j_maxCookies j) (map snd m2)) m2 else m2)
      in j\<lparr>j_cookies := m3\<rparr>)"

subsection \<open>Set-Cookie\<close>

record cookie_attributes =
  at_maxAge :: "int option"
  at_expires :: "int option"
  at_domain :: "jsstr option"
  at_path :: "jsstr option"
  at_secure :: bool
  at_httpOnly :: bool
  at_sameSite :: "jsstr option"

definition no_attributes :: cookie_attributes where
  "no_attributes = \<lparr> at_maxAge = None, at_expires = None, at_domain = None, at_path = None, at_secure = False,
     at_httpOnly = False, at_sameSite = None \<rparr>"

text \<open>\<open>/^-?\d+$/\<close> and \<open>Number\<close>, without the rounding of numbers beyond \<open>2 ^ 53\<close>.\<close>

definition signed_number :: "jsstr \<Rightarrow> int option" where
  "signed_number s =
     (let neg = starts_with s [0x2D]; d = (if neg then tl s else s)
      in if d \<noteq> [] \<and> list_all is_digit d then Some (if neg then - int (parse_base 10 d) else int (parse_base 10 d)) else None)"

definition strip_dot :: "jsstr \<Rightarrow> jsstr" where
  "strip_dot s = (if starts_with s [0x2E] then tl s else s)"

definition attribute :: "cookie_attributes \<Rightarrow> jsstr \<Rightarrow> cookie_attributes" where
  "attribute a rawAttr =
     (let aname = toLowerCase (js_trim (case index_unit 0x3D rawAttr of None \<Rightarrow> rawAttr | Some k \<Rightarrow> take k rawAttr));
          avalue = (case index_unit 0x3D rawAttr of None \<Rightarrow> [] | Some k \<Rightarrow> js_trim (drop (k + 1) rawAttr))
      in if aname = js ''expires''
         then (case parseCookieDate avalue of None \<Rightarrow> a | Some t \<Rightarrow> a\<lparr>at_expires := Some t\<rparr>)
         else if aname = js ''max-age''
         then (case signed_number avalue of None \<Rightarrow> a | Some n \<Rightarrow> a\<lparr>at_maxAge := Some n\<rparr>)
         else if aname = js ''domain''
         then (if avalue = [] then a else a\<lparr>at_domain := Some (toLowerCase (strip_dot avalue))\<rparr>)
         else if aname = js ''path'' then a\<lparr>at_path := Some avalue\<rparr>
         else if aname = js ''secure'' then a\<lparr>at_secure := True\<rparr>
         else if aname = js ''httponly'' then a\<lparr>at_httpOnly := True\<rparr>
         else if aname = js ''samesite'' then a\<lparr>at_sameSite := Some (toLowerCase avalue)\<rparr>
         else a)"

definition control_unit :: "nat \<Rightarrow> bool" where
  "control_unit u \<longleftrightarrow> u \<le> 0x1f \<or> u = 0x7f"

text \<open>Name and value of the pair; \<open>None\<close> when the pair is refused.\<close>

definition name_value :: "jsstr \<Rightarrow> (jsstr \<times> jsstr) option" where
  "name_value pair =
     (case index_unit 0x3D pair of
        None \<Rightarrow> None
      | Some eq \<Rightarrow>
          (let name = js_trim (take eq pair); v = js_trim (drop (eq + 1) pair)
           in if name = [] then None
              else if list_ex control_unit name \<or> list_ex control_unit v then None
              else if list_ex (\<lambda>u. js_space u \<or> u = 0x3B \<or> u = 0x2C) name then None
              else Some (name, if length v \<ge> 2 \<and> hd v = 0x22 \<and> last v = 0x22 then butlast (tl v) else v)))"

text \<open>\<open>/^__secure-/i\<close> and \<open>/^__host-/i\<close>.\<close>

definition ascii_lower :: "nat \<Rightarrow> nat" where
  "ascii_lower u = (if is_upper u then u + 0x20 else u)"

definition has_prefix_ci :: "jsstr \<Rightarrow> jsstr \<Rightarrow> bool" where
  "has_prefix_ci s p \<longleftrightarrow> starts_with (map ascii_lower s) p"

definition prefix_allows :: "jsstr \<Rightarrow> cookie_attributes \<Rightarrow> bool" where
  "prefix_allows name a \<longleftrightarrow>
     (if has_prefix_ci name (js ''__secure-'') then at_secure a
      else if has_prefix_ci name (js ''__host-'') then at_secure a \<and> at_domain a = None \<and> at_path a = Some [0x2F]
      else True)"

text \<open>The domain the cookie gets and whether it is for this host only; \<open>None\<close> when it is refused.\<close>

definition cookie_domain :: "jsstr \<Rightarrow> jsstr option \<Rightarrow> (jsstr \<times> bool) option" where
  "cookie_domain host domainAttr =
     (case domainAttr of
        None \<Rightarrow> Some (host, True)
      | Some d \<Rightarrow>
          if 0x2E \<notin> set d then (if d \<noteq> host then None else Some (host, True))
          else if looksLikeIp host then (if d \<noteq> host then None else Some (host, True))
          else if \<not> domainMatches host d then None
          else Some (d, False))"

definition cookie_path :: "jsstr \<Rightarrow> jsstr option \<Rightarrow> jsstr" where
  "cookie_path requestPath pathAttr =
     (case pathAttr of
        Some p \<Rightarrow> if p \<noteq> [] \<and> hd p = 0x2F then p else defaultPath requestPath
      | None \<Rightarrow> defaultPath requestPath)"

definition setOne :: "int \<Rightarrow> jsstr \<Rightarrow> bool \<Rightarrow> jsstr \<Rightarrow> jsstr \<Rightarrow> jar \<Rightarrow> bool \<times> jar" where
  "setOne now host requestSecure requestPath setCookie j =
     (let semi = index_unit 0x3B setCookie;
          pair = (case semi of None \<Rightarrow> setCookie | Some k \<Rightarrow> take k setCookie)
      in case name_value pair of
           None \<Rightarrow> (False, j)
         | Some (name, val) \<Rightarrow>
             (let a = (case semi of None \<Rightarrow> no_attributes
                       | Some k \<Rightarrow> foldl attribute no_attributes (split_unit 0x3B (drop (k + 1) setCookie)))
              in if at_secure a \<and> \<not> requestSecure then (False, j)
                 else if \<not> prefix_allows name a then (False, j)
                 else case cookie_domain host (at_domain a) of
                        None \<Rightarrow> (False, j)
                      | Some (domain, hostOnly) \<Rightarrow>
                          (let path = cookie_path requestPath (at_path a);
                               key = make_key domain path name;
                               existing = map_of (j_cookies j) key;
                               gone = (case at_maxAge a of Some n \<Rightarrow> n \<le> 0 \<or> now + n * 1000 \<le> now
                                       | None \<Rightarrow> (case at_expires a of Some t \<Rightarrow> t \<le> now | None \<Rightarrow> False));
                               expiry = (case at_maxAge a of Some n \<Rightarrow> Some (now + n * 1000) | None \<Rightarrow> at_expires a)
                           in if gone then (True, j\<lparr>j_cookies := map_delete key (j_cookies j)\<rparr>)
                              else
                                (let c = \<lparr> ck_name = name, ck_value = val, ck_domain = domain, ck_hostOnly = hostOnly,
                                           ck_path = path, ck_secure = at_secure a, ck_httpOnly = at_httpOnly a,
                                           ck_sameSite = at_sameSite a, ck_expiry = expiry,
                                           ck_creation = (case existing of Some e \<Rightarrow> ck_creation e | None \<Rightarrow> now),
                                           ck_seq = (case existing of Some e \<Rightarrow> ck_seq e | None \<Rightarrow> j_seq j) \<rparr>;
                                     j' = j\<lparr>j_cookies := map_delete key (j_cookies j) @ [(key, c)],
                                            j_seq := (case existing of Some e \<Rightarrow> j_seq j | None \<Rightarrow> j_seq j + 1)\<rparr>
                                 in (True, enforceCaps now domain j')))))"

definition is_https :: "url \<Rightarrow> bool" where
  "is_https u \<longleftrightarrow> url_protocol u = js ''https:''"

definition setFromResponse :: "int \<Rightarrow> url \<Rightarrow> jsstr list \<Rightarrow> jar \<Rightarrow> jar" where
  "setFromResponse now u values j =
     foldl (\<lambda>j v. case setOne now (toLowerCase (url_hostname u)) (is_https u) (url_pathname u) v j of
                    (stored, j') \<Rightarrow> if stored then j' else j'\<lparr>j_rejected := j_rejected j' + 1\<rparr>) j values"

subsection \<open>Cookie\<close>

definition cookie_matches :: "url \<Rightarrow> cookie \<Rightarrow> bool" where
  "cookie_matches u c \<longleftrightarrow>
     (let host = toLowerCase (url_hostname u); path = (if url_pathname u = [] then [0x2F] else url_pathname u)
      in (if ck_hostOnly c then host = ck_domain c else domainMatches host (ck_domain c))
         \<and> pathMatches path (ck_path c) \<and> (ck_secure c \<longrightarrow> is_https u))"

definition cookie_pair :: "cookie \<Rightarrow> jsstr" where
  "cookie_pair c = ck_name c @ 0x3D # ck_value c"

fun join_pairs :: "jsstr list \<Rightarrow> jsstr" where
  "join_pairs [] = []"
| "join_pairs [p] = p"
| "join_pairs (p # ps) = p @ [0x3B, 0x20] @ join_pairs ps"

definition header_order_key :: "cookie \<Rightarrow> int \<times> int \<times> nat" where
  "header_order_key c = (- int (length (ck_path c)), ck_creation c, ck_seq c)"

definition headerFor :: "int \<Rightarrow> url \<Rightarrow> jar \<Rightarrow> jsstr option \<times> jar" where
  "headerFor now u j =
     (if url_protocol u \<noteq> js ''http:'' \<and> url_protocol u \<noteq> js ''https:'' then (None, j)
      else
        (let m = filter (\<lambda>e. \<not> expired now (snd e)) (j_cookies j);
             matched = filter (cookie_matches u) (map snd m)
         in (if matched = [] then None else Some (join_pairs (map cookie_pair (sort_key header_order_key matched))),
             j\<lparr>j_cookies := m\<rparr>)))"

end
