(* ===== verification/Cookies_Correct.thy ===== *)
theory Cookies_Correct
  imports Cookies "HOL-Library.Code_Target_Nat"
begin

text \<open>
  The jar stays within its caps and stores only cookies whose names keep their promises; a cookie reaches
  exactly the requests it matches, and only hosts that share its domain with the host that set it.
\<close>

subsection \<open>Association lists with unique keys\<close>

lemma map_delete_keys [simp]: "fst ` set (map_delete k m) = fst ` set m - {k}"
  by (auto simp: map_delete_def)

lemma delete_all_filter: "delete_all cs m = filter (\<lambda>e. fst e \<notin> cookie_key ` set cs) m"
proof (induction cs arbitrary: m)
  case (Cons c cs)
  have "delete_all (c # cs) m = delete_all cs (map_delete (cookie_key c) m)" by (simp add: delete_all_def)
  also have "\<dots> = filter (\<lambda>e. fst e \<notin> cookie_key ` set (c # cs)) m"
    unfolding Cons map_delete_def filter_filter by (rule filter_cong) auto
  finally show ?case .
qed (simp add: delete_all_def)

text \<open>Every entry is stored under its own key.\<close>

definition keyed :: "(jsstr \<times> cookie) list \<Rightarrow> bool" where
  "keyed m \<longleftrightarrow> distinct (map fst m) \<and> (\<forall>e \<in> set m. fst e = cookie_key (snd e))"

lemma keyed_filter: "keyed m \<Longrightarrow> keyed (filter P m)"
  by (auto simp: keyed_def distinct_map inj_on_def)

lemma keyed_distinct_cookies:
  assumes "keyed m"
  shows "distinct (map snd m) \<and> inj_on cookie_key (set (map snd m))"
proof -
  have "map cookie_key (map snd m) = map fst m" using assms by (auto simp: keyed_def)
  then have "distinct (map cookie_key (map snd m))" using assms by (metis keyed_def)
  then show ?thesis using distinct_map by blast
qed

text \<open>Deleting the oldest leaves at most as many as the cap.\<close>

lemma oldest_length: "length (oldest cap cs) = length cs - cap"
  by (simp add: oldest_def)

lemma oldest_subset: "set (oldest cap cs) \<subseteq> set cs"
  unfolding oldest_def by (metis set_sort set_take_subset)

lemma delete_oldest_length:
  assumes "keyed m"
  shows "length (filter (P \<circ> snd) (delete_all (oldest cap (filter P (map snd m))) m)) \<le> cap"
proof -
  let ?cs = "filter P (map snd m)" and ?old = "oldest cap (filter P (map snd m))"
  have d: "distinct ?cs" using keyed_distinct_cookies [OF assms] by simp
  have inj: "inj_on cookie_key (set (map snd m))" using keyed_distinct_cookies [OF assms] by simp
  have "filter (P \<circ> snd) (delete_all ?old m) = filter (\<lambda>e. P (snd e) \<and> snd e \<notin> set ?old) m"
    unfolding delete_all_filter filter_filter
  proof (rule filter_cong)
    fix e assume e: "e \<in> set m"
    then have k: "fst e = cookie_key (snd e)" and c: "snd e \<in> set (map snd m)" using assms by (auto simp: keyed_def)
    have "set ?old \<subseteq> set (map snd m)" using oldest_subset [of cap ?cs] by auto
    then have "cookie_key (snd e) \<in> cookie_key ` set ?old \<longleftrightarrow> snd e \<in> set ?old"
      by (rule inj_on_image_mem_iff [OF inj c])
    then show "(fst e \<notin> cookie_key ` set ?old \<and> (P \<circ> snd) e) = (P (snd e) \<and> snd e \<notin> set ?old)"
      unfolding k comp_def by blast
  qed simp
  moreover have "filter (\<lambda>c. c \<notin> set X) (filter P (map snd m)) = map snd (filter (\<lambda>e. P (snd e) \<and> snd e \<notin> set X) m)" for X
    by (induction m) auto
  ultimately have "length (filter (P \<circ> snd) (delete_all ?old m)) = length (filter (\<lambda>c. c \<notin> set ?old) ?cs)"
    by (simp only: length_map)
  also have "\<dots> = card (set (filter (\<lambda>c. c \<notin> set ?old) ?cs))"
    by (rule distinct_card [symmetric]) (rule distinct_filter [OF d])
  also have "set (filter (\<lambda>c. c \<notin> set ?old) ?cs) = set ?cs - set ?old" by (simp only: set_filter) blast
  also have "card (set ?cs - set ?old) = card (set ?cs) - card (set ?old)"
    by (rule card_Diff_subset) (rule finite_set, rule oldest_subset)
  also have "card (set ?old) = length ?cs - cap"
  proof -
    have "distinct ?old" unfolding oldest_def using d by (intro distinct_take) simp
    then show ?thesis by (simp add: distinct_card oldest_length)
  qed
  also have "card (set ?cs) = length ?cs" using d distinct_card by blast
  finally have "length (filter (P \<circ> snd) (delete_all ?old m)) = length ?cs - (length ?cs - cap)" .
  then show ?thesis by linarith
qed


subsection \<open>The invariant\<close>

text \<open>What a stored cookie promises by itself.\<close>

definition cookie_ok :: "cookie \<Rightarrow> bool" where
  "cookie_ok c \<longleftrightarrow>
     ck_name c \<noteq> [] \<and> list_all (\<lambda>u. \<not> control_unit u \<and> \<not> js_space u \<and> u \<notin> {0x3B, 0x2C, 0x3D}) (ck_name c)
     \<and> list_all (\<lambda>u. \<not> control_unit u \<and> u \<noteq> 0x3B) (ck_value c)
     \<and> (has_prefix_ci (ck_name c) (js ''__secure-'') \<longrightarrow> ck_secure c)
     \<and> (has_prefix_ci (ck_name c) (js ''__host-'') \<longrightarrow> ck_secure c \<and> ck_hostOnly c \<and> ck_path c = [0x2F])
     \<and> starts_with (ck_path c) [0x2F]"

text \<open>Where a cookie may come from.\<close>

definition set_by :: "jsstr \<Rightarrow> bool \<Rightarrow> cookie \<Rightarrow> bool" where
  "set_by host secure c \<longleftrightarrow>
     (ck_secure c \<longrightarrow> secure)
     \<and> (if ck_hostOnly c then ck_domain c = host else 0x2E \<in> set (ck_domain c) \<and> domainMatches host (ck_domain c))"

definition jar_ok :: "jar \<Rightarrow> bool" where
  "jar_ok j \<longleftrightarrow>
     keyed (j_cookies j) \<and> (\<forall>e \<in> set (j_cookies j). cookie_ok (snd e))
     \<and> length (j_cookies j) \<le> j_maxCookies j
     \<and> (\<forall>d. length (filter (\<lambda>e. ck_domain (snd e) = d) (j_cookies j)) \<le> j_maxPerDomain j)"

lemma jar_ok_filter: "jar_ok j \<Longrightarrow> jar_ok (j\<lparr>j_cookies := filter P (j_cookies j)\<rparr>)"
proof -
  assume j: "jar_ok j"
  have "length (filter (\<lambda>e. ck_domain (snd e) = d) (filter P (j_cookies j))) \<le> j_maxPerDomain j" for d
  proof -
    have "length (filter (\<lambda>e. ck_domain (snd e) = d) (filter P (j_cookies j)))
      = length (filter P (filter (\<lambda>e. ck_domain (snd e) = d) (j_cookies j)))" by (simp add: conj_commute)
    also have "\<dots> \<le> length (filter (\<lambda>e. ck_domain (snd e) = d) (j_cookies j))" by (rule length_filter_le)
    finally show ?thesis using j unfolding jar_ok_def by (meson order_trans)
  qed
  moreover have "length (filter P (j_cookies j)) \<le> j_maxCookies j"
    using j le_trans [OF length_filter_le [of P "j_cookies j"]] by (simp add: jar_ok_def)
  ultimately show ?thesis using j keyed_filter by (auto simp: jar_ok_def)
qed

text \<open>Enforcing the caps restores them, when only the domain that has grown may exceed its own.\<close>

lemma enforceCaps_filter: "\<exists>P. j_cookies (enforceCaps now d j) = filter P (j_cookies j)"
  unfolding enforceCaps_def Let_def by (auto simp: delete_all_filter)

lemma enforceCaps_ok:
  assumes k: "keyed (j_cookies j)" and ok: "\<forall>e \<in> set (j_cookies j). cookie_ok (snd e)"
    and others: "\<forall>d'. d' \<noteq> d \<longrightarrow> length (filter (\<lambda>e. ck_domain (snd e) = d') (j_cookies j)) \<le> j_maxPerDomain j"
  shows "jar_ok (enforceCaps now d j)"
proof -
  define m1 where "m1 = filter (\<lambda>e. \<not> expired now (snd e)) (j_cookies j)"
  define inD where "inD = filter (\<lambda>c. ck_domain c = d) (map snd m1)"
  define m2 where "m2 = (if length inD > j_maxPerDomain j then delete_all (oldest (j_maxPerDomain j) inD) m1 else m1)"
  define m3 where "m3 = (if length m2 > j_maxCookies j then delete_all (oldest (j_maxCookies j) (map snd m2)) m2 else m2)"
  have e: "enforceCaps now d j = j\<lparr>j_cookies := m3\<rparr>"
    by (simp add: enforceCaps_def Let_def m1_def inD_def m2_def m3_def)
  have k1: "keyed m1" using k keyed_filter by (simp add: m1_def)
  have k2: "keyed m2" using k1 keyed_filter by (simp add: m2_def delete_all_filter)
  have sub2: "\<exists>P. m2 = filter P (j_cookies j)" unfolding m2_def m1_def delete_all_filter by auto
  have sub3: "\<exists>P. m3 = filter P m2" unfolding m3_def delete_all_filter by (metis filter_True)
  have "length m3 \<le> j_maxCookies j"
    using delete_oldest_length [OF k2, of "\<lambda>_. True" "j_maxCookies j"] by (simp add: m3_def comp_def)
  moreover have d2: "length (filter (\<lambda>e. ck_domain (snd e) = d) m2) \<le> j_maxPerDomain j"
  proof (cases "length inD > j_maxPerDomain j")
    case True
    then show ?thesis
      using delete_oldest_length [OF k1, of "\<lambda>c. ck_domain c = d" "j_maxPerDomain j"] by (simp add: m2_def inD_def comp_def)
  next
    case False
    then show ?thesis by (simp add: m2_def inD_def filter_map comp_def)
  qed
  have mono: "length (filter Q (filter P xs)) \<le> length (filter Q xs)" for P Q and xs :: "(jsstr \<times> cookie) list"
    by (induction xs) auto
  have "length (filter (\<lambda>e. ck_domain (snd e) = d') m3) \<le> j_maxPerDomain j" for d'
  proof (cases "d' = d")
    case True
    obtain P where "m3 = filter P m2" using sub3 by blast
    with d2 mono [of _ P m2] True show ?thesis by (meson order_trans)
  next
    case False
    obtain P P' where "m3 = filter P m2" "m2 = filter P' (j_cookies j)" using sub2 sub3 by blast
    with others False mono [of _ P m2] mono [of _ P' "j_cookies j"] show ?thesis by (meson order_trans)
  qed
  moreover have "keyed m3" using k2 sub3 keyed_filter by blast
  moreover have "\<forall>e \<in> set m3. cookie_ok (snd e)" using ok sub2 sub3 by auto
  ultimately show ?thesis by (simp add: jar_ok_def e)
qed

lemma name_value_ok:
  assumes "name_value pair = Some (name, v)" "0x3B \<notin> set pair"
  shows "name \<noteq> [] \<and> list_all (\<lambda>u. \<not> control_unit u \<and> \<not> js_space u \<and> u \<notin> {0x3B, 0x2C, 0x3D}) name
    \<and> list_all (\<lambda>u. \<not> control_unit u \<and> u \<noteq> 0x3B) v"
proof -
  from assms(1) obtain k w where k: "index_unit 0x3D pair = Some k" and name: "name = js_trim (take k pair)"
    and w: "w = js_trim (drop (k + 1) pair)" and ne: "name \<noteq> []"
    and ctl: "\<not> list_ex control_unit name" "\<not> list_ex control_unit w"
    and sp: "\<not> list_ex (\<lambda>u. js_space u \<or> u = 0x3B \<or> u = 0x2C) name"
    and v: "v = (if length w \<ge> 2 \<and> hd w = 0x22 \<and> last w = 0x22 then butlast (tl w) else w)"
    by (auto simp: name_value_def Let_def split: option.splits if_splits)
  have "0x3D \<notin> set name"
    using index_unit_Some [OF k] strip_incl [of js_space "take k pair"] by (auto simp: name js_trim_def)
  moreover have sub: "set v \<subseteq> set w"
    unfolding v by (cases w) (auto dest: in_set_butlastD)
  moreover have "set w \<subseteq> set pair"
    using strip_incl [of js_space "drop (k + 1) pair"] set_drop_subset [of "k + 1" pair] by (auto simp: w js_trim_def)
  ultimately show ?thesis using ne ctl sp assms(2) by (auto simp: list_all_iff list_ex_iff)
qed

lemma defaultPath_slash: "starts_with (defaultPath p) [0x2F]"
  by (auto simp: defaultPath_def starts_with_def take_Suc neq_Nil_conv split: option.splits)


lemma cookie_path_slash: "starts_with (cookie_path r p) [0x2F]"
proof -
  have "starts_with q [0x2F]" if "q \<noteq> []" "hd q = 0x2F" for q using that by (cases q) (auto simp: starts_with_def)
  then show ?thesis using defaultPath_slash by (auto simp: cookie_path_def split: option.splits)
qed

text \<open>One Set-Cookie value: nothing happens, a cookie is deleted, or one cookie is stored and the caps are
  enforced for its domain.\<close>

lemma setOne_cases:
  assumes "setOne now host secure path v j = (b, j')"
  obtains (same) "j' = j"
    | (deleted) key where "j' = j\<lparr>j_cookies := map_delete key (j_cookies j)\<rparr>"
    | (stored) c n where "cookie_ok c" "set_by host secure c"
        "j' = enforceCaps now (ck_domain c)
          (j\<lparr>j_cookies := map_delete (cookie_key c) (j_cookies j) @ [(cookie_key c, c)], j_seq := n\<rparr>)"
proof -
  define semi where "semi = index_unit 0x3B v"
  define pair where "pair = (case semi of None \<Rightarrow> v | Some k \<Rightarrow> take k v)"
  have pair: "0x3B \<notin> set pair"
    unfolding pair_def semi_def
    using index_unit_None [of "0x3B" v] index_unit_Some [of "0x3B" v]
    by (cases "index_unit 0x3B v") simp_all
  show thesis
  proof (cases "name_value pair")
    case None
    then show ?thesis using assms same by (simp add: setOne_def Let_def semi_def pair_def)
  next
    case (Some nv)
    obtain name val where nv: "nv = (name, val)" by (cases nv)
    note ok = name_value_ok [OF Some [unfolded nv] pair]
    define a where "a = (case semi of None \<Rightarrow> no_attributes
                       | Some k \<Rightarrow> foldl attribute no_attributes (split_unit 0x3B (drop (k + 1) v)))"
    note run = assms [unfolded setOne_def Let_def, folded semi_def, folded pair_def, unfolded Some nv option.case prod.case, folded a_def]
    consider "at_secure a \<and> \<not> secure \<or> \<not> prefix_allows name a \<or> cookie_domain host (at_domain a) = None"
      | domain ho where "at_secure a \<longrightarrow> secure" "prefix_allows name a" "cookie_domain host (at_domain a) = Some (domain, ho)"
      by (cases "cookie_domain host (at_domain a)") auto
    then show ?thesis
    proof cases
      case 1
      then have "j' = j" using run by (auto split: if_splits)
      then show ?thesis by (rule same)
    next
      case 2
      define p where "p = cookie_path path (at_path a)"
      define existing where "existing = map_of (j_cookies j) (make_key domain p name)"
      define c where "c = \<lparr> ck_name = name, ck_value = val, ck_domain = domain, ck_hostOnly = ho,
             ck_path = p, ck_secure = at_secure a, ck_httpOnly = at_httpOnly a, ck_sameSite = at_sameSite a,
             ck_expiry = (case at_maxAge a of Some n \<Rightarrow> Some (now + n * 1000) | None \<Rightarrow> at_expires a),
             ck_creation = (case existing of Some e \<Rightarrow> ck_creation e | None \<Rightarrow> now),
             ck_seq = (case existing of Some e \<Rightarrow> ck_seq e | None \<Rightarrow> j_seq j) \<rparr>"
      have key: "make_key domain p name = cookie_key c" by (simp add: cookie_key_def c_def)
      have dom: "if ho then domain = host else 0x2E \<in> set domain \<and> domainMatches host domain"
        using 2(3) by (auto simp: cookie_domain_def split: option.splits if_splits)
      have ho: "at_domain a = None \<longrightarrow> ho" using 2(3) by (auto simp: cookie_domain_def)
      have "p = [0x2F]" if "at_path a = Some [0x2F]" using that by (simp add: p_def cookie_path_def)
      moreover have disjoint: "\<not> (has_prefix_ci name (js ''__host-'') \<and> has_prefix_ci name (js ''__secure-''))"
        by (auto simp: has_prefix_ci_def starts_with_append)
      ultimately have "cookie_ok c"
        using ok 2(2) ho cookie_path_slash by (auto simp: cookie_ok_def c_def prefix_allows_def p_def split: if_splits)
      moreover have "set_by host secure c" using 2(1) dom by (auto simp: set_by_def c_def)
      moreover note run [unfolded 2(3) option.case prod.case, folded p_def, folded existing_def, folded c_def, unfolded key]
      ultimately show ?thesis
        using 2(1,2) deleted [of "cookie_key c"] stored [of c] by (auto simp: c_def split: if_splits)
    qed
  qed
qed


subsection \<open>Runs\<close>

text \<open>A jar is only ever used by storing the cookies of a response and by building a request's header.\<close>

datatype jar_event = StoreFrom int url "jsstr list" | HeaderTo int url

fun jar_step :: "jar \<Rightarrow> jar_event \<Rightarrow> jar" where
  "jar_step j (StoreFrom now u vs) = setFromResponse now u vs j"
| "jar_step j (HeaderTo now u) = snd (headerFor now u j)"

definition jar_run :: "jar \<Rightarrow> jar_event list \<Rightarrow> jar" where
  "jar_run j es = foldl jar_step j es"

text \<open>The sources of a run: the responses whose cookies were stored.\<close>

definition sources :: "jar_event list \<Rightarrow> url set" where
  "sources es = {u. \<exists>now vs. StoreFrom now u vs \<in> set es}"

definition host_of :: "url \<Rightarrow> jsstr" where
  "host_of u = toLowerCase (url_hostname u)"

definition jar_inv :: "url set \<Rightarrow> nat \<times> nat \<Rightarrow> jar \<Rightarrow> bool" where
  "jar_inv S caps j \<longleftrightarrow>
     jar_ok j \<and> (j_maxCookies j, j_maxPerDomain j) = caps
     \<and> (\<forall>e \<in> set (j_cookies j). \<exists>u \<in> S. set_by (host_of u) (is_https u) (snd e))"

lemma enforceCaps_caps [simp]:
  "j_maxCookies (enforceCaps now d j) = j_maxCookies j" "j_maxPerDomain (enforceCaps now d j) = j_maxPerDomain j"
  by (simp_all add: enforceCaps_def Let_def)

lemma jar_inv_filter: "jar_inv S caps j \<Longrightarrow> jar_inv S caps (j\<lparr>j_cookies := filter P (j_cookies j)\<rparr>)"
  using jar_ok_filter by (auto simp: jar_inv_def)

lemma jar_inv_rejected: "jar_inv S caps (j\<lparr>j_rejected := n\<rparr>) = jar_inv S caps j"
  by (simp add: jar_inv_def jar_ok_def)

lemma keyed_store: "keyed m \<Longrightarrow> keyed (map_delete (cookie_key c) m @ [(cookie_key c, c)])"
  unfolding map_delete_def using keyed_filter [of m "\<lambda>e. fst e \<noteq> cookie_key c"] by (auto simp: keyed_def)

lemma setOne_inv:
  assumes "setOne now (host_of u) (is_https u) path v j = (b, j')" "jar_inv S caps j" "u \<in> S"
  shows "jar_inv S caps j'"
  using assms(1)
proof (cases rule: setOne_cases)
  case same
  then show ?thesis using assms(2) by simp
next
  case (deleted key)
  then show ?thesis using jar_inv_filter [OF assms(2)] by (simp add: map_delete_def)
next
  case (stored c n)
  let ?m = "map_delete (cookie_key c) (j_cookies j)"
  let ?j = "j\<lparr>j_cookies := ?m @ [(cookie_key c, c)], j_seq := n\<rparr>"
  have ok: "jar_ok j" using assms(2) by (simp add: jar_inv_def)
  have deleted: "jar_ok (j\<lparr>j_cookies := ?m\<rparr>)" using jar_ok_filter [OF ok] by (simp add: map_delete_def)
  have "keyed (j_cookies ?j)" using keyed_store ok by (simp add: jar_ok_def)
  moreover have "\<forall>e \<in> set (j_cookies ?j). cookie_ok (snd e)" using deleted stored(1) by (auto simp: jar_ok_def)
  moreover have "\<forall>d. d \<noteq> ck_domain c \<longrightarrow> length (filter (\<lambda>e. ck_domain (snd e) = d) (j_cookies ?j)) \<le> j_maxPerDomain ?j"
    using deleted by (auto simp: jar_ok_def)
  ultimately have "jar_ok (enforceCaps now (ck_domain c) ?j)" by (rule enforceCaps_ok)
  moreover have "\<forall>e \<in> set (j_cookies ?j). \<exists>u \<in> S. set_by (host_of u) (is_https u) (snd e)"
    using assms(2,3) stored(2) by (auto simp: jar_inv_def map_delete_def)
  moreover obtain P where "j_cookies (enforceCaps now (ck_domain c) ?j) = filter P (j_cookies ?j)"
    using enforceCaps_filter by blast
  ultimately show ?thesis using assms(2) stored(3) by (simp add: jar_inv_def)
qed

lemma setFromResponse_inv:
  assumes "jar_inv S caps j" "u \<in> S"
  shows "jar_inv S caps (setFromResponse now u vs j)"
  using assms(1)
proof (induction vs arbitrary: j)
  case (Cons v vs)
  obtain b j' where one: "setOne now (host_of u) (is_https u) (url_pathname u) v j = (b, j')" by fastforce
  have "jar_inv S caps j'" by (rule setOne_inv [OF one Cons.prems assms(2)])
  then have "jar_inv S caps (if b then j' else j'\<lparr>j_rejected := j_rejected j' + 1\<rparr>)" by (simp add: jar_inv_rejected)
  from Cons.IH [OF this] show ?case using one by (simp add: setFromResponse_def host_of_def)
qed (simp add: setFromResponse_def)

lemma headerFor_jar: "\<exists>P. snd (headerFor now u j) = j\<lparr>j_cookies := filter P (j_cookies j)\<rparr>"
proof (cases "url_protocol u \<noteq> js ''http:'' \<and> url_protocol u \<noteq> js ''https:''")
  case True
  then have "snd (headerFor now u j) = j\<lparr>j_cookies := filter (\<lambda>_. True) (j_cookies j)\<rparr>" by (simp add: headerFor_def)
  then show ?thesis by blast
qed (auto simp: headerFor_def Let_def)

lemma jar_run_inv:
  "jar_inv S caps j \<Longrightarrow> sources es \<subseteq> S \<Longrightarrow> jar_inv S caps (jar_run j es)"
proof (induction es arbitrary: j)
  case (Cons e es)
  have rest: "sources es \<subseteq> S" using Cons.prems(2) by (auto simp: sources_def)
  have "jar_inv S caps (jar_step j e)"
  proof (cases e)
    case (StoreFrom now u vs)
    then have "u \<in> S" using Cons.prems(2) by (auto simp: sources_def)
    then show ?thesis using setFromResponse_inv [OF Cons.prems(1)] StoreFrom by simp
  next
    case (HeaderTo now u)
    obtain P where "snd (headerFor now u j) = j\<lparr>j_cookies := filter P (j_cookies j)\<rparr>" using headerFor_jar by blast
    then show ?thesis using jar_inv_filter [OF Cons.prems(1)] HeaderTo by simp
  qed
  from Cons.IH [OF this rest] show ?case by (simp add: jar_run_def)
qed (simp add: jar_run_def)

lemma jar_run_reachable: "jar_inv (sources es) (a, b) (jar_run (new_CookieJar s a b) es)"
  by (rule jar_run_inv) (simp_all add: jar_inv_def jar_ok_def new_CookieJar_def keyed_def)

subsection \<open>The header\<close>

lemma split_pairs:
  "ps \<noteq> [] \<Longrightarrow> \<forall>p \<in> set ps. 0x3B \<notin> set p \<Longrightarrow> split_at [0x3B, 0x20] (join_pairs ps) = ps"
proof (induction ps rule: join_pairs.induct)
  case (3 p q ps)
  then show ?case using split_at_front [of "0x3B" p "[0x20]" "join_pairs (q # ps)"] by simp
qed (simp_all add: split_at_plain)

lemma headerFor_Some:
  assumes "headerFor now u j = (Some h, j')" "jar_ok j"
  shows "\<exists>cs. split_at [0x3B, 0x20] h = map cookie_pair cs \<and> distinct cs
    \<and> set cs = {c \<in> snd ` set (j_cookies j). \<not> expired now c \<and> cookie_matches u c}
    \<and> sorted (map header_order_key cs)"
proof -
  define matched where "matched = filter (cookie_matches u) (map snd (filter (\<lambda>e. \<not> expired now (snd e)) (j_cookies j)))"
  define cs where "cs = sort_key header_order_key matched"
  from assms(1) have h: "h = join_pairs (map cookie_pair cs)" and ne: "matched \<noteq> []"
    by (auto simp: headerFor_def Let_def matched_def cs_def split: if_splits)
  have set_cs: "set cs = {c \<in> snd ` set (j_cookies j). \<not> expired now c \<and> cookie_matches u c}"
    by (auto simp: cs_def matched_def)
  have "distinct (map snd (filter (\<lambda>e. \<not> expired now (snd e)) (j_cookies j)))"
    using keyed_distinct_cookies [OF keyed_filter] assms(2) by (auto simp: jar_ok_def)
  then have "distinct cs" by (simp add: cs_def matched_def)
  moreover have "\<forall>p \<in> set (map cookie_pair cs). 0x3B \<notin> set p"
  proof
    fix p assume "p \<in> set (map cookie_pair cs)"
    then obtain c where "p = cookie_pair c" "cookie_ok c" using set_cs assms(2) by (auto simp: jar_ok_def)
    then show "0x3B \<notin> set p" by (auto simp: cookie_pair_def cookie_ok_def list_all_iff)
  qed
  moreover have "map cookie_pair cs \<noteq> []" using ne by (metis cs_def length_0_conv length_sort map_is_Nil_conv)
  ultimately have "split_at [0x3B, 0x20] h = map cookie_pair cs" using h split_pairs by blast
  moreover have "sorted (map header_order_key cs)" by (simp add: cs_def)
  ultimately show ?thesis using \<open>distinct cs\<close> set_cs by blast
qed

end
