(* ===== verification/Header_Order.thy ===== *)
theory Header_Order
  imports Duplex "HOL-Library.List_Lexorder" "HOL-Library.Multiset"
begin

text \<open>
  \<open>src/client/header-order.js\<close>: the ordered, case-preserving list of request headers, and the platform's
  \<open>Headers\<close> as an iterable, which sorts, lower-cases and joins.
\<close>

type_synonym header_list = "(jsstr \<times> jsstr) list"

definition same_name :: "jsstr \<Rightarrow> jsstr \<times> jsstr \<Rightarrow> bool" where
  "same_name name e \<longleftrightarrow> toLowerCase (fst e) = toLowerCase name"

definition oh_has :: "jsstr \<Rightarrow> header_list \<Rightarrow> bool" where
  "oh_has name hs \<longleftrightarrow> list_ex (same_name name) hs"

definition oh_get :: "jsstr \<Rightarrow> header_list \<Rightarrow> jsstr option" where
  "oh_get name hs = (case map snd (filter (same_name name) hs) of [] \<Rightarrow> None | vs \<Rightarrow> Some (join_comma vs))"

definition oh_append :: "jsstr \<Rightarrow> jsstr \<Rightarrow> header_list \<Rightarrow> tf_error + header_list" where
  "oh_append name v hs = (if name = [] then Inl (Thrown HttpError (Http HTTP_HEADER)) else Inr (hs @ [(name, v)]))"

text \<open>The first field of the name keeps its place and its spelling and takes the value; the others go.\<close>

fun replace_first :: "jsstr \<Rightarrow> jsstr \<Rightarrow> header_list \<Rightarrow> header_list" where
  "replace_first name v [] = []"
| "replace_first name v (e # hs) =
     (if same_name name e then (fst e, v) # filter (\<lambda>f. \<not> same_name name f) hs else e # replace_first name v hs)"

definition oh_set :: "jsstr \<Rightarrow> jsstr \<Rightarrow> header_list \<Rightarrow> tf_error + header_list" where
  "oh_set name v hs = (if oh_has name hs then Inr (replace_first name v hs) else oh_append name v hs)"

definition oh_delete :: "jsstr \<Rightarrow> header_list \<Rightarrow> header_list" where
  "oh_delete name hs = filter (\<lambda>e. \<not> same_name name e) hs"

text \<open>The position a name is given last in the order, and the place of the star or the end for the others.\<close>

definition star :: jsstr where
  "star = [0x2A]"

fun last_rank :: "nat \<Rightarrow> jsstr \<Rightarrow> jsstr list \<Rightarrow> nat option" where
  "last_rank i name [] = None"
| "last_rank i name (o1 # os) =
     (case last_rank (Suc i) name os of
        Some r \<Rightarrow> Some r
      | None \<Rightarrow> if o1 = name \<and> o1 \<noteq> star then Some i else None)"

fun first_position :: "jsstr \<Rightarrow> jsstr list \<Rightarrow> nat" where
  "first_position name [] = 0"
| "first_position name (o1 # os) = (if o1 = name then 0 else Suc (first_position name os))"

definition header_rank :: "jsstr list \<Rightarrow> jsstr \<times> jsstr \<Rightarrow> nat" where
  "header_rank order e =
     (case last_rank 0 (toLowerCase (fst e)) order of Some r \<Rightarrow> r | None \<Rightarrow> first_position star order)"

definition oh_reorder :: "jsstr list \<Rightarrow> header_list \<Rightarrow> header_list" where
  "oh_reorder order hs = sort_key (header_rank order) hs"

definition oh_lowercased :: "header_list \<Rightarrow> header_list" where
  "oh_lowercased hs = map (\<lambda>(n, v). (toLowerCase n, v)) hs"

definition CURL_HEADER_ORDER :: "jsstr list" where
  "CURL_HEADER_ORDER = [js ''host'', js ''user-agent'', js ''accept'', js ''accept-encoding'', js ''*'', js ''connection'',
     js ''content-length'', js ''content-type'']"

subsection \<open>The platform's class as an iterable\<close>

fun new_Headers :: "header_list \<Rightarrow> headers \<Rightarrow> tf_error + headers" where
  "new_Headers [] hs = Inr hs"
| "new_Headers ((n, v) # ps) hs = bindE (headers_append n v hs) (new_Headers ps)"

definition headers_delete :: "jsstr \<Rightarrow> headers \<Rightarrow> headers" where
  "headers_delete name hs = filter (\<lambda>h. fst h \<noteq> toLowerCase name) hs"

definition headers_entries :: "headers \<Rightarrow> header_list" where
  "headers_entries hs =
     concat (map (\<lambda>n. if n = js ''set-cookie'' then filter (\<lambda>h. fst h = n) hs
                     else [(n, join_comma (map snd (filter (\<lambda>h. fst h = n) hs)))])
       (sort (remdups (map fst hs))))"

subsection \<open>Lemmas\<close>

lemma first_position_le: "first_position n os \<le> length os"
  by (induction os) auto

lemma lower_idem [simp]: "toLowerCase (toLowerCase s) = toLowerCase s"
  by (auto simp: toLowerCase_def lower_unit_def is_upper_def)

lemma same_name_sym: "same_name a (b, v) \<longleftrightarrow> same_name b (a, w)"
  by (auto simp: same_name_def)

lemma oh_delete_filter: "filter (same_name n) (oh_delete m hs) = (if toLowerCase n = toLowerCase m then [] else filter (same_name n) hs)"
  unfolding oh_delete_def same_name_def by (induction hs) auto

lemma replace_first_same: "oh_has n hs \<Longrightarrow> map snd (filter (same_name n) (replace_first n v hs)) = [v]"
  by (induction hs) (auto simp: oh_has_def same_name_def filter_empty_conv)

lemma replace_first_other: "toLowerCase m \<noteq> toLowerCase n \<Longrightarrow> filter (same_name m) (replace_first n v hs) = filter (same_name m) hs"
  by (induction hs) (auto simp: same_name_def intro!: filter_cong)

text \<open>After \<open>set\<close> a name has exactly one value, and no other name has changed.\<close>

lemma oh_set_values:
  assumes "oh_set n v hs = Inr hs'"
  shows "map snd (filter (same_name m) hs') = (if toLowerCase m = toLowerCase n then [v] else map snd (filter (same_name m) hs))"
proof -
  have cong: "same_name m = same_name n" if "toLowerCase m = toLowerCase n" using that by (auto simp: same_name_def)
  show ?thesis
  proof (cases "oh_has n hs")
    case True
    then have "hs' = replace_first n v hs" using assms by (simp add: oh_set_def)
    then show ?thesis using replace_first_same [OF True, of v] replace_first_other [of m n v hs] cong by auto
  next
    case False
    then have "hs' = hs @ [(n, v)]" "filter (same_name n) hs = []"
      using assms by (auto simp: oh_set_def oh_append_def oh_has_def list_ex_iff filter_empty_conv split: if_splits)
    then show ?thesis using cong by (auto simp: same_name_def)
  qed
qed

lemma oh_reorder_perm: "mset (oh_reorder order hs) = mset hs"
  by (simp add: oh_reorder_def)

lemma oh_reorder_name:
  "filter (same_name n) (oh_reorder order hs) = filter (same_name n) hs"
proof -
  have "same_name n e \<Longrightarrow> header_rank order e = header_rank order (n, [])" for e
    by (simp add: same_name_def header_rank_def)
  then have sub: "filter (same_name n) xs
      = filter (same_name n) (filter (\<lambda>e. header_rank order e = header_rank order (n, [])) xs)" for xs
    unfolding filter_filter by (intro filter_cong) auto
  show ?thesis
    unfolding oh_reorder_def by (subst (1 2) sub) (simp only: sort_key_stable)
qed

lemma headers_entries_names: "fst ` set (headers_entries hs) = fst ` set hs"
proof -
  let ?f = "\<lambda>n. if n = js ''set-cookie'' then filter (\<lambda>h. fst h = n) hs
      else [(n, join_comma (map snd (filter (\<lambda>h. fst h = n) hs)))]"
  have "fst ` set (?f n) = {n}" if "n \<in> fst ` set hs" for n
  proof (cases "n = js ''set-cookie''")
    case True
    have "fst ` set (filter (\<lambda>h. fst h = n) hs) = {n}" using that by auto
    then show ?thesis using True by simp
  qed simp
  then have "(\<Union>n \<in> fst ` set hs. fst ` set (?f n)) = (\<Union>n \<in> fst ` set hs. {n})" by (rule SUP_cong [OF refl])
  then show ?thesis
    unfolding headers_entries_def set_concat image_UN set_map set_sort set_remdups by (simp only: UN_singleton image_image) blast
qed

end
