(* ===== verification/Redirects.thy ===== *)
theory Redirects
  imports Header_Order Proxies
begin

text \<open>
  \<open>src/client/redirect.js\<close>: the follow-up request of a redirect, and the loop of \<open>performFetch\<close> in
  \<open>src/client.js\<close> that follows them. Resolving a location against a URL and serialising a URL are the
  platform's and parameters; what a request is answered with is an arbitrary function of a state.
\<close>

record url_ops =
  uo_resolve :: "jsstr \<Rightarrow> url \<Rightarrow> url option"
  uo_href :: "url \<Rightarrow> jsstr"

subsection \<open>Locations\<close>

definition redirect_error :: "client_code \<Rightarrow> tf_error" where
  "redirect_error c = Thrown HttpError (Client c)"

definition shouldRedirect :: "nat \<Rightarrow> bool" where
  "shouldRedirect status \<longleftrightarrow> status \<in> {301, 302, 303, 307, 308}"

text \<open>Methods are tokens, so only ASCII letters matter.\<close>

definition toUpperCase :: "jsstr \<Rightarrow> jsstr" where
  "toUpperCase s = map (\<lambda>u. if is_lower u then u - 0x20 else u) s"

definition rewriteMethod :: "nat \<Rightarrow> jsstr \<Rightarrow> jsstr" where
  "rewriteMethod status method =
     (let m = toUpperCase method
      in if status = 303 then (if m = js ''HEAD'' then js ''HEAD'' else js ''GET'')
         else if (status = 301 \<or> status = 302) \<and> m = js ''POST'' then js ''GET''
         else m)"

definition effectivePort :: "url \<Rightarrow> jsstr" where
  "effectivePort u =
     (if url_port u \<noteq> [] then url_port u
      else if url_protocol u = js ''http:'' then js ''80''
      else if url_protocol u = js ''https:'' then js ''443'' else [])"

definition hex_digit :: "nat \<Rightarrow> nat" where
  "hex_digit v = (if v < 10 then 0x30 + v else 0x41 + (v - 10))"

fun encodeLocationOctets :: "jsstr \<Rightarrow> tf_error + jsstr" where
  "encodeLocationOctets [] = Inr []"
| "encodeLocationOctets (u # s) =
     bindE (if u \<le> 0x7f then Inr [u]
            else if u \<le> 0xff then Inr [0x25, hex_digit (u div 16), hex_digit (u mod 16)]
            else Inl (redirect_error REDIRECT_INVALID_LOCATION))
       (\<lambda>x. bindE (encodeLocationOctets s) (\<lambda>r. Inr (x @ r)))"

definition resolveLocation :: "url_ops \<Rightarrow> url \<Rightarrow> jsstr option \<Rightarrow> tf_error + url" where
  "resolveLocation U currentUrl location =
     (case location of
        None \<Rightarrow> Inl (redirect_error REDIRECT_INVALID_LOCATION)
      | Some loc \<Rightarrow>
          (let trimmed = js_trim loc
           in if trimmed = [] then Inl (redirect_error REDIRECT_INVALID_LOCATION)
              else bindE (encodeLocationOctets trimmed) (\<lambda>encoded.
                case uo_resolve U encoded currentUrl of
                  None \<Rightarrow> Inl (redirect_error REDIRECT_INVALID_LOCATION)
                | Some next \<Rightarrow>
                    if url_protocol next \<noteq> js ''http:'' \<and> url_protocol next \<noteq> js ''https:''
                    then Inl (redirect_error REDIRECT_SCHEME)
                    else if 0x23 \<notin> set trimmed \<and> url_hash currentUrl \<noteq> []
                    then Inr (next\<lparr>url_hash := url_hash currentUrl\<rparr>) else Inr next)))"

subsection \<open>The follow-up request\<close>

definition BODY_HEADERS :: "jsstr list" where
  "BODY_HEADERS = [js ''content-length'', js ''content-type'', js ''content-encoding'', js ''transfer-encoding'']"

definition CREDENTIAL_HEADERS :: "jsstr list" where
  "CREDENTIAL_HEADERS = [js ''authorization'', js ''cookie'', js ''proxy-authorization'']"

datatype redirect_body = NoBody | Replayable bytes | StreamBody

text \<open>The headers are what iterating the caller's list or the platform's class yields.\<close>

record redirect_request =
  rq_method :: jsstr
  rq_url :: url
  rq_headers :: header_list
  rq_body :: redirect_body

record redirect_response =
  rs_status :: nat
  rs_headers :: headers

definition DEFAULT_MAX_REDIRECTS :: nat where
  "DEFAULT_MAX_REDIRECTS = 20"

definition keyOf :: "url_ops \<Rightarrow> jsstr \<Rightarrow> url \<Rightarrow> jsstr" where
  "keyOf U m u = m @ 0x20 # uo_href U (u\<lparr>url_hash := []\<rparr>)"

definition delete_names :: "jsstr list \<Rightarrow> headers \<Rightarrow> headers" where
  "delete_names names hs = foldl (\<lambda>hs n. headers_delete n hs) hs names"

definition origin_changed :: "url \<Rightarrow> url \<Rightarrow> bool" where
  "origin_changed nextUrl currentUrl \<longleftrightarrow>
     url_protocol nextUrl \<noteq> url_protocol currentUrl \<or> url_hostname nextUrl \<noteq> url_hostname currentUrl
     \<or> effectivePort nextUrl \<noteq> effectivePort currentUrl"

text \<open>The headers of the next request: credentials, \<open>Host\<close> and the description of a dropped body go.\<close>

definition hop_headers :: "bool \<Rightarrow> bool \<Rightarrow> headers \<Rightarrow> headers" where
  "hop_headers cross methodRewritten hs =
     (let hs1 = (if cross then delete_names CREDENTIAL_HEADERS hs else hs);
          hs2 = headers_delete (js ''host'') hs1
      in if methodRewritten then delete_names BODY_HEADERS hs2 else hs2)"

text \<open>The history is the caller's array; it has grown by the current request from the loop check on.\<close>

definition nextRequest ::
  "url_ops \<Rightarrow> nat \<Rightarrow> redirect_request \<Rightarrow> redirect_response \<Rightarrow> jsstr list \<Rightarrow> (tf_error + redirect_request) \<times> jsstr list" where
  "nextRequest U maxRedirects current response history =
     (let status = rs_status response; currentUrl = rq_url current
      in if \<not> shouldRedirect status then (Inl config_invalid, history)
         else if length history \<ge> maxRedirects then (Inl (Thrown LimitError (Limit LIMIT_REDIRECTS)), history)
         else
           (case bindE (new_Headers (rq_headers current) []) (\<lambda>hs.
                   bindE (resolveLocation U currentUrl (headers_get (js ''location'') (rs_headers response))) (\<lambda>nextUrl.
                     Inr (hs, nextUrl))) of
              Inl e \<Rightarrow> (Inl e, history)
            | Inr (hs, nextUrl) \<Rightarrow>
                (let method = rewriteMethod status (rq_method current);
                     methodRewritten = (method \<noteq> toUpperCase (rq_method current));
                     history' = history @ [keyOf U (toUpperCase (rq_method current)) currentUrl]
                 in if keyOf U method nextUrl \<in> set history' then (Inl (redirect_error REDIRECT_LOOP), history')
                    else
                      (if \<not> methodRewritten \<and> (status = 307 \<or> status = 308) \<and> rq_body current = StreamBody
                          then (Inl config_invalid, history')
                          else (Inr \<lparr> rq_method = method, rq_url = nextUrl,
                                      rq_headers = headers_entries
                                        (hop_headers (origin_changed nextUrl currentUrl) methodRewritten hs),
                                      rq_body = (if methodRewritten then NoBody else rq_body current) \<rparr>, history')))))"

subsection \<open>Following redirects\<close>

datatype redirect_mode = Follow | ErrorOnRedirect | Manual

type_synonym 'c exchanger = "redirect_request \<Rightarrow> 'c \<Rightarrow> (tf_error + redirect_response) \<times> 'c"

text \<open>
  The loop of \<open>performFetch\<close>: the final response with its URL and whether it was redirected, the state, and
  the requests that were sent. The fuel bounds the hops.
\<close>

fun fetch_loop ::
  "nat \<Rightarrow> url_ops \<Rightarrow> redirect_mode \<Rightarrow> nat \<Rightarrow> 'c exchanger \<Rightarrow> redirect_request \<Rightarrow> jsstr list \<Rightarrow> 'c
     \<Rightarrow> ((tf_error + (redirect_response \<times> url \<times> bool)) \<times> 'c \<times> redirect_request list) option" where
  "fetch_loop 0 U mode maxR exch current history c = None"
| "fetch_loop (Suc fuel) U mode maxR exch current history c =
     (case exch current c of
        (Inl e, c') \<Rightarrow> Some (Inl e, c', [current])
      | (Inr response, c') \<Rightarrow>
          if mode \<noteq> Follow \<or> \<not> shouldRedirect (rs_status response)
          then Some (if mode = ErrorOnRedirect \<and> shouldRedirect (rs_status response) then Inl (redirect_error REDIRECT_SCHEME)
                     else Inr (response, rq_url current, history \<noteq> []), c', [current])
          else
            (case nextRequest U maxR current response history of
               (Inl e, _) \<Rightarrow> Some (Inl e, c', [current])
             | (Inr next, history') \<Rightarrow>
                 map_option (\<lambda>(r, c'', sent). (r, c'', current # sent))
                   (fetch_loop fuel U mode maxR exch next history' c')))"

definition performFetch ::
  "url_ops \<Rightarrow> redirect_mode \<Rightarrow> nat option \<Rightarrow> 'c exchanger \<Rightarrow> redirect_request \<Rightarrow> 'c
     \<Rightarrow> ((tf_error + (redirect_response \<times> url \<times> bool)) \<times> 'c \<times> redirect_request list) option" where
  "performFetch U mode maxRedirects exch request c =
     (let maxR = (case maxRedirects of None \<Rightarrow> DEFAULT_MAX_REDIRECTS | Some m \<Rightarrow> m)
      in fetch_loop (Suc maxR) U mode maxR exch request [] c)"

subsection \<open>What a hop does\<close>

definition same_origin :: "url \<Rightarrow> url \<Rightarrow> bool" where
  "same_origin u v \<longleftrightarrow> url_protocol u = url_protocol v \<and> url_hostname u = url_hostname v \<and> effectivePort u = effectivePort v"

lemma origin_changed_iff: "origin_changed u v \<longleftrightarrow> \<not> same_origin u v"
  by (auto simp: origin_changed_def same_origin_def)

lemma same_origin_trans: "same_origin u v \<Longrightarrow> same_origin v w \<Longrightarrow> same_origin u w"
  by (simp add: same_origin_def)

definition carries :: "jsstr \<Rightarrow> header_list \<Rightarrow> bool" where
  "carries name hs \<longleftrightarrow> list_ex (\<lambda>h. toLowerCase (fst h) = name) hs"

lemma delete_names_filter: "delete_names ns hs = filter (\<lambda>h. fst h \<notin> toLowerCase ` set ns) hs"
proof (induction ns arbitrary: hs)
  case (Cons n ns)
  have "delete_names (n # ns) hs = delete_names ns (headers_delete n hs)" by (simp add: delete_names_def)
  then show ?case unfolding Cons by (auto simp: headers_delete_def intro!: filter_cong)
qed (simp add: delete_names_def)

lemma new_Headers_lower:
  "new_Headers ps hs = Inr hs' \<Longrightarrow> fst ` set hs' = fst ` set hs \<union> toLowerCase ` fst ` set ps"
proof (induction ps hs rule: new_Headers.induct)
  case (2 n v ps hs)
  from "2.prems" obtain hs1 where 1: "headers_append n v hs = Inr hs1" "new_Headers ps hs1 = Inr hs'"
    by (auto simp: bindE_Inr_conv)
  then have "hs1 = hs @ [(toLowerCase n, strip http_space v)]" by (auto simp: headers_append_def Let_def split: if_splits)
  with "2.IH" [of hs1] 1 show ?case by auto
qed simp

lemma carries_entries: "carries h (headers_entries hs) \<longleftrightarrow> (\<exists>n \<in> fst ` set hs. toLowerCase n = h)"
proof -
  have "carries h ps \<longleftrightarrow> (\<exists>n \<in> fst ` set ps. toLowerCase n = h)" for ps
    by (auto simp: carries_def list_ex_iff)
  then show ?thesis by (simp only: headers_entries_names)
qed

lemma lower_names:
  "toLowerCase ` set CREDENTIAL_HEADERS = set CREDENTIAL_HEADERS" "toLowerCase ` set BODY_HEADERS = set BODY_HEADERS"
  "toLowerCase (js ''host'') = js ''host''"
  by (simp_all add: CREDENTIAL_HEADERS_def BODY_HEADERS_def toLowerCase_def lower_unit_def is_upper_def)

lemma hop_headers_eq:
  "hop_headers cross rewritten hs =
     filter (\<lambda>h. fst h \<noteq> js ''host'' \<and> \<not> (cross \<and> fst h \<in> set CREDENTIAL_HEADERS) \<and> \<not> (rewritten \<and> fst h \<in> set BODY_HEADERS)) hs"
  unfolding hop_headers_def Let_def delete_names_filter headers_delete_def lower_names
  by (auto intro!: filter_cong)

text \<open>The parts of an accepted hop.\<close>

lemma nextRequest_parts:
  assumes "nextRequest U m cur resp hist = (Inr n, hist')"
  obtains hs where "new_Headers (rq_headers cur) [] = Inr hs" "shouldRedirect (rs_status resp)" "length hist < m"
    "resolveLocation U (rq_url cur) (headers_get (js ''location'') (rs_headers resp)) = Inr (rq_url n)"
    "hist' = hist @ [keyOf U (toUpperCase (rq_method cur)) (rq_url cur)]"
    "keyOf U (rq_method n) (rq_url n) \<notin> set hist'" "rq_method n = rewriteMethod (rs_status resp) (rq_method cur)"
    "rq_headers n = headers_entries
       (hop_headers (origin_changed (rq_url n) (rq_url cur)) (rq_method n \<noteq> toUpperCase (rq_method cur)) hs)"
    "rq_body n = (if rq_method n \<noteq> toUpperCase (rq_method cur) then NoBody else rq_body cur)"
proof -
  have st: "shouldRedirect (rs_status resp)" and m: "\<not> length hist \<ge> m"
    using assms unfolding nextRequest_def Let_def by (auto split: if_splits)
  obtain hs nu where hs: "new_Headers (rq_headers cur) [] = Inr hs"
    and nu: "resolveLocation U (rq_url cur) (headers_get (js ''location'') (rs_headers resp)) = Inr nu"
    using assms st m unfolding nextRequest_def Let_def
    by (cases "new_Headers (rq_headers cur) []";
        cases "resolveLocation U (rq_url cur) (headers_get (js ''location'') (rs_headers resp))") auto
  note run = assms [unfolded nextRequest_def Let_def, simplified st m hs nu, simplified]
  show thesis
    by (rule that [OF hs st]) (use run m nu in \<open>auto split: if_splits\<close>)
qed


subsection \<open>Chains\<close>

definition request_key :: "url_ops \<Rightarrow> redirect_request \<Rightarrow> jsstr" where
  "request_key U r = keyOf U (toUpperCase (rq_method r)) (rq_url r)"

definition has_credentials :: "redirect_request \<Rightarrow> bool" where
  "has_credentials r \<longleftrightarrow> list_ex (\<lambda>h. carries h (rq_headers r)) CREDENTIAL_HEADERS"

lemma upper_idem [simp]: "toUpperCase (toUpperCase s) = toUpperCase s"
  by (auto simp: toUpperCase_def is_lower_def)

lemma upper_rewrite [simp]: "toUpperCase (rewriteMethod st m) = rewriteMethod st m"
  by (simp add: rewriteMethod_def Let_def) (simp add: toUpperCase_def is_lower_def)

lemma hop_carries:
  assumes "nextRequest U m cur resp hist = (Inr n, hist')" "carries h (rq_headers n)"
  shows "carries h (rq_headers cur)" "h \<noteq> js ''host''" "h \<in> set CREDENTIAL_HEADERS \<Longrightarrow> same_origin (rq_url n) (rq_url cur)"
    "rq_method n \<noteq> toUpperCase (rq_method cur) \<Longrightarrow> h \<notin> set BODY_HEADERS"
proof -
  obtain hs where hs: "new_Headers (rq_headers cur) [] = Inr hs"
    and n: "rq_headers n = headers_entries
       (hop_headers (origin_changed (rq_url n) (rq_url cur)) (rq_method n \<noteq> toUpperCase (rq_method cur)) hs)"
    using assms(1) by (rule nextRequest_parts)
  have names: "fst ` set hs = toLowerCase ` fst ` set (rq_headers cur)" using new_Headers_lower [OF hs] by simp
  from assms(2) obtain x where "x \<in> set hs" "toLowerCase (fst x) = h" "fst x \<noteq> js ''host''"
    "\<not> (origin_changed (rq_url n) (rq_url cur) \<and> fst x \<in> set CREDENTIAL_HEADERS)"
    "\<not> (rq_method n \<noteq> toUpperCase (rq_method cur) \<and> fst x \<in> set BODY_HEADERS)"
    unfolding n carries_entries hop_headers_eq by auto
  moreover from this names have "toLowerCase (fst x) = fst x" by (metis image_eqI imageE lower_idem)
  ultimately have x: "h = fst x" "x \<in> set hs" and rest: "h \<noteq> js ''host''"
    "\<not> (origin_changed (rq_url n) (rq_url cur) \<and> h \<in> set CREDENTIAL_HEADERS)"
    "\<not> (rq_method n \<noteq> toUpperCase (rq_method cur) \<and> h \<in> set BODY_HEADERS)" by auto
  from x names have "h \<in> toLowerCase ` fst ` set (rq_headers cur)" by blast
  then show "carries h (rq_headers cur)" by (auto simp: carries_def list_ex_iff)
  show "h \<noteq> js ''host''" by (rule rest(1))
  show "h \<in> set CREDENTIAL_HEADERS \<Longrightarrow> same_origin (rq_url n) (rq_url cur)" using rest(2) by (simp add: origin_changed_iff)
  show "rq_method n \<noteq> toUpperCase (rq_method cur) \<Longrightarrow> h \<notin> set BODY_HEADERS" using rest(3) by simp
qed

lemma hop_credentials:
  assumes "nextRequest U m cur resp hist = (Inr n, hist')" "has_credentials n"
  shows "has_credentials cur \<and> same_origin (rq_url n) (rq_url cur)"
  using assms(2) hop_carries [OF assms(1)] unfolding has_credentials_def list_ex_iff by blast

lemma resolveLocation_http:
  assumes "resolveLocation U cur loc = Inr n"
  shows "url_protocol n \<in> {js ''http:'', js ''https:''}"
proof -
  obtain l where l: "loc = Some l" using assms by (cases loc) (simp_all add: resolveLocation_def)
  have ne: "js_trim l \<noteq> []" using assms l by (auto simp: resolveLocation_def)
  obtain e where e: "encodeLocationOctets (js_trim l) = Inr e"
    using assms l ne by (cases "encodeLocationOctets (js_trim l)") (simp_all add: resolveLocation_def)
  obtain u where u: "uo_resolve U e cur = Some u"
    using assms l ne e by (cases "uo_resolve U e cur") (simp_all add: resolveLocation_def)
  show ?thesis using assms unfolding resolveLocation_def l
    by (auto simp add: ne e u Let_def simp del: js_simps split: if_splits)
qed

text \<open>What every request after the first is: for an HTTP URL, without a \<open>Host\<close> of an earlier hop, and with the
  original body or none.\<close>

definition follow_up :: "redirect_body \<Rightarrow> redirect_request \<Rightarrow> bool" where
  "follow_up body q \<longleftrightarrow> url_protocol (rq_url q) \<in> {js ''http:'', js ''https:''} \<and> \<not> carries (js ''host'') (rq_headers q)
     \<and> (rq_body q = NoBody \<or> rq_body q = body)"

lemma follow_up_weaken: "follow_up b q \<Longrightarrow> b = NoBody \<or> b = b' \<Longrightarrow> follow_up b' q"
  by (auto simp: follow_up_def)

text \<open>What is sent along a chain, from a request that may itself carry credentials only to \<open>home\<close>.\<close>

lemma fetch_loop_sent:
  assumes "fetch_loop fuel U mode m exch cur hist c = Some (r, c', sent)"
    and "has_credentials cur \<longrightarrow> same_origin (rq_url cur) home"
    and "length hist \<le> m" and "distinct (hist @ [request_key U cur])"
  shows "\<exists>rest. sent = cur # rest \<and> list_all (\<lambda>q. has_credentials q \<longrightarrow> same_origin (rq_url q) home) sent
    \<and> length sent + length hist \<le> m + 1 \<and> distinct (hist @ map (request_key U) sent)
    \<and> list_all (follow_up (rq_body cur)) rest"
  using assms
proof (induction fuel arbitrary: cur hist c r c' sent)
  case (Suc fuel)
  show ?case
  proof (cases "\<exists>resp c1 n hist'. exch cur c = (Inr resp, c1) \<and> nextRequest U m cur resp hist = (Inr n, hist')
      \<and> \<not> (mode \<noteq> Follow \<or> \<not> shouldRedirect (rs_status resp))")
    case False
    then have "sent = [cur]"
      using Suc.prems(1) by (auto split: prod.splits sum.splits if_splits)
    then show ?thesis using Suc.prems(2-4) by auto
  next
    case True
    then obtain resp c1 n hist' where e: "exch cur c = (Inr resp, c1)" and nr: "nextRequest U m cur resp hist = (Inr n, hist')"
      and go: "\<not> (mode \<noteq> Follow \<or> \<not> shouldRedirect (rs_status resp))" by blast
    obtain hs where p: "length hist < m" "hist' = hist @ [request_key U cur]" "keyOf U (rq_method n) (rq_url n) \<notin> set hist'"
      "rq_method n = rewriteMethod (rs_status resp) (rq_method cur)"
      "resolveLocation U (rq_url cur) (headers_get (js ''location'') (rs_headers resp)) = Inr (rq_url n)"
      "rq_body n = (if rq_method n \<noteq> toUpperCase (rq_method cur) then NoBody else rq_body cur)"
      using nr unfolding request_key_def by (rule nextRequest_parts)
    have "fetch_loop (Suc fuel) U mode m exch cur hist c
        = map_option (\<lambda>(r, c'', sent). (r, c'', cur # sent)) (fetch_loop fuel U mode m exch n hist' c1)"
      using go by (simp only: fetch_loop.simps e nr prod.case sum.case if_False)
    then obtain sent' where s: "sent = cur # sent'"
      and run: "fetch_loop fuel U mode m exch n hist' c1 = Some (r, c', sent')"
      using Suc.prems(1) by auto
    have cred: "has_credentials n \<longrightarrow> same_origin (rq_url n) home"
      using hop_credentials [OF nr] Suc.prems(2) same_origin_trans by blast
    have "request_key U n = keyOf U (rq_method n) (rq_url n)" by (simp add: request_key_def p(4))
    then have dist: "distinct (hist' @ [request_key U n])" using p(2,3) Suc.prems(4) by auto
    have "length hist' \<le> m" using p(1,2) by simp
    from Suc.IH [OF run cred this dist] obtain rest where ih: "sent' = n # rest"
      "list_all (\<lambda>q. has_credentials q \<longrightarrow> same_origin (rq_url q) home) sent'" "length sent' + length hist' \<le> m + 1"
      "distinct (hist' @ map (request_key U) sent')"
      "list_all (follow_up (rq_body n)) rest" by blast
    have "url_protocol (rq_url n) \<in> {js ''http:'', js ''https:''}" by (rule resolveLocation_http [OF p(5)])
    moreover have "\<not> carries (js ''host'') (rq_headers n)" using hop_carries(2) [OF nr] by blast
    moreover have body: "rq_body n = NoBody \<or> rq_body n = rq_body cur" using p(6) by simp
    ultimately have "follow_up (rq_body cur) n" unfolding follow_up_def by blast
    moreover have "list_all (follow_up (rq_body cur)) rest"
      using ih(5) follow_up_weaken body by (blast intro: list.pred_mono_strong)
    ultimately have "list_all (follow_up (rq_body cur)) sent'" by (simp add: ih(1))
    moreover have "list_all (\<lambda>q. has_credentials q \<longrightarrow> same_origin (rq_url q) home) sent" using s Suc.prems(2) ih(2) by simp
    moreover have "length sent + length hist \<le> m + 1" using s p(2) ih(3) by simp
    moreover have "distinct (hist @ map (request_key U) sent)" using s p(2) ih(4) by simp
    ultimately show ?thesis using s by blast
  qed
qed simp

lemma fetch_loop_returns: "m - length hist < fuel \<Longrightarrow> \<exists>x. fetch_loop fuel U mode m exch cur hist c = Some x"
proof (induction fuel arbitrary: cur hist c)
  case (Suc fuel)
  have "\<exists>x. fetch_loop fuel U mode m exch n hist' c1 = Some x"
    if nr: "nextRequest U m cur resp hist = (Inr n, hist')" for resp n hist' c1
  proof -
    obtain hs where "length hist < m" "hist' = hist @ [keyOf U (toUpperCase (rq_method cur)) (rq_url cur)]"
      using nr by (rule nextRequest_parts)
    then have "m - length hist' < fuel" using Suc.prems by simp
    then show ?thesis by (rule Suc.IH)
  qed
  then show ?case by (auto split: prod.splits sum.splits)
qed simp

end
