(* ===== verification/Client.thy ===== *)
theory Client
  imports Redirects Cookies Response
begin

text \<open>
  \<open>src/client.js\<close>, with \<open>targetFromUrl\<close> and \<open>nativeFetchCanServe\<close> of \<open>src/transport.js\<close> and
  \<open>acceptEncodingFor\<close> of \<open>src/client/decode.js\<close>: what is dialled, the headers a request is sent with over
  HTTP/1.1 and HTTP/2, whether a connection may be kept, and the re-sending of a request on a fresh
  connection.
\<close>

subsection \<open>Targets\<close>

text \<open>\<open>DEFAULT_PORT[url.protocol]\<close> is undefined for other schemes; a port of zero is falsy.\<close>

definition default_port :: "url \<Rightarrow> nat" where
  "default_port u = (if is_https u then 443 else 80)"

definition targetFromUrl :: "url \<Rightarrow> tf_error + (tunnel_target \<times> bool)" where
  "targetFromUrl u =
     (let port = (if url_port u \<noteq> [] then parse_base 10 (url_port u)
                  else if url_protocol u = js ''http:'' then 80 else if is_https u then 443 else 0)
      in if port = 0 then Inl config_invalid
         else Inr (\<lparr> tg_hostname = strip_brackets (url_hostname u), tg_port = port \<rparr>, is_https u))"

definition requestTarget :: "url \<Rightarrow> jsstr" where
  "requestTarget u = url_pathname u @ url_search u"

definition host_value :: "url \<Rightarrow> nat \<Rightarrow> jsstr" where
  "host_value u port = (if port = default_port u then url_hostname u else url_hostname u @ 0x3A # decimal port)"

subsection \<open>Delegation to the platform\<close>

datatype trust_mode = SystemTrust | OtherTrust jsstr

text \<open>A proxy, the trust mode, the revocation setting, whether TLS options were given, \<open>forceTunnel\<close>.\<close>

definition nativeFetchCanServe :: "bool \<Rightarrow> trust_mode option \<Rightarrow> jsstr option \<Rightarrow> bool \<Rightarrow> bool \<Rightarrow> bool" where
  "nativeFetchCanServe proxied mode revocation tlsOptions forceTunnel =
     (if forceTunnel then False
      else if proxied then False
      else if (case mode of None \<Rightarrow> False | Some SystemTrust \<Rightarrow> False | Some (OtherTrust _) \<Rightarrow> True) then False
      else if (case revocation of None \<Rightarrow> False | Some r \<Rightarrow> r \<noteq> js ''staple'') then False
      else \<not> tlsOptions)"

subsection \<open>Accept-Encoding\<close>

definition ACCEPT_ENCODING :: jsstr where
  "ACCEPT_ENCODING = js ''gzip, deflate''"

definition built_in :: "jsstr list" where
  "built_in = [js ''gzip'', js ''x-gzip'', js ''deflate'', js ''identity'']"

text \<open>Names with whether a function is registered for them. \<open>TOKEN\<close> has no upper-case letters.\<close>

fun extra_codings :: "(jsstr \<times> bool) list \<Rightarrow> tf_error + jsstr list" where
  "extra_codings [] = Inr []"
| "extra_codings ((name, is_fn) # ds) =
     (let coding = toLowerCase name
      in if \<not> is_token coding \<or> list_ex is_upper coding then Inl (redirect_error HTTP_CONTENT_ENCODING)
         else if coding \<in> set built_in then Inl (redirect_error HTTP_CONTENT_ENCODING)
         else if \<not> is_fn then Inl (redirect_error HTTP_CONTENT_ENCODING)
         else bindE (extra_codings ds) (\<lambda>cs. Inr (coding # cs)))"

definition acceptEncodingFor :: "(jsstr \<times> bool) list option \<Rightarrow> tf_error + jsstr" where
  "acceptEncodingFor decoders =
     (case decoders of
        None \<Rightarrow> Inr ACCEPT_ENCODING
      | Some ds \<Rightarrow> bindE (extra_codings ds) (\<lambda>cs. Inr (join_comma (ACCEPT_ENCODING # cs))))"

subsection \<open>Request headers\<close>

datatype decompress_mode = Decompress | NoDecompress | Passthrough

record client_options =
  cl_profileHeaders :: header_list
  cl_decompress :: decompress_mode
  cl_decoders :: "(jsstr \<times> bool) list option"
  cl_keepAlive :: bool
  cl_headerOrder :: "jsstr list option"

definition set_default :: "jsstr \<Rightarrow> jsstr \<Rightarrow> header_list \<Rightarrow> tf_error + header_list" where
  "set_default name v hs = (if oh_has name hs then Inr hs else oh_set name v hs)"

fun set_defaults :: "header_list \<Rightarrow> header_list \<Rightarrow> tf_error + header_list" where
  "set_defaults [] hs = Inr hs"
| "set_defaults ((n, v) # ps) hs = bindE (set_default n v hs) (set_defaults ps)"

definition set_accept_encoding :: "client_options \<Rightarrow> header_list \<Rightarrow> tf_error + header_list" where
  "set_accept_encoding opts hs =
     (if oh_has (js ''accept-encoding'') hs \<or> cl_decompress opts = NoDecompress then Inr hs
      else bindE (acceptEncodingFor (cl_decoders opts)) (\<lambda>v. oh_set (js ''accept-encoding'') v hs))"

definition add_cookie :: "jsstr option \<Rightarrow> header_list \<Rightarrow> tf_error + header_list" where
  "add_cookie cookie hs =
     (case cookie of
        None \<Rightarrow> Inr hs
      | Some c \<Rightarrow>
          if c = [] then Inr hs
          else oh_set (js ''cookie'')
                 (case oh_get (js ''cookie'') hs of
                    Some e \<Rightarrow> if e = [] then c else e @ [0x3B, 0x20] @ c
                  | None \<Rightarrow> c) hs)"

definition body_octets :: "redirect_body \<Rightarrow> bytes option" where
  "body_octets b = (case b of Replayable bs \<Rightarrow> Some bs | _ \<Rightarrow> None)"

definition frame_body :: "jsstr \<Rightarrow> redirect_body \<Rightarrow> header_list \<Rightarrow> tf_error + header_list" where
  "frame_body method b hs =
     (case body_octets b of
        Some bs \<Rightarrow> oh_set (js ''content-length'') (decimal (length bs)) hs
      | None \<Rightarrow>
          if method \<in> {js ''POST'', js ''PUT'', js ''PATCH''} then oh_set (js ''content-length'') (js ''0'') hs
          else Inr (oh_delete (js ''content-length'') hs))"

text \<open>What both protocols do first: the defaults of the profile and of the client, and the jar's cookies.\<close>

definition common_headers ::
  "client_options \<Rightarrow> int \<Rightarrow> jar option \<Rightarrow> redirect_request \<Rightarrow> tf_error + (header_list \<times> jar option)" where
  "common_headers opts now jar current =
     bindE (set_defaults (cl_profileHeaders opts) (rq_headers current)) (\<lambda>h1.
       bindE (set_default (js ''accept'') (js ''*/*'') h1) (\<lambda>h2.
         bindE (set_accept_encoding opts h2) (\<lambda>h3.
           (case jar of
              None \<Rightarrow> Inr (h3, None)
            | Some j \<Rightarrow>
                (case headerFor now (rq_url current) j of
                   (cookie, j') \<Rightarrow> bindE (add_cookie cookie h3) (\<lambda>h4. Inr (h4, Some j')))))))"

definition header_order :: "client_options \<Rightarrow> jsstr list" where
  "header_order opts = (case cl_headerOrder opts of None \<Rightarrow> CURL_HEADER_ORDER | Some ord \<Rightarrow> ord)"

definition buildHeaders ::
  "client_options \<Rightarrow> int \<Rightarrow> jar option \<Rightarrow> redirect_request \<Rightarrow> nat \<Rightarrow> tf_error + (header_list \<times> jar option)" where
  "buildHeaders opts now jar current port =
     bindE (common_headers opts now jar current) (\<lambda>(h4, jar').
       bindE (oh_set (js ''connection'') (if cl_keepAlive opts then js ''keep-alive'' else js ''close'') h4) (\<lambda>h5.
         bindE (frame_body (rq_method current) (rq_body current) (oh_delete (js ''transfer-encoding'') h5)) (\<lambda>h6.
           bindE (oh_set (js ''Host'') (host_value (rq_url current) port) h6) (\<lambda>h7.
             Inr (oh_reorder (header_order opts) h7, jar')))))"

definition connection_specific :: "jsstr list" where
  "connection_specific = [js ''connection'', js ''keep-alive'', js ''proxy-connection'', js ''transfer-encoding'', js ''upgrade'', js ''host'']"

text \<open>The \<open>:authority\<close> and the regular fields of an HTTP/2 request.\<close>

definition buildH2Request ::
  "client_options \<Rightarrow> int \<Rightarrow> jar option \<Rightarrow> redirect_request \<Rightarrow> nat \<Rightarrow> tf_error + (jsstr \<times> header_list \<times> jar option)" where
  "buildH2Request opts now jar current port =
     bindE (common_headers opts now jar current) (\<lambda>(h4, jar').
       bindE (frame_body (rq_method current) (rq_body current) (foldl (\<lambda>h n. oh_delete n h) h4 connection_specific)) (\<lambda>h5.
         Inr (host_value (rq_url current) port, oh_lowercased (oh_reorder (header_order opts) h5), jar')))"

text \<open>The octets \<open>sendAndReceive\<close> writes: the serialised head and the body.\<close>

definition request_octets ::
  "client_options \<Rightarrow> int \<Rightarrow> jar option \<Rightarrow> redirect_request \<Rightarrow> tf_error + (bytes \<times> jar option)" where
  "request_octets opts now jar current =
     bindE (targetFromUrl (rq_url current)) (\<lambda>(target, _).
       bindE (buildHeaders opts now jar current (tg_port target)) (\<lambda>(hs, jar').
         bindE (serializeRequestHead (rq_method current) (requestTarget (rq_url current)) hs (js ''1.1'')) (\<lambda>hd_bytes.
           Inr (hd_bytes @ (case body_octets (rq_body current) of None \<Rightarrow> [] | Some bs \<Rightarrow> bs), jar'))))"

subsection \<open>Keeping the connection\<close>

definition connection_tokens :: "headers \<Rightarrow> jsstr list" where
  "connection_tokens hs =
     map js_trim (split_unit 0x2C (toLowerCase (case headers_get (js ''connection'') hs of None \<Rightarrow> [] | Some c \<Rightarrow> c)))"

definition wantsKeepAlive :: "one_head \<Rightarrow> bool" where
  "wantsKeepAlive h =
     (if js ''close'' \<in> set (connection_tokens (oh_headers h)) then False
      else if oh_version h = js ''1.0'' then js ''keep-alive'' \<in> set (connection_tokens (oh_headers h))
      else True)"

subsection \<open>Re-sending\<close>

text \<open>
  The rejections of the transport are opaque here; \<open>truncated\<close> says which of them are a \<open>TLS_TRUNCATED\<close> whose
  \<open>got\<close> is zero.
\<close>

definition serverNeverSawIt :: "(nat \<Rightarrow> bool) \<Rightarrow> tf_error \<Rightarrow> bool" where
  "serverNeverSawIt truncated err =
     (case err of UnexpectedEof wanted got \<Rightarrow> got = 0 | TransportFailure n \<Rightarrow> truncated n | _ \<Rightarrow> False)"

text \<open>
  Sending the request and reading the head. A connection taken from the pool that fails in a way that proves
  the request was never seen is replaced by a fresh one, once; \<open>fresh\<close> is what opening that yields. The
  result names the connections used, as they were left.
\<close>

definition send_and_read ::
  "'s reader_ops \<Rightarrow> nat \<Rightarrow> bytes \<Rightarrow> 's duplex \<Rightarrow> ((tf_error + (one_head \<times> one_head list)) \<times> 's duplex) option" where
  "send_and_read R maxHeaderBytes request d =
     (case dx_write request d of
        (Inl e, d') \<Rightarrow> Some (Inl e, d')
      | (Inr _, d') \<Rightarrow>
          (case readResponseHead R maxHeaderBytes (dx_in d') of
             None \<Rightarrow> None
           | Some (r, s) \<Rightarrow> Some (r, d'\<lparr>dx_in := s\<rparr>)))"

definition sendAndReceive ::
  "'s reader_ops \<Rightarrow> (nat \<Rightarrow> bool) \<Rightarrow> nat \<Rightarrow> bytes \<Rightarrow> bool \<Rightarrow> 's duplex \<Rightarrow> tf_error + 's duplex
     \<Rightarrow> ((tf_error + (one_head \<times> one_head list)) \<times> 's duplex list) option" where
  "sendAndReceive R truncated maxHeaderBytes request reused conn fresh =
     (case dx_write request conn of
        (Inl e, d) \<Rightarrow> Some (Inl e, [d])
      | (Inr _, d) \<Rightarrow>
          (case readResponseHead R maxHeaderBytes (dx_in d) of
             None \<Rightarrow> None
           | Some (Inr h, s) \<Rightarrow> Some (Inr h, [d\<lparr>dx_in := s\<rparr>])
           | Some (Inl e, s) \<Rightarrow>
               if reused \<and> serverNeverSawIt truncated e then
                 (case fresh of
                    Inl e' \<Rightarrow> Some (Inl e', [d\<lparr>dx_in := s, dx_closed := True\<rparr>])
                  | Inr d2 \<Rightarrow>
                      map_option (\<lambda>(r, d3). (r, [d\<lparr>dx_in := s, dx_closed := True\<rparr>, d3]))
                        (send_and_read R maxHeaderBytes request d2))
               else Some (Inl e, [d\<lparr>dx_in := s\<rparr>])))"

end
