(* ===== verification/Client_Correct.thy ===== *)
theory Client_Correct
  imports Client Response_Correct "HOL-Library.Code_Target_Nat"
begin

text \<open>
  The headers of a request state its framing once and nothing else does; and which failures lead to a second
  sending.
\<close>

subsection \<open>Header values\<close>

definition values_of :: "jsstr \<Rightarrow> header_list \<Rightarrow> jsstr list" where
  "values_of n hs = map snd (filter (same_name n) hs)"

lemma values_of_set:
  "oh_set n v hs = Inr hs' \<Longrightarrow> values_of m hs' = (if toLowerCase m = toLowerCase n then [v] else values_of m hs)"
  unfolding values_of_def by (rule oh_set_values)

lemma values_of_delete: "values_of m (oh_delete n hs) = (if toLowerCase m = toLowerCase n then [] else values_of m hs)"
  by (simp add: values_of_def oh_delete_filter)

lemma values_of_reorder [simp]: "values_of m (oh_reorder ord hs) = values_of m hs"
  by (simp add: values_of_def oh_reorder_name)

lemma values_of_default:
  "set_default n v hs = Inr hs' \<Longrightarrow> toLowerCase m \<noteq> toLowerCase n \<Longrightarrow> values_of m hs' = values_of m hs"
  by (auto simp: set_default_def values_of_set split: if_splits)

lemma values_of_defaults:
  "set_defaults ps hs = Inr hs' \<Longrightarrow> toLowerCase m \<notin> toLowerCase ` fst ` set ps \<Longrightarrow> values_of m hs' = values_of m hs"
proof (induction ps hs rule: set_defaults.induct)
  case (2 n v ps hs)
  from "2.prems"(1) obtain h1 where 1: "set_default n v hs = Inr h1" "set_defaults ps h1 = Inr hs'"
    by (auto simp: bindE_Inr_conv)
  from "2.IH" [OF 1] "2.prems"(2) values_of_default [OF 1(1), of m] show ?case by auto
qed simp

text \<open>The framing fields, decided by the body and the method alone.\<close>

definition framing_values :: "jsstr \<Rightarrow> redirect_body \<Rightarrow> jsstr list" where
  "framing_values method b =
     (case body_octets b of
        Some bs \<Rightarrow> [decimal (length bs)]
      | None \<Rightarrow> if method \<in> {js ''POST'', js ''PUT'', js ''PATCH''} then [js ''0''] else [])"

lemma values_of_frame:
  "frame_body method b hs = Inr hs' \<Longrightarrow>
   values_of m hs' = (if toLowerCase m = toLowerCase (js ''content-length'') then framing_values method b else values_of m hs)"
  by (auto simp: frame_body_def framing_values_def values_of_set values_of_delete simp del: js_simps split: option.splits if_splits)

definition touched_names :: "client_options \<Rightarrow> jsstr set" where
  "touched_names opts = toLowerCase ` fst ` set (cl_profileHeaders opts)
     \<union> toLowerCase ` {js ''accept'', js ''accept-encoding'', js ''cookie''}"

lemma values_of_add_cookie:
  assumes "add_cookie c hs = Inr hs'" "toLowerCase m \<noteq> toLowerCase (js ''cookie'')"
  shows "values_of m hs' = values_of m hs"
proof (cases "c = None \<or> c = Some []")
  case True
  then show ?thesis using assms(1) by (auto simp: add_cookie_def)
next
  case False
  then obtain v where "oh_set (js ''cookie'') v hs = Inr hs'"
    using assms(1) unfolding add_cookie_def by (cases c) (simp_all del: js_simps)
  from values_of_set [OF this, of m] assms(2) show ?thesis by simp
qed

lemma common_headers_values:
  assumes "common_headers opts now jar cur = Inr (hs, jar')" "toLowerCase m \<notin> touched_names opts"
  shows "values_of m hs = values_of m (rq_headers cur)"
proof -
  from assms(1) obtain h1 h2 h3 where h: "set_defaults (cl_profileHeaders opts) (rq_headers cur) = Inr h1"
    "set_default (js ''accept'') (js ''*/*'') h1 = Inr h2" "set_accept_encoding opts h2 = Inr h3"
    and jar: "(case jar of None \<Rightarrow> Inr (h3, None)
            | Some j \<Rightarrow> (case headerFor now (rq_url cur) j of
                (cookie, j') \<Rightarrow> bindE (add_cookie cookie h3) (\<lambda>h4. Inr (h4, Some j')))) = Inr (hs, jar')"
    unfolding common_headers_def bindE_Inr_conv by blast
  have h4: "hs = h3 \<or> (\<exists>c. add_cookie c h3 = Inr hs)"
  proof (cases jar)
    case (Some j)
    then show ?thesis using jar by (cases "headerFor now (rq_url cur) j") (auto simp: bindE_Inr_conv)
  qed (use jar in simp)
  have m: "toLowerCase m \<notin> toLowerCase ` fst ` set (cl_profileHeaders opts)" "toLowerCase m \<noteq> toLowerCase (js ''accept'')"
    "toLowerCase m \<noteq> toLowerCase (js ''accept-encoding'')" "toLowerCase m \<noteq> toLowerCase (js ''cookie'')"
    using assms(2) unfolding touched_names_def by blast+
  have "values_of m h3 = values_of m h2"
    using h(3) m(3) unfolding set_accept_encoding_def
    by (auto simp: bindE_Inr_conv values_of_set simp del: js_simps split: if_splits)
  moreover have "values_of m hs = values_of m h3" using h4 values_of_add_cookie m(4) by blast
  ultimately show ?thesis using values_of_defaults [OF h(1) m(1)] values_of_default [OF h(2) m(2)] by simp
qed

lemma buildHeaders_values:
  assumes "buildHeaders opts now jar cur port = Inr (hs, jar')"
  shows "values_of (js ''host'') hs = [host_value (rq_url cur) port]"
    "values_of (js ''content-length'') hs = framing_values (rq_method cur) (rq_body cur)"
    "values_of (js ''transfer-encoding'') hs = []"
    "values_of (js ''connection'') hs = [if cl_keepAlive opts then js ''keep-alive'' else js ''close'']"
    "toLowerCase m \<notin> touched_names opts \<Longrightarrow>
       toLowerCase m \<notin> {js ''host'', js ''content-length'', js ''transfer-encoding'', js ''connection''} \<Longrightarrow>
       values_of m hs = values_of m (rq_headers cur)"
proof -
  from assms obtain h4 h5 h6 h7 where h4: "common_headers opts now jar cur = Inr (h4, jar')"
    and h5: "oh_set (js ''connection'') (if cl_keepAlive opts then js ''keep-alive'' else js ''close'') h4 = Inr h5"
    and h6: "frame_body (rq_method cur) (rq_body cur) (oh_delete (js ''transfer-encoding'') h5) = Inr h6"
    and h7: "oh_set (js ''Host'') (host_value (rq_url cur) port) h6 = Inr h7"
    and hs: "hs = oh_reorder (header_order opts) h7"
    unfolding buildHeaders_def by (auto simp: bindE_Inr_conv simp del: js_simps)
  have low: "toLowerCase (js ''Host'') = js ''host''" "toLowerCase (js ''host'') = js ''host''"
    "toLowerCase (js ''content-length'') = js ''content-length''" "toLowerCase (js ''connection'') = js ''connection''"
    "toLowerCase (js ''transfer-encoding'') = js ''transfer-encoding''"
    by (simp_all add: toLowerCase_def lower_unit_def is_upper_def)
  note v = values_of_set [OF h7] values_of_frame [OF h6] values_of_delete values_of_set [OF h5]
  show "values_of (js ''host'') hs = [host_value (rq_url cur) port]" unfolding hs values_of_reorder v low by simp
  show "values_of (js ''content-length'') hs = framing_values (rq_method cur) (rq_body cur)"
    unfolding hs values_of_reorder v low by simp
  show "values_of (js ''transfer-encoding'') hs = []" unfolding hs values_of_reorder v low by simp
  show "values_of (js ''connection'') hs = [if cl_keepAlive opts then js ''keep-alive'' else js ''close'']"
    unfolding hs values_of_reorder v low by simp
  show "values_of m hs = values_of m (rq_headers cur)"
    if "toLowerCase m \<notin> touched_names opts"
      "toLowerCase m \<notin> {js ''host'', js ''content-length'', js ''transfer-encoding'', js ''connection''}"
    using common_headers_values [OF h4 that(1)] that(2) unfolding hs values_of_reorder v low by (simp del: js_simps)
qed

text \<open>Over HTTP/2 no connection-specific field is left, and every name is in lower case.\<close>

lemma values_of_lowercased: "values_of m (oh_lowercased hs) = values_of m hs"
  unfolding values_of_def oh_lowercased_def same_name_def by (induction hs) auto

lemma values_of_deletes: "values_of m (foldl (\<lambda>h n. oh_delete n h) hs ns)
    = (if toLowerCase m \<in> toLowerCase ` set ns then [] else values_of m hs)"
  by (induction ns arbitrary: hs) (auto simp: values_of_delete)

lemma buildH2Request_values:
  assumes "buildH2Request opts now jar cur port = Inr (auth, hs, jar')"
  shows "auth = host_value (rq_url cur) port" "n \<in> set connection_specific \<Longrightarrow> values_of n hs = []"
    "values_of (js ''content-length'') hs = framing_values (rq_method cur) (rq_body cur)"
    "list_all (\<lambda>h. toLowerCase (fst h) = fst h) hs"
proof -
  from assms obtain h4 h5 where h5: "frame_body (rq_method cur) (rq_body cur) (foldl (\<lambda>h n. oh_delete n h) h4 connection_specific) = Inr h5"
    and auth: "auth = host_value (rq_url cur) port" and hs: "hs = oh_lowercased (oh_reorder (header_order opts) h5)"
    unfolding buildH2Request_def by (auto simp: bindE_Inr_conv)
  show "auth = host_value (rq_url cur) port" by (rule auth)
  note v = values_of_frame [OF h5] values_of_deletes
  have ne: "toLowerCase n \<noteq> toLowerCase (js ''content-length'')" if "n \<in> set connection_specific" for n
    using that by (auto simp: connection_specific_def toLowerCase_def lower_unit_def is_upper_def)
  show "values_of n hs = []" if "n \<in> set connection_specific"
    using that ne [OF that] unfolding hs values_of_lowercased values_of_reorder v by auto
  show "values_of (js ''content-length'') hs = framing_values (rq_method cur) (rq_body cur)"
    unfolding hs values_of_lowercased values_of_reorder v by simp
  show "list_all (\<lambda>h. toLowerCase (fst h) = fst h) hs" by (auto simp: hs oh_lowercased_def list_all_iff)
qed


subsection \<open>Re-sending\<close>

text \<open>Once a complete status line has been read, the end of the stream is reported as an end with nothing got:
  the error that \<open>serverNeverSawIt\<close> takes for a server that never answered.\<close>

lemma empty_line_read: "0 < left \<Longrightarrow> readHeadLine wire_ops left c ([], CleanEnd) = (Inl (UnexpectedEof (-1) 0), ([], CleanEnd))"
  by (simp add: readHeadLine_def bindA_def wire_until_def LF_def indexOf_def index_scan.simps end_error_def)

lemma head_after_status_line:
  assumes "check_status_line l = Inr x" "list_all (\<lambda>u. u < 256) l" "0x0A \<notin> set l" "length l + 2 < m"
  shows "readResponseHead wire_ops m (latin1Bytes (l @ [0x0D, 0x0A]), CleanEnd)
    = Some (Inl (UnexpectedEof (-1) 0), ([], CleanEnd))"
proof -
  obtain v st reason where x: "x = (v, st, reason)" by (cases x)
  define k where "k = m - (length l + 2)"
  have line: "readHeadLine wire_ops m HTTP_STATUS_LINE (latin1Bytes (l @ [0x0D, 0x0A]), CleanEnd) = (Inr (l, k), ([], CleanEnd))"
    using readHeadLine_reads [OF assms(2,3), of m HTTP_STATUS_LINE "[]" CleanEnd] assms(4) by (simp add: k_def)
  have left: "0 < k" using assms(4) by (simp add: k_def)
  have "readOneHead wire_ops m (latin1Bytes (l @ [0x0D, 0x0A]), CleanEnd) = Some (Inl (UnexpectedEof (-1) 0), ([], CleanEnd))"
    unfolding readOneHead_def line using assms(1) by (simp add: x empty_line_read [OF left])
  then show ?thesis by (simp add: readResponseHead_def)
qed

end
