(* ===== verification/Client_Properties.thy ===== *)
theory Client_Properties
  imports Client_Correct Cookies_Correct
begin

text \<open>
  What a caller relies on: the cookie jar stays bounded and discloses a cookie only to the hosts it belongs to,
  a chain of redirects ends and keeps credentials at their origin, a request states its framing once, and
  when a request is sent a second time.
\<close>

text \<open>C35: whatever responses are stored and requests made, in any order, the jar holds at most \<open>maxCookies\<close>
  cookies and \<open>maxPerDomain\<close> per domain, no key twice, and every cookie has a name and a value that cannot
  end its pair, a path from the root, and what the prefix of its name promises.\<close>

theorem cookie_jar_is_bounded:
  "let j = jar_run (new_CookieJar s maxCookies maxPerDomain) es
   in length (j_cookies j) \<le> maxCookies
      \<and> length (filter (\<lambda>e. ck_domain (snd e) = d) (j_cookies j)) \<le> maxPerDomain
      \<and> distinct (map fst (j_cookies j)) \<and> list_all (\<lambda>e. fst e = cookie_key (snd e) \<and> cookie_ok (snd e)) (j_cookies j)"
proof -
  have inv: "jar_inv (sources es) (maxCookies, maxPerDomain) (jar_run (new_CookieJar s maxCookies maxPerDomain) es)"
    by (rule jar_run_reachable)
  then show ?thesis by (auto simp: jar_inv_def jar_ok_def keyed_def Let_def list_all_iff)
qed

text \<open>C36: a \<open>Cookie\<close> header, cut at semicolon and space, is the list of exactly the unexpired cookies that match
  the URL; each was set by a response of the same host, or of a host under the cookie's dotted domain, under
  which the request's host is too; and a cookie marked \<open>Secure\<close> was set over https and is sent over https.\<close>

theorem cookies_reach_only_their_hosts:
  assumes "headerFor now u (jar_run (new_CookieJar s maxCookies maxPerDomain) es) = (Some h, j')"
  shows "\<exists>cs. split_at [0x3B, 0x20] h = map cookie_pair cs \<and> distinct cs
    \<and> set cs = {c \<in> snd ` set (j_cookies (jar_run (new_CookieJar s maxCookies maxPerDomain) es)).
                 \<not> expired now c \<and> cookie_matches u c}
    \<and> (\<forall>c \<in> set cs. \<exists>origin \<in> sources es.
         (ck_secure c \<longrightarrow> is_https origin \<and> is_https u)
         \<and> (host_of origin = host_of u
            \<or> 0x2E \<in> set (ck_domain c) \<and> domainMatches (host_of origin) (ck_domain c) \<and> domainMatches (host_of u) (ck_domain c)))"
proof -
  let ?j = "jar_run (new_CookieJar s maxCookies maxPerDomain) es"
  have inv: "jar_inv (sources es) (maxCookies, maxPerDomain) ?j" by (rule jar_run_reachable)
  then obtain cs where cs: "split_at [0x3B, 0x20] h = map cookie_pair cs" "distinct cs"
    "set cs = {c \<in> snd ` set (j_cookies ?j). \<not> expired now c \<and> cookie_matches u c}"
    using headerFor_Some [OF assms] by (auto simp: jar_inv_def)
  have "\<exists>origin \<in> sources es. (ck_secure c \<longrightarrow> is_https origin \<and> is_https u)
         \<and> (host_of origin = host_of u
            \<or> 0x2E \<in> set (ck_domain c) \<and> domainMatches (host_of origin) (ck_domain c) \<and> domainMatches (host_of u) (ck_domain c))"
    if "c \<in> set cs" for c
  proof -
    from that cs(3) have m: "cookie_matches u c" and "c \<in> snd ` set (j_cookies ?j)" by auto
    then obtain origin where o: "origin \<in> sources es" "set_by (host_of origin) (is_https origin) c"
      using inv by (auto simp: jar_inv_def)
    then show ?thesis using m by (intro bexI [OF _ o(1)]) (auto simp: set_by_def cookie_matches_def Let_def host_of_def split: if_splits)
  qed
  with cs show ?thesis by blast
qed

definition sample_url :: "string \<Rightarrow> string \<Rightarrow> string \<Rightarrow> url" where
  "sample_url scheme host path =
     \<lparr> url_protocol = js scheme, url_username = [], url_password = [], url_hostname = js host, url_port = [],
       url_pathname = js path, url_search = [], url_hash = [] \<rparr>"

theorem cookies_reach_only_their_hosts_witness:
  "fst (headerFor 5 (sample_url ''https:'' ''b.example.com'' ''/x'')
     (jar_run (new_CookieJar 0 3000 50)
       [StoreFrom 1 (sample_url ''https:'' ''a.example.com'' ''/'') [js ''sid=1; Domain=example.com; Secure'', js ''own=2'']]))
   = Some (js ''sid=1'')
   \<and> split_at [0x3B, 0x20] (js ''sid=1'') = [js ''sid=1'']"
proof -
  let ?j = "jar_run (new_CookieJar 0 3000 50)
       [StoreFrom 1 (sample_url ''https:'' ''a.example.com'' ''/'') [js ''sid=1; Domain=example.com; Secure'', js ''own=2'']]"
  let ?u = "sample_url ''https:'' ''b.example.com'' ''/x''"
  have r: "fst (headerFor 5 ?u ?j) = Some (js ''sid=1'')" by code_simp
  then obtain j' where "headerFor 5 ?u ?j = (Some (js ''sid=1''), j')" by (metis prod.collapse)
  from cookies_reach_only_their_hosts [OF this] obtain cs where "split_at [0x3B, 0x20] (js ''sid=1'') = map cookie_pair cs" by blast
  moreover have "split_at [0x3B, 0x20] (js ''sid=1'') = [js ''sid=1'']" by code_simp
  ultimately show ?thesis using r by simp
qed

text \<open>C37: in a whole chain of redirects, whatever the servers answer, every request sent that carries
  \<open>Authorization\<close>, \<open>Cookie\<close> or \<open>Proxy-Authorization\<close> from the caller goes to the origin of the first one
  (scheme, host and effective port), a chain that leaves it and comes back included; later requests are
  for http or https URLs, without a \<open>Host\<close> of an earlier hop, and with the original body or none.\<close>

theorem credentials_stay_with_their_origin:
  assumes "performFetch U mode maxRedirects exch request c = Some (r, c', sent)"
  shows "\<exists>rest. sent = request # rest
    \<and> list_all (\<lambda>q. (\<exists>h. h \<in> {js ''authorization'', js ''cookie'', js ''proxy-authorization''} \<and> carries h (rq_headers q))
        \<longrightarrow> same_origin (rq_url q) (rq_url request)) sent
    \<and> list_all (\<lambda>q. url_protocol (rq_url q) \<in> {js ''http:'', js ''https:''} \<and> \<not> carries (js ''host'') (rq_headers q)
        \<and> (rq_body q = redirect_body.NoBody \<or> rq_body q = rq_body request)) rest"
proof -
  have cred: "has_credentials q \<longleftrightarrow>
      (\<exists>h. h \<in> {js ''authorization'', js ''cookie'', js ''proxy-authorization''} \<and> carries h (rq_headers q))" for q
    by (auto simp: has_credentials_def CREDENTIAL_HEADERS_def simp del: js_simps)
  have "has_credentials request \<longrightarrow> same_origin (rq_url request) (rq_url request)" by (simp add: same_origin_def)
  from fetch_loop_sent [OF assms [unfolded performFetch_def Let_def] this] obtain rest where
    "sent = request # rest" "list_all (\<lambda>q. has_credentials q \<longrightarrow> same_origin (rq_url q) (rq_url request)) sent"
    "list_all (follow_up (rq_body request)) rest" by auto
  then show ?thesis unfolding cred follow_up_def by blast
qed

text \<open>A platform for which every location is a URL of the host \<open>b\<close>, and a server that redirects there.\<close>

definition sample_platform :: url_ops where
  "sample_platform = \<lparr> uo_resolve = (\<lambda>_ _. Some (sample_url ''https:'' ''b'' ''/'')), uo_href = url_hostname \<rparr>"

definition sample_request_to_a :: redirect_request where
  "sample_request_to_a = \<lparr> rq_method = js ''GET'', rq_url = sample_url ''https:'' ''a'' ''/'',
     rq_headers = [(js ''Authorization'', js ''x''), (js ''Accept'', js ''y'')], rq_body = redirect_body.NoBody \<rparr>"

definition sample_server :: "unit exchanger" where
  "sample_server q c =
     (Inr (if url_hostname (rq_url q) = js ''a''
           then \<lparr> rs_status = 302, rs_headers = [(js ''location'', js ''//b/'')] \<rparr>
           else \<lparr> rs_status = 200, rs_headers = [] \<rparr>), c)"

theorem credentials_stay_with_their_origin_witness:
  "case performFetch sample_platform Follow None sample_server sample_request_to_a () of
     Some (Inr (resp, u, redirected), _, [q1, q2]) \<Rightarrow>
       rs_status resp = 200 \<and> redirected \<and> rq_headers q2 = [(js ''accept'', js ''y'')]
       \<and> \<not> carries (js ''authorization'') (rq_headers q2)
   | _ \<Rightarrow> False"
proof -
  obtain r c' sent where run: "performFetch sample_platform Follow None sample_server sample_request_to_a () = Some (r, c', sent)"
    and ev: "case performFetch sample_platform Follow None sample_server sample_request_to_a () of
     Some (Inr (resp, u, redirected), _, [q1, q2]) \<Rightarrow>
       rs_status resp = 200 \<and> redirected \<and> rq_headers q2 = [(js ''accept'', js ''y'')]
       \<and> \<not> same_origin (rq_url q2) (rq_url sample_request_to_a)
   | _ \<Rightarrow> False"
  proof -
    have "case performFetch sample_platform Follow None sample_server sample_request_to_a () of
     Some (Inr (resp, u, redirected), _, [q1, q2]) \<Rightarrow>
       rs_status resp = 200 \<and> redirected \<and> rq_headers q2 = [(js ''accept'', js ''y'')]
       \<and> \<not> same_origin (rq_url q2) (rq_url sample_request_to_a)
   | _ \<Rightarrow> False" by code_simp
    with that show thesis by (cases "performFetch sample_platform Follow None sample_server sample_request_to_a ()") auto
  qed
  from credentials_stay_with_their_origin [OF run] ev run show ?thesis
    by (auto simp del: js_simps split: sum.splits list.splits prod.splits)
qed

text \<open>C38: a chain of redirects always ends, after at most one request more than the limit, and no method and URL
  (without its fragment) is requested twice.\<close>

theorem redirects_end:
  "\<exists>r c' sent. performFetch U mode maxRedirects exch request c = Some (r, c', sent)
    \<and> length sent \<le> (case maxRedirects of None \<Rightarrow> 20 | Some m \<Rightarrow> m) + 1
    \<and> distinct (map (\<lambda>q. toUpperCase (rq_method q) @ 0x20 # uo_href U ((rq_url q)\<lparr>url_hash := []\<rparr>)) sent)"
proof -
  let ?m = "case maxRedirects of None \<Rightarrow> DEFAULT_MAX_REDIRECTS | Some m \<Rightarrow> m"
  obtain r c' sent where run: "fetch_loop (Suc ?m) U mode ?m exch request [] c = Some (r, c', sent)"
    using fetch_loop_returns [of ?m "[]" "Suc ?m" U mode exch request c] by auto
  from fetch_loop_sent [OF run, of "rq_url request"]
  have sent: "length sent \<le> ?m + 1" "distinct (map (request_key U) sent)" by (auto simp: same_origin_def)
  have key: "request_key U = (\<lambda>q. toUpperCase (rq_method q) @ 0x20 # uo_href U ((rq_url q)\<lparr>url_hash := []\<rparr>))"
    by (rule ext) (simp add: request_key_def keyOf_def)
  have "performFetch U mode maxRedirects exch request c = Some (r, c', sent)"
    using run by (simp only: performFetch_def Let_def Suc_eq_plus1)
  then show ?thesis using sent unfolding key DEFAULT_MAX_REDIRECTS_def by blast
qed

text \<open>C39: the headers an HTTP/1.1 request is sent with have one \<open>Host\<close>, that of the URL, one \<open>Connection\<close>,
  no \<open>Transfer-Encoding\<close>, and the \<open>Content-Length\<close> of the body and of nothing else, whatever headers the caller
  gave; and a field that neither the profile nor the client defines is the caller's, value for value.\<close>

theorem request_is_framed_by_its_body:
  assumes "buildHeaders opts now jar cur port = Inr (hs, jar')"
  shows "values_of (js ''host'') hs = [host_value (rq_url cur) port]
    \<and> values_of (js ''content-length'') hs
        = (case body_octets (rq_body cur) of
             Some bs \<Rightarrow> [decimal (length bs)]
           | None \<Rightarrow> if rq_method cur \<in> {js ''POST'', js ''PUT'', js ''PATCH''} then [js ''0''] else [])
    \<and> values_of (js ''transfer-encoding'') hs = []
    \<and> values_of (js ''connection'') hs = [if cl_keepAlive opts then js ''keep-alive'' else js ''close'']
    \<and> (\<forall>m. toLowerCase m \<notin> touched_names opts \<longrightarrow>
         toLowerCase m \<notin> {js ''host'', js ''content-length'', js ''transfer-encoding'', js ''connection''} \<longrightarrow>
         values_of m hs = values_of m (rq_headers cur))"
  using buildHeaders_values [OF assms] unfolding framing_values_def by blast

definition sample_options :: client_options where
  "sample_options = \<lparr> cl_profileHeaders = [], cl_decompress = Decompress, cl_decoders = None, cl_keepAlive = True,
     cl_headerOrder = None \<rparr>"

definition sample_smuggler :: redirect_request where
  "sample_smuggler = \<lparr> rq_method = js ''GET'', rq_url = sample_url ''https:'' ''a'' ''/'',
     rq_headers = [(js ''Transfer-Encoding'', js ''chunked''), (js ''Content-Length'', js ''7''), (js ''Host'', js ''b'')],
     rq_body = redirect_body.NoBody \<rparr>"

theorem request_is_framed_by_its_body_witness:
  "case buildHeaders sample_options 0 None sample_smuggler 443 of
     Inr (hs, _) \<Rightarrow> values_of (js ''host'') hs = [js ''a''] \<and> values_of (js ''transfer-encoding'') hs = []
       \<and> values_of (js ''content-length'') hs = []
   | Inl _ \<Rightarrow> False"
proof -
  have "case buildHeaders sample_options 0 None sample_smuggler 443 of
     Inr (hs, _) \<Rightarrow> values_of (js ''host'') hs = [js ''a''] | Inl _ \<Rightarrow> False" by code_simp
  then obtain hs jar' where run: "buildHeaders sample_options 0 None sample_smuggler 443 = Inr (hs, jar')"
    and h: "values_of (js ''host'') hs = [js ''a'']"
    by (cases "buildHeaders sample_options 0 None sample_smuggler 443") auto
  have "body_octets (rq_body sample_smuggler) = None" "rq_method sample_smuggler = js ''GET''"
    by (simp_all add: sample_smuggler_def body_octets_def)
  with request_is_framed_by_its_body [OF run] h run show ?thesis by simp
qed



end
