(* ===== verification/Key_Schedule.thy ===== *)
theory Key_Schedule
  imports Utf8
begin

text \<open>
  \<open>src/tls/keyschedule.js\<close>: HKDF and the key schedule of TLS 1.3, the PRF of TLS 1.2 and its key block. The
  platform's HMAC and digest are parameters. The hash names are the two of the type \<open>ScheduleHash\<close>, so that
  the refusal of any other name has no counterpart.
\<close>

datatype schedule_hash = SHA256 | SHA384

definition hashLength :: "schedule_hash \<Rightarrow> nat" where
  "hashLength h = (case h of SHA256 \<Rightarrow> 32 | SHA384 \<Rightarrow> 48)"

text \<open>\<open>crypto.subtle.sign('HMAC', \<dots>)\<close> under a raw key, and \<open>crypto.subtle.digest\<close>.\<close>

record web_crypto =
  wc_sign :: "schedule_hash \<Rightarrow> bytes \<Rightarrow> bytes \<Rightarrow> bytes"
  wc_digest :: "schedule_hash \<Rightarrow> bytes \<Rightarrow> bytes"

definition config_error :: tf_error where
  "config_error = Thrown TlsError (Config CONFIG_INVALID)"

definition zeros :: "nat \<Rightarrow> bytes" where
  "zeros n = replicate n 0"

text \<open>The raw key that is imported: the platform refuses an empty one.\<close>

definition importHmacKey :: "schedule_hash \<Rightarrow> bytes \<Rightarrow> bytes" where
  "importHmacKey h keyBytes = (if keyBytes = [] then zeros (hashLength h) else keyBytes)"

definition hmac :: "web_crypto \<Rightarrow> schedule_hash \<Rightarrow> bytes \<Rightarrow> bytes \<Rightarrow> bytes" where
  "hmac W h keyBytes msg = wc_sign W h (importHmacKey h keyBytes) msg"

definition hkdfExtract :: "web_crypto \<Rightarrow> schedule_hash \<Rightarrow> bytes \<Rightarrow> bytes \<Rightarrow> bytes" where
  "hkdfExtract W h salt ikm = hmac W h salt ikm"

subsection \<open>HKDF-Expand\<close>

text \<open>\<open>out.set(xs, o)\<close> within the array.\<close>

definition put_at :: "nat \<Rightarrow> bytes \<Rightarrow> bytes \<Rightarrow> bytes" where
  "put_at o' xs out = take o' out @ xs @ drop (o' + length xs) out"

text \<open>\<open>left\<close> rounds are to come, the next one is round \<open>i\<close> and writes at \<open>o'\<close>.\<close>

fun expand_rounds :: "(bytes \<Rightarrow> bytes) \<Rightarrow> nat \<Rightarrow> bytes \<Rightarrow> nat \<Rightarrow> nat \<Rightarrow> nat \<Rightarrow> nat \<Rightarrow> bytes \<Rightarrow> bytes \<Rightarrow> bytes" where
  "expand_rounds sign len info sz 0 i o' t out = out"
| "expand_rounds sign len info sz (Suc left) i o' t out =
     (let t' = sign (concat_bytes [t, info, u8 i])
      in expand_rounds sign len info sz left (i + 1) (o' + len) t' (put_at o' (take (min len (sz - o')) t') out))"

definition ceil_div :: "nat \<Rightarrow> nat \<Rightarrow> nat" where
  "ceil_div a b = (a + b - 1) div b"

definition hkdfExpand :: "web_crypto \<Rightarrow> schedule_hash \<Rightarrow> bytes \<Rightarrow> bytes \<Rightarrow> nat \<Rightarrow> tf_error + bytes" where
  "hkdfExpand W h prk info sz =
     (let len = hashLength h; n = ceil_div sz len
      in if sz < 1 \<or> n > 255 then Inl config_error
         else Inr (expand_rounds (wc_sign W h (importHmacKey h prk)) len info sz n 1 0 [] (zeros sz)))"

definition hkdfLabel :: "jsstr \<Rightarrow> bytes \<Rightarrow> nat \<Rightarrow> tf_error + bytes" where
  "hkdfLabel label ctx n =
     (let full = utf8 (js ''tls13 '' @ label)
      in if length full < 7 \<or> length full > 255 then Inl config_error
         else if length ctx > 255 then Inl config_error
         else if n < 1 \<or> n > 0xffff then Inl config_error
         else Inr (concat_bytes [u16 n, u8 (length full), full, u8 (length ctx), ctx]))"

definition hkdfExpandLabel :: "web_crypto \<Rightarrow> schedule_hash \<Rightarrow> bytes \<Rightarrow> jsstr \<Rightarrow> bytes \<Rightarrow> nat \<Rightarrow> tf_error + bytes" where
  "hkdfExpandLabel W h secret label ctx n = bindE (hkdfLabel label ctx n) (\<lambda>l. hkdfExpand W h secret l n)"

definition deriveSecret :: "web_crypto \<Rightarrow> schedule_hash \<Rightarrow> bytes \<Rightarrow> jsstr \<Rightarrow> bytes \<Rightarrow> tf_error + bytes" where
  "deriveSecret W h secret label transcriptHash = hkdfExpandLabel W h secret label transcriptHash (hashLength h)"

text \<open>The cache of \<open>emptyHash\<close> holds what the digest returns.\<close>

definition emptyHash :: "web_crypto \<Rightarrow> schedule_hash \<Rightarrow> bytes" where
  "emptyHash W h = wc_digest W h []"

subsection \<open>TLS 1.3\<close>

definition earlySecret :: "web_crypto \<Rightarrow> schedule_hash \<Rightarrow> bytes option \<Rightarrow> bytes" where
  "earlySecret W h psk = hkdfExtract W h [] (case psk of None \<Rightarrow> zeros (hashLength h) | Some p \<Rightarrow> p)"

definition deriveHandshakeSecret :: "web_crypto \<Rightarrow> schedule_hash \<Rightarrow> bytes \<Rightarrow> bytes \<Rightarrow> tf_error + bytes" where
  "deriveHandshakeSecret W h early ecdheShared =
     bindE (deriveSecret W h early (js ''derived'') (emptyHash W h)) (\<lambda>derived. Inr (hkdfExtract W h derived ecdheShared))"

definition deriveMasterSecret :: "web_crypto \<Rightarrow> schedule_hash \<Rightarrow> bytes \<Rightarrow> tf_error + bytes" where
  "deriveMasterSecret W h handshakeSecret =
     bindE (deriveSecret W h handshakeSecret (js ''derived'') (emptyHash W h)) (\<lambda>derived.
       Inr (hkdfExtract W h derived (zeros (hashLength h))))"

definition handshakeTrafficSecrets ::
  "web_crypto \<Rightarrow> schedule_hash \<Rightarrow> bytes \<Rightarrow> bytes \<Rightarrow> tf_error + (bytes \<times> bytes)" where
  "handshakeTrafficSecrets W h handshakeSecret transcriptHash =
     bindE (deriveSecret W h handshakeSecret (js ''c hs traffic'') transcriptHash) (\<lambda>client.
       bindE (deriveSecret W h handshakeSecret (js ''s hs traffic'') transcriptHash) (\<lambda>server.
         Inr (client, server)))"

definition applicationTrafficSecrets ::
  "web_crypto \<Rightarrow> schedule_hash \<Rightarrow> bytes \<Rightarrow> bytes \<Rightarrow> bool \<Rightarrow> tf_error + (bytes \<times> bytes \<times> bytes option)" where
  "applicationTrafficSecrets W h masterSecret transcriptHash exporter =
     bindE (deriveSecret W h masterSecret (js ''c ap traffic'') transcriptHash) (\<lambda>client.
       bindE (deriveSecret W h masterSecret (js ''s ap traffic'') transcriptHash) (\<lambda>server.
         if exporter then
           bindE (deriveSecret W h masterSecret (js ''exp master'') transcriptHash) (\<lambda>e. Inr (client, server, Some e))
         else Inr (client, server, None)))"

definition resumptionMasterSecret :: "web_crypto \<Rightarrow> schedule_hash \<Rightarrow> bytes \<Rightarrow> bytes \<Rightarrow> tf_error + bytes" where
  "resumptionMasterSecret W h masterSecret transcriptHash = deriveSecret W h masterSecret (js ''res master'') transcriptHash"

definition resumptionPsk :: "web_crypto \<Rightarrow> schedule_hash \<Rightarrow> bytes \<Rightarrow> bytes \<Rightarrow> tf_error + bytes" where
  "resumptionPsk W h resumptionMaster ticketNonce =
     hkdfExpandLabel W h resumptionMaster (js ''resumption'') ticketNonce (hashLength h)"

definition resumptionBinderKey :: "web_crypto \<Rightarrow> schedule_hash \<Rightarrow> bytes \<Rightarrow> tf_error + bytes" where
  "resumptionBinderKey W h early = deriveSecret W h early (js ''res binder'') (emptyHash W h)"

definition finishedKey :: "web_crypto \<Rightarrow> schedule_hash \<Rightarrow> bytes \<Rightarrow> tf_error + bytes" where
  "finishedKey W h trafficSecret = hkdfExpandLabel W h trafficSecret (js ''finished'') [] (hashLength h)"

definition finishedVerifyData :: "web_crypto \<Rightarrow> schedule_hash \<Rightarrow> bytes \<Rightarrow> bytes \<Rightarrow> tf_error + bytes" where
  "finishedVerifyData W h trafficSecret transcriptHash =
     bindE (finishedKey W h trafficSecret) (\<lambda>k. Inr (hmac W h k transcriptHash))"

definition trafficKeys :: "web_crypto \<Rightarrow> schedule_hash \<Rightarrow> bytes \<Rightarrow> nat \<Rightarrow> nat \<Rightarrow> tf_error + (bytes \<times> bytes)" where
  "trafficKeys W h trafficSecret keyLen ivLen =
     bindE (hkdfExpandLabel W h trafficSecret (js ''key'') [] keyLen) (\<lambda>key.
       bindE (hkdfExpandLabel W h trafficSecret (js ''iv'') [] ivLen) (\<lambda>iv. Inr (key, iv)))"

definition nextTrafficSecret :: "web_crypto \<Rightarrow> schedule_hash \<Rightarrow> bytes \<Rightarrow> tf_error + bytes" where
  "nextTrafficSecret W h trafficSecret = hkdfExpandLabel W h trafficSecret (js ''traffic upd'') [] (hashLength h)"

subsection \<open>TLS 1.2\<close>

function prf_rounds :: "(bytes \<Rightarrow> bytes) \<Rightarrow> schedule_hash \<Rightarrow> bytes \<Rightarrow> nat \<Rightarrow> nat \<Rightarrow> bytes \<Rightarrow> bytes \<Rightarrow> bytes" where
  "prf_rounds mac h labelSeed sz o' a out =
     (if o' < sz then
        (let a' = mac a; t = mac (concat_bytes [a', labelSeed])
         in prf_rounds mac h labelSeed sz (o' + hashLength h) a' (put_at o' (take (min (length t) (sz - o')) t) out))
      else out)"
  by pat_completeness auto
termination
  by (relation "measure (\<lambda>(mac, h, ls, sz, o', a, out). sz - o')") (auto simp: hashLength_def split: schedule_hash.splits)

declare prf_rounds.simps [simp del]

definition prf12 :: "web_crypto \<Rightarrow> schedule_hash \<Rightarrow> bytes \<Rightarrow> jsstr \<Rightarrow> bytes \<Rightarrow> nat \<Rightarrow> tf_error + bytes" where
  "prf12 W h secret label seed sz =
     (if sz < 1 then Inl config_error
      else (let labelSeed = concat_bytes [utf8 label, seed]
            in Inr (prf_rounds (wc_sign W h (importHmacKey h secret)) h labelSeed sz 0 labelSeed (zeros sz))))"

definition masterSecret12 :: "web_crypto \<Rightarrow> schedule_hash \<Rightarrow> bytes \<Rightarrow> bytes \<Rightarrow> bytes \<Rightarrow> tf_error + bytes" where
  "masterSecret12 W h preMaster clientRandom serverRandom =
     prf12 W h preMaster (js ''master secret'') (concat_bytes [clientRandom, serverRandom]) 48"

definition extendedMasterSecret12 :: "web_crypto \<Rightarrow> schedule_hash \<Rightarrow> bytes \<Rightarrow> bytes \<Rightarrow> tf_error + bytes" where
  "extendedMasterSecret12 W h preMaster sessionHash = prf12 W h preMaster (js ''extended master secret'') sessionHash 48"

record key_block =
  kb_clientKey :: bytes
  kb_serverKey :: bytes
  kb_clientIv :: bytes
  kb_serverIv :: bytes
  kb_macKeys :: "(bytes \<times> bytes) option"

definition keyBlock12 ::
  "web_crypto \<Rightarrow> schedule_hash \<Rightarrow> bytes \<Rightarrow> bytes \<Rightarrow> bytes \<Rightarrow> nat \<Rightarrow> nat \<Rightarrow> nat \<Rightarrow> tf_error + key_block" where
  "keyBlock12 W h master clientRandom serverRandom keyLen fixedIvLen macLen =
     bindE (prf12 W h master (js ''key expansion'') (concat_bytes [serverRandom, clientRandom])
              (2 * macLen + 2 * keyLen + 2 * fixedIvLen)) (\<lambda>b0.
       let clientMac = take macLen b0; b1 = drop macLen b0;
           serverMac = take macLen b1; b2 = drop macLen b1;
           clientKey = take keyLen b2; b3 = drop keyLen b2;
           serverKey = take keyLen b3; b4 = drop keyLen b3;
           clientIv = take fixedIvLen b4; b5 = drop fixedIvLen b4;
           serverIv = take fixedIvLen b5
       in Inr \<lparr> kb_clientKey = clientKey, kb_serverKey = serverKey, kb_clientIv = clientIv, kb_serverIv = serverIv,
                kb_macKeys = (if macLen > 0 then Some (clientMac, serverMac) else None) \<rparr>)"

definition verifyData12 :: "web_crypto \<Rightarrow> schedule_hash \<Rightarrow> bytes \<Rightarrow> jsstr \<Rightarrow> bytes \<Rightarrow> tf_error + bytes" where
  "verifyData12 W h master label transcriptHash =
     (if label \<noteq> js ''client finished'' \<and> label \<noteq> js ''server finished'' then Inl config_error
      else prf12 W h master label transcriptHash 12)"

end
