(* ===== verification/Spec2Isabelle.thy ===== *)
theory Spec2Isabelle
  imports Errors Bytes Readers ByteReader Wire Frames Huffman Huffman_Correct Utf8 Hpack Hpack_Correct
    Hpack_Roundtrip Text Streams Chunked Chunked_Correct Response Response_Correct
    Http2_Messages Http2_State Http2_Connection Http2_Invariant Http2_Preservation Http2_Handlers Http2_Traffic
    Http2_Bodies Http2_Sending Http2_Loop Http2_Properties
    Der Der_Correct Der_Values Strings Names Trust_Properties
    Duplex Socks5 Socks5_Correct Http_Connect Connect_Correct Proxies Proxy_Properties
    Cookies Cookies_Correct Header_Order Redirects Client Client_Correct Client_Properties Key_Schedule
begin

text \<open>
  This development models the program's own logic: a \<open>fetch\<close> over raw sockets, with its own HTTP/1.1, HTTP/2, proxy
  handshakes, certificate encodings, cookies and redirects (files under \<open>src/src/\<close>, named here from there).

  The parts and how they meet. \<open>client.js\<close> runs the redirect loop; for each hop it builds the headers, dials the
  target (directly or through \<open>proxy/\<close>), and exchanges the request over HTTP/1.1 (\<open>http1/\<close>) or HTTP/2
  (\<open>http2/\<close>). Everything that arrives is read by one buffered reader (\<open>util/bytes.js\<close>), which outlives
  the handshake of a proxy and every response of a kept connection, so that each parser has to stop exactly
  where its message ends. The certificates of a TLS peer are DER (\<open>trust/der.js\<close>), matched against the host
  by \<open>trust/name.js\<close>.

  The theories:
  \<^item> \<open>Prelude\<close>, \<open>Errors\<close> (\<open>errors.js\<close>), \<open>Bytes\<close> (pure helpers of \<open>util/bytes.js\<close>), \<open>Text\<close> and \<open>Strings\<close>
    (what the code uses of JavaScript strings, as lists of code units), \<open>Utf8\<close>, \<open>Streams\<close> (the promises and queues
    of a body stream).
  \<^item> \<open>Readers\<close> states what a parser needs of a reader, the flat string of octets that serves as its
    specification (\<open>wire_ops\<close>), simulation between the two, and the locale \<open>byte_source\<close>; \<open>ByteReader\<close> models
    the class with its buffer, compaction and incremental scan, and interprets the locale.
  \<^item> \<open>Wire\<close> (\<open>tls/wire.js\<close>); \<open>Frames\<close>, \<open>Huffman\<close>, \<open>Hpack\<close> and their \<open>_Correct\<close> and \<open>_Roundtrip\<close> theories
    (\<open>http2/frames.js\<close>, \<open>huffman.js\<close>, \<open>hpack.js\<close>).
  \<^item> \<open>Chunked\<close>, \<open>Response\<close> and their \<open>_Correct\<close> theories (\<open>http1/\<close>): chunked coding, heads, framing, bodies, the
    serialiser of requests.
  \<^item> \<open>Http2_Messages\<close>, \<open>Http2_State\<close>, \<open>Http2_Connection\<close> model \<open>http2/connection.js\<close>: the checks of heads, the
    state of the connection and its streams, every handler; \<open>Http2_Invariant\<close> to \<open>Http2_Loop\<close> prove the invariant
    and follow traffic, bodies and sending; \<open>Http2_Properties\<close> collects the properties.
  \<^item> \<open>Der\<close>, \<open>Der_Correct\<close>, \<open>Der_Values\<close>, \<open>Names\<close>, \<open>Trust_Properties\<close>: \<open>trust/der.js\<close> and \<open>trust/name.js\<close>.
  \<^item> \<open>Key_Schedule\<close>: \<open>tls/keyschedule.js\<close>, over the platform's HMAC and digest.
  \<^item> \<open>Duplex\<close> (a socket: a reader, the octets written, what became of it), \<open>Socks5\<close>, \<open>Http_Connect\<close>, \<open>Proxies\<close>
    and their theories: \<open>proxy/\<close>.
  \<^item> \<open>Cookies\<close>, \<open>Header_Order\<close>, \<open>Redirects\<close>, \<open>Client\<close> and their theories: \<open>client/\<close>, \<open>client.js\<close> and parts of
    \<open>transport.js\<close>.

  Conventions. A class is a record and its methods are functions on it, with the names of the code. A thrown
  error is \<open>Inl\<close> of class and code; messages and details are left out. An operation that awaits the reader is an
  action: a function from the state to a result and a new state. Numbers of JavaScript are \<open>nat\<close> or \<open>int\<close> where
  they stay below \<open>2 ^ 53\<close>, with rounding written out where they may not (object identifiers); octets and
  the 32-bit values of frames are words.

  Loops. A loop over the octets of a reader takes fuel and returns \<open>None\<close> when it runs out. On \<open>wire_ops\<close> the
  fuel is one more than the octets to come (every turn of a loop takes at least one octet, and a frame has at
  least nine), and it is proved to be enough: the loops return on every input. The redirect loop has the limit
  plus one as fuel, and \<open>redirects_end\<close> shows that it returns.

  What the lemmas show. For the readers and parsers: refinement of a flat specification, so that the fragmentation
  of the stream is invisible; round trips with the serialisers; acceptance exactly of what is well-formed; bounds.
  For HTTP/2: an invariant of the whole connection kept by every operation of the code in any order, the accounting
  of both flow-control windows, that nobody is left waiting, and that a body that ends cleanly has the length
  declared. For the proxies: what is written, what decides the outcome, and that the tunnel begins right behind the
  handshake. For the client: the bounds of the cookie jar, which hosts a cookie or a credential reaches, termination
  of redirects, the framing of requests.

  Not modelled: the TLS handshake and its messages, the record layer and the verification of certificate chains, which rest on WebCrypto
  and the platform's clock; timers and abort signals; the platform's streams, URL parser, \<open>Headers\<close>, \<open>Request\<close>
  and \<open>Response\<close> objects beyond what the modelled code uses of them; the decompressors; tables of data; messages of
  errors; and vendored code.
\<close>

section \<open>The buffered reader\<close>

text \<open>C1: every read of the buffered reader, from any well-formed state of its buffer, returns what
  the same read returns on the flat string of octets still to come, and leaves what that read
  leaves: the fragmentation of the stream, the compaction of the buffer and the incremental scan of
  \<open>readUntil\<close> are invisible.\<close>

theorem reader_refines_flat_input:
  "simulates reader_ok view (readExactly n) (wire_exactly n)
   \<and> simulates reader_ok view (readUntil d m) (wire_until d m)"
  using exactly_simulates until_simulates by blast

text \<open>\<open>readToEnd\<close> returns on every stream: all octets, or the limit error as soon as more than
  the limit arrives, or the stream's own failure.\<close>

lemma read_to_end_returns:
  "\<exists>r. readToEnd m (new_ByteReader cs e) = Some (to_end_result m (concat cs, e) [] 0, r)"
  using readToEnd_total [OF reader_ok_new, of m cs e] by (simp add: view_new)

text \<open>A frame is read the same however the stream is cut into chunks.\<close>

lemma frame_reading_ignores_chunks:
  "fst (readFrame byte_reader_ops m (new_ByteReader cs e)) = fst (readFrame wire_ops m (concat cs, e))"
  using br.sim_readFrame [of m] reader_ok_new [of cs e] unfolding simulates_def by (metis view_new)

text \<open>C2: a serialised frame is read back: type and flags modulo 256, the stream id without its
  reserved bit, the payload unchanged, the octets after it untouched; and a payload over the limit is
  refused with the error for frame sizes before any of it is consumed.\<close>

theorem frame_round_trip:
  assumes "length p < 16777216"
  shows "readFrame wire_ops m (serializeFrame t f s p @ rest, e) =
    (if length p \<le> m
     then (Inr (Some \<lparr> ftype = t mod 256, fflags = f mod 256, fstream = s mod 2147483648, fpayload = p \<rparr>), (rest, e))
     else (Inl (frame_error HTTP2_FRAME_SIZE), (p @ rest, e)))"
  using readFrame_serialized [OF _ assms, of m t f s rest e] readFrame_oversized [OF _ assms, of m t f s rest e]
  by simp

theorem frame_round_trip_witness:
  "readFrame wire_ops 16384 (serializeFrame 0 1 5 [0x68, 0x69] @ [0xff], CleanEnd) =
    (Inr (Some \<lparr> ftype = 0, fflags = 1, fstream = 5, fpayload = [0x68, 0x69] \<rparr>), ([0xff], CleanEnd))"
  using frame_round_trip [of "[0x68, 0x69]" 16384 0 1 5 "[0xff]" CleanEnd] by simp

section \<open>HPACK\<close>

text \<open>C3: the Huffman decoder accepts exactly the strings the encoder writes, decodes each to the
  octets it encodes, and refuses every other string with the compression error.\<close>

theorem huffman_decoder_accepts_encodings:
  "(huffmanDecode b = Inr s \<longleftrightarrow> b = huffmanEncode s)
   \<and> huffmanDecode b \<in> insert (Inl compression_error) (range Inr)"
  using huffman_round_trip huffman_canonical huffmanDecode_error
  by (cases "huffmanDecode b") (auto simp: compression_error_def)

text \<open>C4: a header block that the encoder wrote decodes, in every decoder state, to its fields in
  order, and the dynamic table receives exactly the fields written with incremental indexing.\<close>

theorem header_block_round_trip:
  assumes "list_all field_ok fs" "table_ok d" "list_size (map field_header fs) \<le> hp_maxHeaderListSize d"
  shows "hpack_decode (encodeHeaderBlock fs) d = (Inr (map field_header fs), fold field_table fs d)"
  using hpack_round_trip [OF assms(1) _ assms(3)] assms(2) by (simp add: table_ok_def)

theorem header_block_round_trip_witness:
  "hpack_decode (encodeHeaderBlock
      [\<lparr> hf_name = js '':method'', hf_value = js ''GET'', hf_indexing = None \<rparr>,
       \<lparr> hf_name = js ''x-token'', hf_value = js ''abc'', hf_indexing = Some Never \<rparr>])
     (new_HpackDecoder 4096 262144)
   = (Inr [(js '':method'', js ''GET''), (js ''x-token'', js ''abc'')], new_HpackDecoder 4096 262144)"
proof -
  let ?f = "\<lparr> hf_name = js '':method'', hf_value = js ''GET'', hf_indexing = None \<rparr>"
  let ?g = "\<lparr> hf_name = js ''x-token'', hf_value = js ''abc'', hf_indexing = Some Never \<rparr>"
  let ?d = "new_HpackDecoder 4096 262144"
  have fits: "list_all field_ok [?f, ?g]"
    by (simp add: field_ok_def clean_ascii utf8_def utf8_char_def)
  have "list_size (map field_header [?f, ?g]) \<le> hp_maxHeaderListSize ?d"
    by (simp add: list_size_def field_header_def new_HpackDecoder_def)
  note run = header_block_round_trip [OF fits table_ok_new this]
  have "staticLookup (js '':method'') (js ''GET'') = FullMatch 2"
    by (simp add: staticLookup_def STATIC_TABLE_def)
  then have "fold field_table [?f, ?g] ?d = ?d"
    by (simp add: field_table_def field_indexed_def)
  with run show ?thesis by (simp add: field_header_def)
qed

text \<open>C5: whatever block a peer sends, the dynamic table stays within the size the peer set, which
  stays within the size advertised, its recorded size is the sum of its entries, the decoded list
  stays within its cap, and the only failures are the compression error and the list limit.\<close>

theorem hpack_decoder_is_bounded:
  assumes "table_ok d"
  shows "case hpack_decode block d of (r, d') \<Rightarrow>
    table_ok d' \<and> table_size (hp_dynamic d') \<le> hp_limit d'
    \<and> (case r of Inr hs \<Rightarrow> list_size hs \<le> hp_maxHeaderListSize d
       | Inl e \<Rightarrow> e = compression_error \<or> e = Thrown LimitError (Http2 HTTP2_HEADER))"
proof -
  obtain r d' where rd: "hpack_decode block d = (r, d')" by (cases "hpack_decode block d")
  note ok = hpack_decode_ok [OF assms rd]
  then have "table_size (hp_dynamic d') \<le> hp_limit d'" by (auto simp: table_ok_def sized_def)
  with ok rd show ?thesis by auto
qed

theorem hpack_decoder_is_bounded_witness:
  "table_ok (snd (hpack_decode [0x82] (new_HpackDecoder 4096 262144)))"
  using hpack_decoder_is_bounded [OF table_ok_new, of 4096 262144 "[0x82]"]
  by (simp add: case_prod_beta)

section \<open>HTTP/1.1 bodies\<close>

lemmas text_eval = is_digit_def is_upper_def is_lower_def is_hex_def tchar_def is_token_def field_char_def
  is_field_value_def is_ows_def js_space_def strip_def strip_ows_def js_trim_def lower_unit_def toLowerCase_def
  hex_value_def parse_base_def max_safe_integer_def

lemmas framing_eval = bodyFraming_def headers_get_def te_framing_def listElements_def cl_framing_def text_eval

text \<open>C6: draining the stream of the chunked decoder over any fragmentation of the input ends, with the
  payload, the outcome and the octets left that the recursive reference decoder computes from the
  whole input; the promise of the trailers is settled with the same outcome.\<close>

theorem chunked_stream_is_reference_decoder:
  "\<exists>p r c rd. drain (Suc (length (concat cs))) (chunk_pull byte_reader_ops opts)
        (decodeChunked, new_ByteReader cs e) [] = Some (p, (case r of Inl x \<Rightarrow> Some x | Inr _ \<Rightarrow> None), (c, rd))
     \<and> chunked_ref opts 0 [] (concat cs, e) = (p, r, view rd)
     \<and> cd_trailers c = (case r of Inl x \<Rightarrow> Rejected x | Inr hs \<Rightarrow> Resolved (Some hs))"
  using br.decodeChunked_drain [OF reader_ok_new, of cs e opts] unfolding view_new fst_conv by blast

text \<open>C7: a chunked body decodes, however the stream is cut, to the concatenation of its chunks, and
  the octets after its last CRLF stay in the reader.\<close>

theorem chunked_body_decodes:
  assumes "list_all (chunk_ok opts) hps" "within_limit opts (length (concat (map snd hps)))"
    "2 \<le> co_maxTrailerBytes opts" "concat cs = chunk_body hps @ t"
  shows "\<exists>c rd. drain (Suc (length (concat cs))) (chunk_pull byte_reader_ops opts)
            (decodeChunked, new_ByteReader cs e) [] = Some (concat (map snd hps), None, (c, rd))
         \<and> cd_trailers c = Resolved (Some []) \<and> view rd = (t, e)"
proof -
  have "chunked_ref opts 0 [] (concat cs, e) = (concat (map snd hps), Inr [], (t, e))"
    using chunked_ref_body [OF assms(1) _ assms(3), of 0 "[]" t e] assms(2,4) by simp
  with br.decodeChunked_drain [OF reader_ok_new, of cs e opts] show ?thesis
    unfolding view_new fst_conv by auto
qed

theorem chunked_body_decodes_witness:
  "\<exists>c rd. drain (Suc 14) (chunk_pull byte_reader_ops default_chunked_options)
      (decodeChunked, new_ByteReader [[0x32, 0x0D], [0x0A, 0x68, 0x69, 0x0D, 0x0A, 0x30], [0x0D, 0x0A, 0x0D, 0x0A, 0x48, 0x54]] CleanEnd) []
      = Some ([0x68, 0x69], None, (c, rd))
    \<and> cd_trailers c = Resolved (Some []) \<and> view rd = ([0x48, 0x54], CleanEnd)"
proof -
  let ?cs = "[[0x32, 0x0D], [0x0A, 0x68, 0x69, 0x0D, 0x0A, 0x30], [0x0D, 0x0A, 0x0D, 0x0A, 0x48, 0x54 :: byte]]"
  have "list_all (chunk_ok default_chunked_options) [([0x32], [0x68, 0x69])]"
    "within_limit default_chunked_options (length (concat (map snd [([0x32 :: byte], [0x68, 0x69 :: byte])])))"
    "2 \<le> co_maxTrailerBytes default_chunked_options" "concat ?cs = chunk_body [([0x32], [0x68, 0x69])] @ [0x48, 0x54]"
    by (simp_all add: default_chunked_options_def chunk_ok_def within_limit_def hex_digits_def chunk_body_def
        chunk_bytes_def latin1_def text_eval)
  from chunked_body_decodes [OF this, of CleanEnd] show ?thesis by (simp add: numeral_eq_Suc del: drain.simps)
qed

text \<open>C8: the chunked decoder never delivers more than the limit on the body, whatever the peer
  sends.\<close>

theorem chunked_payload_is_bounded:
  "case drain (Suc (length (concat cs))) (chunk_pull byte_reader_ops opts) (decodeChunked, new_ByteReader cs e) [] of
     None \<Rightarrow> False
   | Some (p, err, st) \<Rightarrow> within_limit opts (length p)"
proof -
  obtain p r c rd where run: "drain (Suc (length (concat cs))) (chunk_pull byte_reader_ops opts)
        (decodeChunked, new_ByteReader cs e) [] = Some (p, (case r of Inl x \<Rightarrow> Some x | Inr _ \<Rightarrow> None), (c, rd))"
    and ref: "chunked_ref opts 0 [] (concat cs, e) = (p, r, view rd)"
    using br.decodeChunked_drain [OF reader_ok_new, of cs e opts] unfolding view_new fst_conv by blast
  have "within_limit opts 0" by (simp add: within_limit_def split: option.split)
  from chunked_ref_limit [OF this ref] run show ?thesis by auto
qed

text \<open>C9: \<open>readResponseHead\<close> returns on every stream, with the result that the whole input
  determines, and a head it accepts takes at most the header budget off the stream, interim heads
  included.\<close>

theorem response_head_returns_within_budget:
  "\<exists>r rd. readResponseHead byte_reader_ops m (new_ByteReader cs e) = Some (r, rd)
     \<and> readResponseHead wire_ops m (concat cs, e) = Some (r, view rd)
     \<and> (case r of Inl _ \<Rightarrow> True | Inr _ \<Rightarrow> length (concat cs) - length (fst (view rd)) \<le> m)"
proof -
  obtain r rd where rr: "readResponseHead byte_reader_ops m (new_ByteReader cs e) = Some (r, rd)"
    "readResponseHead wire_ops m (concat cs, e) = Some (r, view rd)"
    using br.readResponseHead_returns [OF reader_ok_new, of m cs e] unfolding view_new by blast
  have "length (concat cs) \<le> length (fst (view rd)) + m" if "r = Inr x" for x
    using response_head_loop_budget [of "Suc m" m "[]" "(concat cs, e)" x "view rd"] rr(2) that
    by (simp add: readResponseHead_def del: response_head_loop.simps)
  with rr show ?thesis by (auto split: sum.split)
qed

text \<open>C10: when a response is framed by a length, it has no transfer coding, every listed length is
  the same number in decimal digits, the number is exact, and the connection may be reused.\<close>

theorem content_length_is_unambiguous:
  assumes "bodyFraming status method hs = Inr \<lparr> fr_kind = ContentLength n, fr_keepAlive = k \<rparr>"
  shows "headers_get (js ''transfer-encoding'') hs = None
    \<and> (\<exists>cl. headers_get (js ''content-length'') hs = Some cl
         \<and> (\<forall>v \<in> set (map js_trim (split_unit 0x2C cl)). list_all is_digit v \<and> parse_base 10 v = n))
    \<and> n \<le> max_safe_integer \<and> k"
  using framing_content_length [OF assms] by simp

theorem content_length_is_unambiguous_witness:
  "headers_get (js ''transfer-encoding'') [(js ''content-length'', js ''5, 5'')] = None \<and> (5::nat) \<le> max_safe_integer"
  using content_length_is_unambiguous [of 200 None "[(js ''content-length'', js ''5, 5'')]" 5 True]
  by (simp add: framing_eval)


text \<open>C12: a body framed by a length delivers exactly that many octets and leaves the reader at the
  next one, or delivers what there was and fails as truncated; \<open>completed\<close> tells which.\<close>

theorem length_body_is_exact:
  assumes "0 < n"
  shows "\<exists>k rd. drain (Suc (length (concat cs))) (body_pull byte_reader_ops mx)
            (LengthBody n Pending, new_ByteReader cs e) [] =
       Some (take n (concat cs),
             (if n \<le> length (concat cs) then None else Some (chunk_end_error e)),
             (LengthBody k (if n \<le> length (concat cs) then Resolved True else Rejected (chunk_end_error e)), rd))
     \<and> view rd = (drop n (concat cs), e)"
  using br.length_body_drain [OF reader_ok_new assms, of cs e "Suc (length (concat cs))" mx "[]"]
  unfolding view_new fst_conv snd_conv by auto

theorem length_body_is_exact_witness:
  "\<exists>k rd. drain 5 (body_pull byte_reader_ops None) (LengthBody 3 Pending, new_ByteReader [[1], [2, 3, 4]] CleanEnd) [] =
      Some ([1, 2, 3], None, (LengthBody k (Resolved True), rd)) \<and> view rd = ([4], CleanEnd)"
  using length_body_is_exact [of 3 "[[1], [2, 3, 4]]" None CleanEnd] by (simp add: numeral_eq_Suc)

text \<open>A body that ends with the connection delivers everything and completes on a clean end,
  fails with the transport's failure, or is cut off with the limit error before the first octet
  over the limit is delivered.\<close>

lemma close_body_is_everything:
  "\<exists>p err t c rd. drain (Suc (length (concat cs))) (body_pull byte_reader_ops mx)
       (CloseBody 0 Pending, new_ByteReader cs e) [] = Some (p, err, (CloseBody t c, rd))
   \<and> (if over_limit mx (length (concat cs))
      then err = Some (Thrown LimitError (Limit LIMIT_BODY)) \<and> (\<exists>q. concat cs = p @ q)
           \<and> \<not> over_limit mx (length p) \<and> c = Rejected (Thrown LimitError (Limit LIMIT_BODY))
      else p = concat cs \<and>
           (case e of CleanEnd \<Rightarrow> err = None \<and> c = Resolved True
            | Fails k \<Rightarrow> err = Some (TransportFailure k) \<and> c = Rejected (TransportFailure k)))"
proof -
  have "\<not> over_limit mx 0" by (simp add: over_limit_def split: option.split)
  from br.close_body_drain [OF reader_ok_new lessI this, of cs e "[]"] show ?thesis
    unfolding view_new fst_conv snd_conv by (simp split: if_splits) blast+
qed



text \<open>The comment over the check of \<open>Content-Length\<close> says that any non-digit is fatal. \<open>trim\<close>
  removes U+00A0 too, which is an octet that the head parser lets through in a value, so a length
  followed by that octet is accepted; so is such a transfer coding.\<close>

lemma content_length_with_nbsp_accepted:
  "bodyFraming 200 None [(js ''content-length'', [0x35, 0xA0])] = Inr \<lparr> fr_kind = ContentLength 5, fr_keepAlive = True \<rparr>
   \<and> bodyFraming 200 None [(js ''transfer-encoding'', js ''chunked'' @ [0xA0])] = Inr \<lparr> fr_kind = ChunkedBody, fr_keepAlive = True \<rparr>
   \<and> header_line (js ''Content-Length: 5'' @ [0xA0]) = Inr (js ''Content-Length'', [0x35, 0xA0])"
  by (simp add: framing_eval header_line_def)

end
